(* ===== verification/QC_Prelude.thy ===== *)
theory QC_Prelude
  imports "HOL-Library.Word" "HOL-Library.Multiset" "HOL-Library.Monad_Syntax"
begin

unbundle bit_operations_syntax

section \<open>Shared types, platform constants and generic lemmas\<close>

text \<open>
  The integer types of the driver at their widths, the values of the Windows headers it
  compares against, bounded memory operations, and the lemmas on lists and words that the
  component theories share. A copy or a bit operation outside its buffer is \<open>None\<close>: the
  kernel would fault (or corrupt memory) there. Generic facts go into the simpset or into
  the collections declared first.
\<close>

named_theorems qc_simps \<open>definitions of small field updates, unfolded by the component proofs\<close>
named_theorems longlong \<open>signed 64-bit values as integers\<close>

subsection \<open>Types\<close>

type_synonym byte = "8 word"
type_synonym UCHAR = "8 word"
type_synonym WCHAR = "16 word"
type_synonym USHORT = "16 word"
type_synonym ULONG = "32 word"
type_synonym LONG = "32 word"
type_synonym LONGLONG = "64 word"
type_synonym ULONG_PTR = "64 word"
type_synonym NTSTATUS = "32 word"

subsection \<open>Status values (ntstatus.h) and major function codes (wdm.h)\<close>

abbreviation (input) STATUS_SUCCESS :: NTSTATUS where "STATUS_SUCCESS \<equiv> 0"
abbreviation (input) STATUS_PENDING :: NTSTATUS where "STATUS_PENDING \<equiv> 0x103"
abbreviation (input) STATUS_BUFFER_OVERFLOW :: NTSTATUS where "STATUS_BUFFER_OVERFLOW \<equiv> 0x80000005"
abbreviation (input) STATUS_END_OF_MEDIA :: NTSTATUS where "STATUS_END_OF_MEDIA \<equiv> 0x8000001E"
abbreviation (input) STATUS_UNSUCCESSFUL :: NTSTATUS where "STATUS_UNSUCCESSFUL \<equiv> 0xC0000001"
abbreviation (input) STATUS_INVALID_PARAMETER :: NTSTATUS where "STATUS_INVALID_PARAMETER \<equiv> 0xC000000D"
abbreviation (input) STATUS_NO_SUCH_DEVICE :: NTSTATUS where "STATUS_NO_SUCH_DEVICE \<equiv> 0xC000000E"
abbreviation (input) STATUS_BUFFER_TOO_SMALL :: NTSTATUS where "STATUS_BUFFER_TOO_SMALL \<equiv> 0xC0000023"
abbreviation (input) STATUS_OBJECT_NAME_COLLISION :: NTSTATUS where
  "STATUS_OBJECT_NAME_COLLISION \<equiv> 0xC0000035"
abbreviation (input) STATUS_DELETE_PENDING :: NTSTATUS where "STATUS_DELETE_PENDING \<equiv> 0xC0000056"
abbreviation (input) STATUS_INSUFFICIENT_RESOURCES :: NTSTATUS where
  "STATUS_INSUFFICIENT_RESOURCES \<equiv> 0xC000009A"
abbreviation (input) STATUS_DEVICE_NOT_READY :: NTSTATUS where "STATUS_DEVICE_NOT_READY \<equiv> 0xC00000A3"
abbreviation (input) STATUS_WMI_GUID_NOT_FOUND :: NTSTATUS where
  "STATUS_WMI_GUID_NOT_FOUND \<equiv> 0xC0000295"

text \<open>\<open>NT_SUCCESS\<close>: the status read as a signed number is not negative.\<close>

definition NT_SUCCESS :: "NTSTATUS \<Rightarrow> bool" where
  "NT_SUCCESS s \<longleftrightarrow> 0 <=s s"

abbreviation (input) IRP_MJ_CREATE :: UCHAR where "IRP_MJ_CREATE \<equiv> 0x00"
abbreviation (input) IRP_MJ_READ :: UCHAR where "IRP_MJ_READ \<equiv> 0x03"
abbreviation (input) IRP_MJ_WRITE :: UCHAR where "IRP_MJ_WRITE \<equiv> 0x04"
abbreviation (input) IRP_MJ_FLUSH_BUFFERS :: UCHAR where "IRP_MJ_FLUSH_BUFFERS \<equiv> 0x09"
abbreviation (input) IRP_MJ_FILE_SYSTEM_CONTROL :: UCHAR where "IRP_MJ_FILE_SYSTEM_CONTROL \<equiv> 0x0D"
abbreviation (input) IRP_MJ_DEVICE_CONTROL :: UCHAR where "IRP_MJ_DEVICE_CONTROL \<equiv> 0x0E"
abbreviation (input) IRP_MJ_INTERNAL_DEVICE_CONTROL :: UCHAR where
  "IRP_MJ_INTERNAL_DEVICE_CONTROL \<equiv> 0x0F"
abbreviation (input) IRP_MJ_SCSI :: UCHAR where "IRP_MJ_SCSI \<equiv> 0x0F"
abbreviation (input) IRP_MJ_SHUTDOWN :: UCHAR where "IRP_MJ_SHUTDOWN \<equiv> 0x10"
abbreviation (input) IRP_MJ_POWER :: UCHAR where "IRP_MJ_POWER \<equiv> 0x16"
abbreviation (input) IRP_MJ_SYSTEM_CONTROL :: UCHAR where "IRP_MJ_SYSTEM_CONTROL \<equiv> 0x17"
abbreviation (input) IRP_MJ_PNP :: UCHAR where "IRP_MJ_PNP \<equiv> 0x1B"
abbreviation (input) IRP_MN_START_DEVICE :: UCHAR where "IRP_MN_START_DEVICE \<equiv> 0x00"
abbreviation (input) IRP_MN_REMOVE_DEVICE :: UCHAR where "IRP_MN_REMOVE_DEVICE \<equiv> 0x02"
abbreviation (input) IRP_MN_DEVICE_USAGE_NOTIFICATION :: UCHAR where
  "IRP_MN_DEVICE_USAGE_NOTIFICATION \<equiv> 0x16"
abbreviation (input) IRP_ASSOCIATED_IRP :: ULONG where "IRP_ASSOCIATED_IRP \<equiv> 0x8"
abbreviation (input) IRP_MN_SCSI_CLASS :: UCHAR where "IRP_MN_SCSI_CLASS \<equiv> 0x01"

lemma nt_success_values [simp]:
  "NT_SUCCESS STATUS_SUCCESS" "NT_SUCCESS STATUS_PENDING"
  "\<not> NT_SUCCESS STATUS_END_OF_MEDIA" "\<not> NT_SUCCESS STATUS_INVALID_PARAMETER"
  "\<not> NT_SUCCESS STATUS_INSUFFICIENT_RESOURCES" "\<not> NT_SUCCESS STATUS_DELETE_PENDING"
  "\<not> NT_SUCCESS STATUS_BUFFER_TOO_SMALL" "\<not> NT_SUCCESS STATUS_UNSUCCESSFUL"
  "\<not> NT_SUCCESS STATUS_DEVICE_NOT_READY" "\<not> NT_SUCCESS STATUS_BUFFER_OVERFLOW"
  by (simp_all add: NT_SUCCESS_def word_sle_eq)

subsection \<open>Memory\<close>

definition RtlCopyMemory :: "byte list \<Rightarrow> nat \<Rightarrow> byte list \<Rightarrow> nat \<Rightarrow> nat \<Rightarrow> byte list option" where
  "RtlCopyMemory dst d src s n =
     (if d + n \<le> length dst \<and> s + n \<le> length src
      then Some (take d dst @ take n (drop s src) @ drop (d + n) dst)
      else None)"

definition RtlSetBits :: "bool list \<Rightarrow> nat \<Rightarrow> nat \<Rightarrow> bool list option" where
  "RtlSetBits bm i n =
     (if i + n \<le> length bm then Some (take i bm @ replicate n True @ drop (i + n) bm)
      else None)"

lemma copy_memory_length: "RtlCopyMemory dst d src s n = Some r \<Longrightarrow> length r = length dst"
  by (auto simp: RtlCopyMemory_def split: if_splits)

lemma copy_memory_nth:
  assumes "RtlCopyMemory dst d src s n = Some r" "k < length dst"
  shows "r ! k = (if d \<le> k \<and> k < d + n then src ! (s + (k - d)) else dst ! k)"
proof -
  have len: "length (take n (drop s src)) = n" "d + n \<le> length dst"
    and r: "r = take d dst @ take n (drop s src) @ drop (d + n) dst"
    using assms(1) by (auto simp: RtlCopyMemory_def split: if_splits)
  show ?thesis
    using assms(2) len by (auto simp: r nth_append not_less)
qed

lemma set_bits_length: "RtlSetBits bm i n = Some r \<Longrightarrow> length r = length bm"
  by (auto simp: RtlSetBits_def split: if_splits)

lemma set_bits_nth:
  assumes "RtlSetBits bm i n = Some r" "k < length bm"
  shows "r ! k = (i \<le> k \<and> k < i + n \<or> bm ! k)"
  using assms by (auto simp: RtlSetBits_def nth_append min_def split: if_splits)

subsection \<open>Signed 64-bit arithmetic\<close>

text \<open>The C macros \<open>max\<close> and \<open>min\<close> on \<open>LONGLONG\<close>.\<close>

definition ll_max :: "LONGLONG \<Rightarrow> LONGLONG \<Rightarrow> LONGLONG" where
  "ll_max a b = (if b <s a then a else b)"

definition ll_min :: "LONGLONG \<Rightarrow> LONGLONG \<Rightarrow> LONGLONG" where
  "ll_min a b = (if a <s b then a else b)"

lemma sint_inject: "sint a = sint b \<Longrightarrow> a = b"
  by (rule signed_word_eqI)

lemma ll_max_alt: "ll_max a b = (if a <s b then b else a)"
  by (auto simp: ll_max_def word_sless_alt intro: sint_inject)

lemma sint_ll_max [longlong]: "sint (ll_max a b) = max (sint a) (sint b)"
  by (auto simp: ll_max_def word_sless_alt)

lemma sint_ll_min [longlong]: "sint (ll_min a b) = min (sint a) (sint b)"
  by (auto simp: ll_min_def word_sless_alt)

lemma sint_range64:
  "- 9223372036854775808 \<le> sint (a :: LONGLONG)" "sint (a :: LONGLONG) < 9223372036854775808"
  using sint_range_size [of a] by (simp_all add: word_size)

lemma uint_range32: "0 \<le> uint (n :: ULONG)" "uint (n :: ULONG) < 4294967296"
  using uint_lt2p [of n] by simp_all

lemma unat_range32: "unat (n :: ULONG) < 4294967296"
proof -
  have "int (unat n) < int 4294967296" using uint_range32(2) [of n] by simp
  then show ?thesis by (simp only: of_nat_less_iff)
qed

lemma signed_take_bit_id:
  "- 9223372036854775808 \<le> k \<Longrightarrow> k < 9223372036854775808 \<Longrightarrow> signed_take_bit 63 k = (k :: int)"
  by (rule signed_take_bit_int_eq_self) simp_all

lemma uint_ucast32: "uint (ucast (n :: ULONG) :: LONGLONG) = uint n"
proof -
  have "uint n < 18446744073709551616" using uint_range32 [of n] by linarith
  then show ?thesis by (simp add: unsigned_ucast_eq take_bit_int_eq_self)
qed

lemma unat_of_nat_eq: "n < 2 ^ LENGTH('a) \<Longrightarrow> unat (of_nat n :: 'a::len word) = n"
  by (simp add: unat_of_nat take_bit_nat_eq_self)

lemma word_of_nat_unat: "of_nat (unat w) = (w :: 'a::len word)"
  by (simp add: word_unat_eq_iff unat_of_nat_eq)

lemma sint_ucast32 [longlong]: "sint (ucast (n :: ULONG) :: LONGLONG) = uint n"
proof -
  have "signed_take_bit 63 (uint n) = uint n"
    by (rule signed_take_bit_id; use uint_range32 [of n] in linarith)
  then show ?thesis by (simp add: sint_uint uint_ucast32)
qed

lemma sint_add64:
  "- 9223372036854775808 \<le> sint a + sint b \<Longrightarrow> sint a + sint b < 9223372036854775808
   \<Longrightarrow> sint (a + b :: LONGLONG) = sint a + sint b"
  by (simp add: sint_word_ariths signed_take_bit_id)

lemma sint_sub64:
  "- 9223372036854775808 \<le> sint a - sint b \<Longrightarrow> sint a - sint b < 9223372036854775808
   \<Longrightarrow> sint (a - b :: LONGLONG) = sint a - sint b"
  by (simp add: sint_word_ariths signed_take_bit_id)

text \<open>
  An end position \<open>offset + length\<close> of a 32-bit length: either it is exact, or it wrapped
  round and is negative. So the test \<open>highest_byte > 0\<close> excludes the wrap-around.
\<close>

lemma end_pos_wraps:
  fixes off :: LONGLONG and n :: ULONG
  shows "sint (off + ucast n) = sint off + uint n \<or> sint (off + ucast n) < 0"
proof (cases "sint off + uint n < 9223372036854775808")
  case True
  then have "sint (off + ucast n) = sint off + sint (ucast n :: LONGLONG)"
    using sint_range64(1) [of off] uint_range32(1) [of n]
    by (intro sint_add64; unfold longlong; linarith)
  then show ?thesis by (simp add: longlong)
next
  case False
  let ?k = "sint off + uint n"
  have "sint (off + ucast n) = signed_take_bit 63 ?k"
    by (simp add: sint_word_ariths longlong)
  also have "\<dots> = signed_take_bit 63 (?k - 18446744073709551616)"
  proof -
    have "take_bit (Suc 63) ?k = take_bit (Suc 63) (?k - 18446744073709551616)"
      by (simp add: take_bit_eq_mod)
    then show ?thesis by (simp only: signed_take_bit_eq_iff_take_bit_eq)
  qed
  also have "\<dots> = ?k - 18446744073709551616"
    using False sint_range64(2) [of off] uint_range32(2) [of n]
    by (intro signed_take_bit_id; linarith)
  finally show ?thesis
    using sint_range64(2) [of off] uint_range32(2) [of n] by linarith
qed

lemma end_pos_exact:
  fixes off :: LONGLONG and n :: ULONG
  assumes "0 \<le> sint (off + ucast n)"
  shows "sint (off + ucast n) = sint off + uint n"
  using end_pos_wraps [of off n] assms by linarith

end
