(* ===== verification/QC_Stats.thy ===== *)
theory QC_Stats
  imports QC_Prelude
begin

section \<open>The shared header qcstats.h\<close>

text \<open>
  \<open>src/qcache/qcstats.h\<close>: the statistics block every filter device keeps (and hands to
  user mode unchanged), the private control codes, the defaults of the queue limits, and the
  two progress-character helpers. Counters have their C widths; \<open>LONGLONG\<close> fields are
  64-bit words read as signed values.
\<close>

subsection \<open>Control codes\<close>

definition CTL_CODE :: "ULONG \<Rightarrow> ULONG \<Rightarrow> ULONG \<Rightarrow> ULONG \<Rightarrow> ULONG" where
  "CTL_CODE dev func method access =
     push_bit 16 dev OR push_bit 14 access OR push_bit 2 func OR method"

definition ACCESS_FROM_CTL_CODE :: "ULONG \<Rightarrow> UCHAR" where
  "ACCESS_FROM_CTL_CODE c = ucast (drop_bit 14 c AND 3)"

abbreviation (input) METHOD_BUFFERED :: ULONG where "METHOD_BUFFERED \<equiv> 0"
abbreviation (input) FILE_READ_ACCESS :: ULONG where "FILE_READ_ACCESS \<equiv> 1"
abbreviation (input) FILE_WRITE_ACCESS :: ULONG where "FILE_WRITE_ACCESS \<equiv> 2"

definition IOCTL_QCACHE_GET_DEVICE_DATA :: ULONG where
  "IOCTL_QCACHE_GET_DEVICE_DATA = CTL_CODE 0x8844 0xD01 METHOD_BUFFERED 0"

definition IOCTL_QCACHE_OFF :: ULONG where
  "IOCTL_QCACHE_OFF =
     CTL_CODE 0x8844 0xD02 METHOD_BUFFERED (FILE_READ_ACCESS OR FILE_WRITE_ACCESS)"

definition IOCTL_QCACHE_ON :: ULONG where
  "IOCTL_QCACHE_ON =
     CTL_CODE 0x8844 0xD03 METHOD_BUFFERED (FILE_READ_ACCESS OR FILE_WRITE_ACCESS)"

definition IOCTL_QCACHE_FLUSH :: ULONG where
  "IOCTL_QCACHE_FLUSH =
     CTL_CODE 0x8844 0xD04 METHOD_BUFFERED (FILE_READ_ACCESS OR FILE_WRITE_ACCESS)"

lemma ioctl_values [simp]:
  "IOCTL_QCACHE_GET_DEVICE_DATA = 0x88443404"
  "IOCTL_QCACHE_OFF = 0x8844F408"
  "IOCTL_QCACHE_ON = 0x8844F40C"
  "IOCTL_QCACHE_FLUSH = 0x8844F410"
  by (simp_all add: IOCTL_QCACHE_GET_DEVICE_DATA_def IOCTL_QCACHE_OFF_def IOCTL_QCACHE_ON_def
      IOCTL_QCACHE_FLUSH_def CTL_CODE_def)

lemma ioctl_access [simp]:
  "ACCESS_FROM_CTL_CODE 0x88443404 = 0"
  "ACCESS_FROM_CTL_CODE 0x8844F408 = 3"
  "ACCESS_FROM_CTL_CODE 0x8844F40C = 3"
  "ACCESS_FROM_CTL_CODE 0x8844F410 = 3"
  by (simp_all add: ACCESS_FROM_CTL_CODE_def)

subsection \<open>Queue limits\<close>

definition QCACHE_MAX_QUEUE_ITEMS_DEFAULT_VALUE :: LONGLONG where
  "QCACHE_MAX_QUEUE_ITEMS_DEFAULT_VALUE = 10000"

definition QCACHE_MAX_QUEUE_SIZE_DEFAULT_VALUE :: LONGLONG where
  "QCACHE_MAX_QUEUE_SIZE_DEFAULT_VALUE = push_bit 20 500"

subsection \<open>Device statistics\<close>

record DEVICE_STATISTICS =
  Version :: ULONG
  IsCached :: bool
  LastErrorCode :: NTSTATUS
  Size :: LONGLONG
  ReadRequests :: LONGLONG
  ReadBytes :: LONGLONG
  LargestReadSize :: ULONG
  ReadRequestsReroutedToOriginal :: LONGLONG
  ReadBytesReroutedToOriginal :: LONGLONG
  ReadBytesFromOriginal :: LONGLONG
  ReadRequestsFromCache :: LONGLONG
  ReadBytesFromCache :: LONGLONG
  SplitReads :: LONGLONG
  WriteRequests :: LONGLONG
  WrittenBytes :: LONGLONG
  LargestWriteSize :: ULONG
  WriteQueueItems :: LONGLONG
  WriteQueueItemsTop :: LONGLONG
  WriteQueueSize :: LONGLONG
  WriteQueueSizeTop :: LONGLONG
  PagingPathCount :: LONG
  LowMemQueued :: LONGLONG
  MaxQueueItems :: LONGLONG
  MaxQueueSize :: LONGLONG

text \<open>
  The size of the structure on a 64-bit target (natural alignment); the version field holds it
  and the control utility compares against it.
\<close>

definition sizeof_DEVICE_STATISTICS :: ULONG where
  "sizeof_DEVICE_STATISTICS = 184"

text \<open>The state \<open>RtlZeroMemory\<close> leaves.\<close>

definition zero_statistics :: DEVICE_STATISTICS where
  "zero_statistics =
     \<lparr>Version = 0, IsCached = False, LastErrorCode = 0, Size = 0, ReadRequests = 0,
      ReadBytes = 0, LargestReadSize = 0, ReadRequestsReroutedToOriginal = 0,
      ReadBytesReroutedToOriginal = 0, ReadBytesFromOriginal = 0, ReadRequestsFromCache = 0,
      ReadBytesFromCache = 0, SplitReads = 0, WriteRequests = 0, WrittenBytes = 0,
      LargestWriteSize = 0, WriteQueueItems = 0, WriteQueueItemsTop = 0, WriteQueueSize = 0,
      WriteQueueSizeTop = 0, PagingPathCount = 0, LowMemQueued = 0, MaxQueueItems = 0,
      MaxQueueSize = 0\<rparr>"

subsection \<open>Progress characters\<close>

text \<open>
  Both helpers overwrite the character they are given and return the new value, so one value
  models both. The codes are those of backslash, bar, slash and minus.
\<close>

definition NextWaitChar :: "8 word \<Rightarrow> 8 word" where
  "NextWaitChar c =
     (if c = 0x5C then 0x7C else if c = 0x7C then 0x2F else if c = 0x2F then 0x2D else 0x5C)"

definition NextWaitCharW :: "WCHAR \<Rightarrow> WCHAR" where
  "NextWaitCharW c =
     (if c = 0x5C then 0x7C else if c = 0x7C then 0x2F else if c = 0x2F then 0x2D else 0x5C)"

end
