(* ===== verification/QC_Device.thy ===== *)
theory QC_Device
  imports QC_Stats
begin

section \<open>Requests, queue items and the device extension\<close>

text \<open>
  The data of \<open>src/qcache/qcache.h\<close> and the few kernel services every handler uses. A
  request (\<open>IRP\<close>) is a record of the fields the driver reads; the memory behind its MDL is
  the byte list \<open>ir_Buffer\<close>. A \<open>world\<close> is one filter device with its queue, the state of
  the lower device (of any type: the lower driver is not part of this code), the low-memory
  event and the requests that were completed or handed down, in order. What the kernel decides
  (allocations, the remove lock, memory conditions) is read from an environment record, one
  per call. A result \<open>None\<close> is a kernel fault: a null event or a copy outside its buffer.

  Sections guarded by \<open>WriteQueueLock\<close> are single steps, so the lock itself is not part of
  the state.
\<close>

subsection \<open>I/O request packets\<close>

record irp =
  ir_id :: nat
  ir_MajorFunction :: UCHAR
  ir_MinorFunction :: UCHAR
  ir_ByteOffset :: LONGLONG
  ir_Length :: ULONG
  ir_IoControlCode :: ULONG
  ir_OutputBufferLength :: ULONG
  ir_Buffer :: "byte list"
  ir_SystemBuffer :: "byte list"
  ir_Output :: "DEVICE_STATISTICS option"
  ir_Status :: NTSTATUS
  ir_Information :: ULONG_PTR

text \<open>A transfer request whose MDL describes exactly \<open>Length\<close> bytes.\<close>

definition wf_transfer :: "irp \<Rightarrow> bool" where
  "wf_transfer i \<longleftrightarrow> length (ir_Buffer i) = unat (ir_Length i)"

subsection \<open>Write queue items\<close>

record WRITE_QUEUE_ITEM =
  it_MajorFunction :: UCHAR
  it_Offset :: LONGLONG
  it_Length :: ULONG
  it_Buffer :: "byte list option"
  it_Irp :: "irp option"

text \<open>
  \<open>operator new\<close> (wkmem.hpp) fills the allocation with zero bytes, so a new item has null
  pointers, offset 0 and length 0.
\<close>

definition new_item :: WRITE_QUEUE_ITEM where
  "new_item = \<lparr>it_MajorFunction = 0, it_Offset = 0, it_Length = 0, it_Buffer = None, it_Irp = None\<rparr>"

text \<open>\<open>sizeof(WRITE_QUEUE_ITEM)\<close> on a 64-bit target.\<close>

definition sizeof_item :: LONGLONG where
  "sizeof_item = 64"

subsection \<open>Scattered reads\<close>

text \<open>
  A lower request of a split transfer: where it goes on the device, and which part of which
  buffer it fills: the memory of the original MDL, the system buffer, or the allocated copy.
\<close>

datatype target = OriginalMdl nat | SystemBuf nat | AllocBuf nat

record lower_irp =
  lo_MajorFunction :: UCHAR
  lo_ByteOffset :: LONGLONG
  lo_Length :: ULONG
  lo_Target :: target
  lo_Flags :: ULONG

text \<open>
  What the pointer \<open>SystemBuffer\<close> of a scatter object points to: nothing, the system buffer
  of the request, or a kernel mapping of its MDL.
\<close>

datatype system_buffer = NoBuffer | AssociatedBuffer | MdlMapping

record SCATTERED_IRP =
  sc_OriginalIrp :: irp
  sc_OriginalFlags :: ULONG
  sc_ScatterCount :: LONG
  sc_LastFailedStatus :: NTSTATUS
  sc_BytesCompleted :: ULONG_PTR
  sc_SystemBuffer :: system_buffer
  sc_AllocatedBuffer :: "byte list option"
  sc_CopyBack :: bool
  sc_Outstanding :: "lower_irp list"

subsection \<open>Device extension and world\<close>

record DEVICE_EXTENSION =
  Statistics :: DEVICE_STATISTICS
  WorkerThread :: bool
  ShutdownThread :: bool
  RemoveLock :: nat
  WriteQueue :: "WRITE_QUEUE_ITEM list"
  WriteQueueEvent :: bool
  InitializationEvent :: bool
  PagingPathCountEvent :: bool

record 'd world =
  ext :: DEVICE_EXTENSION
  lower :: 'd
  LowMemCondition :: "bool option"
  Completed :: "irp list"
  SentDown :: "irp list"
  Scatters :: "SCATTERED_IRP list"
  PoolItems :: nat
  LinksCreated :: bool

record build_env =
  irp_alloc :: bool
  partial_mdl_alloc :: bool
  high_priority_mapping :: bool
  copy_buffer_alloc :: bool

record env =
  HighNonPagedPoolCondition :: "bool option"
  HighMemoryCondition :: "bool option"
  item_alloc :: bool
  buffer_alloc :: bool
  mdl_mapped :: bool
  acquire_status :: NTSTATUS
  bitmap_alloc :: bool
  scatter_alloc :: bool
  build_alloc :: "nat \<Rightarrow> build_env"
  device_flags :: ULONG

abbreviation stats :: "'d world \<Rightarrow> DEVICE_STATISTICS" where
  "stats w \<equiv> Statistics (ext w)"

abbreviation queue :: "'d world \<Rightarrow> WRITE_QUEUE_ITEM list" where
  "queue w \<equiv> WriteQueue (ext w)"

subsection \<open>The lower driver\<close>

text \<open>
  \<open>IoCallDriver(TargetDeviceObject, ..)\<close> runs code that is not in this repository, so it is
  a parameter: what passing a request on returns, what a forwarded and awaited request looks
  like afterwards, the final status of a request built for a queue item, and the answer to one
  lower read of a split request (\<open>None\<close> when it completes later). \<open>lw_completes\<close> says whether
  a request of the worker that reaches the device in this state is completed at all: nothing
  obliges a device to, and the worker waits without a timeout.
\<close>

abbreviation (input) DO_BUFFERED_IO :: ULONG where "DO_BUFFERED_IO \<equiv> 0x4"
abbreviation (input) DO_DIRECT_IO :: ULONG where "DO_DIRECT_IO \<equiv> 0x10"
abbreviation (input) DO_DEVICE_INITIALIZING :: ULONG where "DO_DEVICE_INITIALIZING \<equiv> 0x80"
abbreviation (input) DO_POWER_PAGABLE :: ULONG where "DO_POWER_PAGABLE \<equiv> 0x2000"
abbreviation (input) DO_POWER_INRUSH :: ULONG where "DO_POWER_INRUSH \<equiv> 0x4000"
abbreviation (input) IRP_NOCACHE :: ULONG where "IRP_NOCACHE \<equiv> 0x1"
abbreviation (input) IRP_READ_OPERATION :: ULONG where "IRP_READ_OPERATION \<equiv> 0x100"
abbreviation (input) IRP_WRITE_OPERATION :: ULONG where "IRP_WRITE_OPERATION \<equiv> 0x200"
abbreviation (input) SL_WRITE_THROUGH :: UCHAR where "SL_WRITE_THROUGH \<equiv> 0x4"

text \<open>
  What \<open>IoBuildSynchronousFsdRequest\<close> is given, and the flags the driver adds to the result.
\<close>

record built_irp =
  bi_MajorFunction :: UCHAR
  bi_Buffer :: "byte list option"
  bi_Length :: ULONG
  bi_StartingOffset :: LONGLONG
  bi_AddedFlags :: ULONG
  bi_AddedStackFlags :: UCHAR

record answer =
  an_Status :: NTSTATUS
  an_Information :: ULONG_PTR
  an_Data :: "byte list"

record 'd lower_driver =
  lw_flags :: ULONG
  lw_pass :: "irp \<Rightarrow> 'd \<Rightarrow> NTSTATUS \<times> 'd"
  lw_forward :: "irp \<Rightarrow> 'd \<Rightarrow> NTSTATUS \<times> irp \<times> 'd"
  lw_built :: "built_irp \<Rightarrow> 'd \<Rightarrow> NTSTATUS \<times> 'd"
  lw_read :: "lower_irp \<Rightarrow> 'd \<Rightarrow> answer option \<times> 'd"
  lw_completes :: "'d \<Rightarrow> bool"

subsection \<open>Kernel services\<close>

definition upd_stats :: "(DEVICE_STATISTICS \<Rightarrow> DEVICE_STATISTICS) \<Rightarrow> 'd world \<Rightarrow> 'd world" where
  [qc_simps]: "upd_stats f w = w\<lparr>ext := (ext w)\<lparr>Statistics := f (stats w)\<rparr>\<rparr>"

definition IoCompleteRequest :: "irp \<Rightarrow> 'd world \<Rightarrow> 'd world" where
  [qc_simps]: "IoCompleteRequest i w = w\<lparr>Completed := Completed w @ [i]\<rparr>"

text \<open>
  The remove lock counts acquisitions. Whether an acquisition succeeds is the kernel's
  decision.
\<close>

definition IoAcquireRemoveLock :: "env \<Rightarrow> 'd world \<Rightarrow> NTSTATUS \<times> 'd world" where
  [qc_simps]: "IoAcquireRemoveLock e w =
     (acquire_status e,
      if NT_SUCCESS (acquire_status e)
      then w\<lparr>ext := (ext w)\<lparr>RemoveLock := Suc (RemoveLock (ext w))\<rparr>\<rparr> else w)"

definition IoReleaseRemoveLock :: "'d world \<Rightarrow> 'd world" where
  [qc_simps]: "IoReleaseRemoveLock w = w\<lparr>ext := (ext w)\<lparr>RemoveLock := RemoveLock (ext w) - 1\<rparr>\<rparr>"

text \<open>Setting or resetting the low-memory event through a null pointer is a fault.\<close>

definition KeSetLowMem :: "bool \<Rightarrow> 'd world \<Rightarrow> 'd world option" where
  [qc_simps]: "KeSetLowMem b w =
     (case LowMemCondition w of None \<Rightarrow> None | Some _ \<Rightarrow> Some (w\<lparr>LowMemCondition := Some b\<rparr>))"

text \<open>
  \<open>IoSkipCurrentIrpStackLocation\<close> and \<open>IoCallDriver\<close>: the request now belongs to the lower
  driver (\<open>QCacheSendToNextDriver\<close> does nothing else).
\<close>

definition QCacheSendToNextDriver :: "'d lower_driver \<Rightarrow> irp \<Rightarrow> 'd world \<Rightarrow> NTSTATUS \<times> 'd world" where
  "QCacheSendToNextDriver L i w =
     (case lw_pass L i (lower w) of (st, d) \<Rightarrow> (st, w\<lparr>lower := d, SentDown := SentDown w @ [i]\<rparr>))"

text \<open>\<open>QCacheIgnore\<close>: complete with success and no bytes.\<close>

definition QCacheIgnore :: "irp \<Rightarrow> 'd world \<Rightarrow> NTSTATUS \<times> 'd world" where
  "QCacheIgnore i w =
     (STATUS_SUCCESS,
      IoCompleteRequest (i\<lparr>ir_Information := 0, ir_Status := STATUS_SUCCESS\<rparr>) w)"

text \<open>
  Completing a request with an error status, the shape of every early error exit: the
  \<open>Information\<close> of the request is left as it is.
\<close>

definition complete_with :: "NTSTATUS \<Rightarrow> irp \<Rightarrow> 'd world \<Rightarrow> NTSTATUS \<times> 'd world" where
  [qc_simps]: "complete_with st i w = (st, IoCompleteRequest (i\<lparr>ir_Status := st\<rparr>) w)"

subsection \<open>Ownership of requests\<close>

text \<open>
  Every request the driver has received is in exactly one place: completed, handed to the
  lower driver, attached to a queue item, or the original request of a split read.
\<close>

definition queued_irps :: "WRITE_QUEUE_ITEM list \<Rightarrow> irp list" where
  "queued_irps q = List.map_filter it_Irp q"

definition owned :: "'d world \<Rightarrow> nat multiset" where
  "owned w = mset (map ir_id (Completed w)) + mset (map ir_id (SentDown w))
     + mset (map ir_id (queued_irps (queue w)))
     + mset (map (ir_id \<circ> sc_OriginalIrp) (Scatters w))"

lemma queued_irps_simps [simp]:
  "queued_irps [] = []"
  "queued_irps (it # q) = (case it_Irp it of None \<Rightarrow> queued_irps q | Some i \<Rightarrow> i # queued_irps q)"
  "queued_irps (q @ q') = queued_irps q @ queued_irps q'"
  by (induction q) (auto simp: queued_irps_def List.map_filter_def split: option.splits)

lemma owned_send [simp]:
  "QCacheSendToNextDriver L i w = (st, w') \<Longrightarrow> owned w' = add_mset (ir_id i) (owned w)"
  by (auto simp: QCacheSendToNextDriver_def owned_def split: prod.splits)

lemma owned_complete [simp]: "owned (IoCompleteRequest i w) = add_mset (ir_id i) (owned w)"
  by (simp add: owned_def IoCompleteRequest_def)

end
