(* ===== verification/QC_Queue.thy ===== *)
theory QC_Queue
  imports QC_Device
begin

section \<open>The write queue\<close>

text \<open>
  \<open>src/qcache/queue.cpp\<close>: admission of a request to the queue (\<open>QCacheQueueIrp\<close>), the
  lazy-write path that completes the request at once (\<open>QCacheQueueLazyWriteIrp\<close>), and the
  execution of the item at the head by the worker (\<open>QCacheDispatchQueuedItem\<close>). The lemmas
  give each path's effect, the accounting invariant of the statistics, and who owns a request
  and the remove lock afterwards.
\<close>

subsection \<open>Inserting\<close>

text \<open>
  The part of both admission paths that holds \<open>WriteQueueLock\<close>: insert at the tail, charge the
  item to the statistics, raise the high-water marks. The lazy path charges the header and the
  payload, the other path the header only.
\<close>

definition insert_item :: "WRITE_QUEUE_ITEM \<Rightarrow> LONGLONG \<Rightarrow> 'd world \<Rightarrow> 'd world" where
  "insert_item it cost w =
     (let w1 = w\<lparr>ext := (ext w)\<lparr>WriteQueue := queue w @ [it]\<rparr>\<rparr>;
          w2 = upd_stats (\<lambda>s. s\<lparr>WriteQueueSize := WriteQueueSize s + cost\<rparr>) w1;
          w3 = upd_stats (\<lambda>s. s\<lparr>WriteQueueItems := WriteQueueItems s + 1\<rparr>) w2;
          w4 = upd_stats (\<lambda>s. if WriteQueueSizeTop s <s WriteQueueSize s
                               then s\<lparr>WriteQueueSizeTop := WriteQueueSize s\<rparr> else s) w3
      in upd_stats (\<lambda>s. if WriteQueueItemsTop s <s WriteQueueItems s
                         then s\<lparr>WriteQueueItemsTop := WriteQueueItems s\<rparr> else s) w4)"

definition set_queue_event :: "'d world \<Rightarrow> 'd world" where
  [qc_simps]: "set_queue_event w = w\<lparr>ext := (ext w)\<lparr>WriteQueueEvent := True\<rparr>\<rparr>"

subsection \<open>The lazy path\<close>

text \<open>
  \<open>Information\<close> is cleared first. The item comes from \<open>operator new\<close>, then the remove lock
  is taken; an item that was given up is deleted (\<open>PoolItems\<close> counts live items). A write
  copies its data into a buffer of its own. The two error exits after the remove lock are
  written as the code has them: the first neither deletes the item nor releases the lock, the
  second deletes the item only.
\<close>

definition lazy_insert :: "WRITE_QUEUE_ITEM \<Rightarrow> irp \<Rightarrow> 'd world \<Rightarrow> NTSTATUS \<times> 'd world" where
  "lazy_insert it i w =
     (let w1 = insert_item it (sizeof_item + ucast (it_Length it)) w;
          w2 = set_queue_event w1;
          i1 = i\<lparr>ir_Status := STATUS_SUCCESS\<rparr>;
          i2 = (if ir_MajorFunction i = IRP_MJ_WRITE
                then i1\<lparr>ir_Information := ucast (ir_Length i)\<rparr> else i1)
      in (STATUS_SUCCESS, IoCompleteRequest i2 w2))"

definition QCacheQueueLazyWriteIrp ::
  "env \<Rightarrow> irp \<Rightarrow> 'd world \<Rightarrow> (NTSTATUS \<times> 'd world) option" where
  "QCacheQueueLazyWriteIrp e i0 w0 =
     (let i = i0\<lparr>ir_Information := 0\<rparr> in
      if \<not> item_alloc e then Some (complete_with STATUS_INSUFFICIENT_RESOURCES i w0)
      else
        let w1 = w0\<lparr>PoolItems := Suc (PoolItems w0)\<rparr>; (status, w2) = IoAcquireRemoveLock e w1 in
        if \<not> NT_SUCCESS status
        then Some (case complete_with status i w2 of (st, w3) \<Rightarrow>
                     (st, w3\<lparr>PoolItems := PoolItems w3 - 1\<rparr>))
        else if ir_MajorFunction i = IRP_MJ_WRITE
        then if \<not> mdl_mapped e
             then Some (complete_with STATUS_INSUFFICIENT_RESOURCES i w2)
             else if \<not> buffer_alloc e
             then Some (complete_with STATUS_INSUFFICIENT_RESOURCES i
                          (w2\<lparr>PoolItems := PoolItems w2 - 1\<rparr>))
             else do {
               buf \<leftarrow> RtlCopyMemory (replicate (unat (ir_Length i)) 0) 0 (ir_Buffer i) 0
                        (unat (ir_Length i));
               Some (lazy_insert
                 (new_item\<lparr>it_MajorFunction := ir_MajorFunction i, it_Offset := ir_ByteOffset i,
                           it_Length := ir_Length i, it_Buffer := Some buf\<rparr>) i w2)
             }
        else Some (lazy_insert (new_item\<lparr>it_MajorFunction := ir_MajorFunction i\<rparr>) i w2))"

subsection \<open>Admission\<close>

definition queue_irp :: "env \<Rightarrow> irp \<Rightarrow> 'd world \<Rightarrow> NTSTATUS \<times> 'd world" where
  "queue_irp e i0 w0 =
     (let i = i0\<lparr>ir_Information := 0\<rparr> in
      if \<not> item_alloc e then complete_with STATUS_INSUFFICIENT_RESOURCES i w0
      else
        let w1 = w0\<lparr>PoolItems := Suc (PoolItems w0)\<rparr>; (status, w2) = IoAcquireRemoveLock e w1 in
        if \<not> NT_SUCCESS status
        then (case complete_with status i w2 of (st, w3) \<Rightarrow> (st, w3\<lparr>PoolItems := PoolItems w3 - 1\<rparr>))
        else
          let it = new_item\<lparr>it_MajorFunction := ir_MajorFunction i, it_Irp := Some i\<rparr>;
              w3 = insert_item it sizeof_item w2
          in (STATUS_PENDING, set_queue_event w3))"

text \<open>\<open>KeReadStateEvent\<close> on a condition object that may be missing.\<close>

definition condition_good :: "bool option \<Rightarrow> bool" where
  "condition_good c = (case c of None \<Rightarrow> True | Some b \<Rightarrow> b)"

definition admits :: "env \<Rightarrow> DEVICE_STATISTICS \<Rightarrow> bool" where
  "admits e s \<longleftrightarrow> condition_good (HighNonPagedPoolCondition e) \<and>
     condition_good (HighMemoryCondition e) \<and>
     WriteQueueSize s <s MaxQueueSize s \<and> WriteQueueItems s <s MaxQueueItems s"

definition QCacheQueueIrp :: "env \<Rightarrow> irp \<Rightarrow> 'd world \<Rightarrow> (NTSTATUS \<times> 'd world) option" where
  "QCacheQueueIrp e i w =
     (if IsCached (stats w) \<and>
         (ir_MajorFunction i = IRP_MJ_WRITE \<or> ir_MajorFunction i = IRP_MJ_FLUSH_BUFFERS)
      then if admits e (stats w)
           then do {
             w1 \<leftarrow> KeSetLowMem False w;
             QCacheQueueLazyWriteIrp e i w1
           }
           else do {
             w1 \<leftarrow> KeSetLowMem True (upd_stats (\<lambda>s. s\<lparr>LowMemQueued := LowMemQueued s + 1\<rparr>) w);
             Some (queue_irp e i w1)
           }
      else Some (queue_irp e i w))"

subsection \<open>Dispatching the head of the queue\<close>

text \<open>
  \<open>RemoveEntryList\<close> unlinks the item itself. The worker always dispatches the head and only
  the worker removes items, so removing the first equal item removes the head.
\<close>

definition RemoveEntryList :: "WRITE_QUEUE_ITEM \<Rightarrow> WRITE_QUEUE_ITEM list \<Rightarrow> WRITE_QUEUE_ITEM list" where
  "RemoveEntryList it q = remove1 it q"

definition control_marker :: "irp \<Rightarrow> bool" where
  "control_marker i \<longleftrightarrow>
     (ir_MajorFunction i = IRP_MJ_DEVICE_CONTROL \<or>
      ir_MajorFunction i = IRP_MJ_INTERNAL_DEVICE_CONTROL \<or>
      ir_MajorFunction i = IRP_MJ_FILE_SYSTEM_CONTROL) \<and>
     (ir_IoControlCode i = IOCTL_QCACHE_OFF \<or> ir_IoControlCode i = IOCTL_QCACHE_FLUSH)"

text \<open>
  The first half: the lower request (built, or the original request forwarded), awaited. A
  request that could not be built is the only failure the code looks at: \<open>None\<close>. The original
  request of the item comes back as the second component.
\<close>

definition lazy_request :: "WRITE_QUEUE_ITEM \<Rightarrow> built_irp" where
  "lazy_request it =
     \<lparr>bi_MajorFunction = it_MajorFunction it, bi_Buffer = it_Buffer it, bi_Length = it_Length it,
      bi_StartingOffset = it_Offset it,
      bi_AddedFlags = (if it_MajorFunction it = IRP_MJ_WRITE
                       then IRP_WRITE_OPERATION OR IRP_NOCACHE else 0),
      bi_AddedStackFlags = (if it_MajorFunction it = IRP_MJ_WRITE then SL_WRITE_THROUGH else 0)\<rparr>"

definition dispatch_lower ::
  "'d lower_driver \<Rightarrow> bool \<Rightarrow> WRITE_QUEUE_ITEM \<Rightarrow> 'd \<Rightarrow> (irp option \<times> 'd) option" where
  "dispatch_lower L built it d =
     (case it_Irp it of
        Some i \<Rightarrow>
          if control_marker i
          then Some (Some (i\<lparr>ir_Information := 0, ir_Status := STATUS_SUCCESS\<rparr>), d)
          else (case lw_forward L i d of (_, i', d') \<Rightarrow> Some (Some i', d'))
      | None \<Rightarrow>
          if \<not> built then None
          else (case lw_built L (lazy_request it) d of (_, d') \<Rightarrow> Some (None, d')))"

text \<open>The second half: complete the original request, uncharge and unlink the item, free it.\<close>

definition dispatch_finish :: "WRITE_QUEUE_ITEM \<Rightarrow> 'd world \<Rightarrow> 'd world" where
  "dispatch_finish it w =
     (let w1 = upd_stats (\<lambda>s. s\<lparr>WriteQueueSize :=
                    WriteQueueSize s - (sizeof_item + ucast (it_Length it))\<rparr>) w;
          w2 = upd_stats (\<lambda>s. s\<lparr>WriteQueueItems := WriteQueueItems s - 1\<rparr>) w1;
          w3 = w2\<lparr>ext := (ext w2)\<lparr>WriteQueue := RemoveEntryList it (queue w2)\<rparr>\<rparr>;
          w4 = IoReleaseRemoveLock w3
      in w4\<lparr>PoolItems := PoolItems w4 - 1\<rparr>)"

text \<open>The whole routine when the lower request, if there is one, is completed.\<close>

definition dispatch_item ::
  "'d lower_driver \<Rightarrow> bool \<Rightarrow> WRITE_QUEUE_ITEM \<Rightarrow> 'd world \<Rightarrow> 'd world" where
  "dispatch_item L built it w =
     (case dispatch_lower L built it (lower w) of
        None \<Rightarrow> upd_stats (\<lambda>s. s\<lparr>LastErrorCode := STATUS_INSUFFICIENT_RESOURCES\<rparr>) w
      | Some (io, d) \<Rightarrow>
          let w1 = w\<lparr>lower := d\<rparr>;
              w2 = (case io of None \<Rightarrow> w1 | Some i \<Rightarrow> IoCompleteRequest i w1)
          in dispatch_finish it w2)"

text \<open>
  \<open>KeWaitForSingleObject\<close> has no timeout: when the lower device never completes the request it
  was sent, the routine does not return (\<open>None\<close>). A control marker and a request that could not
  be built send nothing.
\<close>

definition dispatch_waits :: "'d lower_driver \<Rightarrow> bool \<Rightarrow> WRITE_QUEUE_ITEM \<Rightarrow> 'd \<Rightarrow> bool" where
  "dispatch_waits L built it d \<longleftrightarrow> \<not> lw_completes L d \<and>
     (case it_Irp it of None \<Rightarrow> built | Some i \<Rightarrow> \<not> control_marker i)"

definition QCacheDispatchQueuedItem ::
  "'d lower_driver \<Rightarrow> bool \<Rightarrow> WRITE_QUEUE_ITEM \<Rightarrow> 'd world \<Rightarrow> 'd world option" where
  "QCacheDispatchQueuedItem L built it w =
     (if dispatch_waits L built it (lower w) then None else Some (dispatch_item L built it w))"

lemma dispatch_returns:
  "lw_completes L (lower w) \<Longrightarrow> QCacheDispatchQueuedItem L built it w = Some (dispatch_item L built it w)"
  by (simp add: QCacheDispatchQueuedItem_def dispatch_waits_def)

subsection \<open>What the paths do\<close>

lemma upd_stats_compose: "upd_stats f (upd_stats g w) = upd_stats (\<lambda>s. f (g s)) w"
  by (simp add: upd_stats_def)

lemma raise_size_top:
  "(if WriteQueueSizeTop s <s WriteQueueSize s then s\<lparr>WriteQueueSizeTop := WriteQueueSize s\<rparr> else s)
   = s\<lparr>WriteQueueSizeTop := ll_max (WriteQueueSizeTop s) (WriteQueueSize s)\<rparr>"
  by (simp add: ll_max_alt)

lemma raise_items_top:
  "(if WriteQueueItemsTop s <s WriteQueueItems s then s\<lparr>WriteQueueItemsTop := WriteQueueItems s\<rparr> else s)
   = s\<lparr>WriteQueueItemsTop := ll_max (WriteQueueItemsTop s) (WriteQueueItems s)\<rparr>"
  by (simp add: ll_max_alt)

lemma insert_item_eq:
  "insert_item it c w =
     w\<lparr>ext := (ext w)\<lparr>WriteQueue := queue w @ [it],
        Statistics := (stats w)\<lparr>WriteQueueSize := WriteQueueSize (stats w) + c,
          WriteQueueItems := WriteQueueItems (stats w) + 1,
          WriteQueueSizeTop := ll_max (WriteQueueSizeTop (stats w)) (WriteQueueSize (stats w) + c),
          WriteQueueItemsTop := ll_max (WriteQueueItemsTop (stats w)) (WriteQueueItems (stats w) + 1)
        \<rparr>\<rparr>\<rparr>"
  unfolding insert_item_def Let_def upd_stats_compose raise_size_top raise_items_top
  by (simp add: upd_stats_def)

lemma dispatch_finish_eq:
  "dispatch_finish it w =
     w\<lparr>ext := (ext w)\<lparr>WriteQueue := remove1 it (queue w), RemoveLock := RemoveLock (ext w) - 1,
        Statistics := (stats w)\<lparr>WriteQueueSize :=
            WriteQueueSize (stats w) - (sizeof_item + ucast (it_Length it)),
          WriteQueueItems := WriteQueueItems (stats w) - 1\<rparr>\<rparr>,
        PoolItems := PoolItems w - 1\<rparr>"
  by (simp add: dispatch_finish_def qc_simps RemoveEntryList_def)

lemma copy_all: "length src = n \<Longrightarrow> RtlCopyMemory (replicate n 0) 0 src 0 n = Some src"
  by (simp add: RtlCopyMemory_def)

text \<open>The item the lazy path makes of a request.\<close>

definition lazy_item :: "irp \<Rightarrow> WRITE_QUEUE_ITEM" where
  "lazy_item i =
     (if ir_MajorFunction i = IRP_MJ_WRITE
      then new_item\<lparr>it_MajorFunction := IRP_MJ_WRITE, it_Offset := ir_ByteOffset i,
                    it_Length := ir_Length i, it_Buffer := Some (ir_Buffer i)\<rparr>
      else new_item\<lparr>it_MajorFunction := ir_MajorFunction i\<rparr>)"

text \<open>The request as the lazy path completes it.\<close>

definition lazy_completion :: "irp \<Rightarrow> irp" where
  "lazy_completion i =
     i\<lparr>ir_Status := STATUS_SUCCESS,
       ir_Information := (if ir_MajorFunction i = IRP_MJ_WRITE then ucast (ir_Length i) else 0)\<rparr>"

definition lazy_resources :: "env \<Rightarrow> irp \<Rightarrow> bool" where
  "lazy_resources e i \<longleftrightarrow> item_alloc e \<and> NT_SUCCESS (acquire_status e) \<and>
     (ir_MajorFunction i = IRP_MJ_WRITE \<longrightarrow> mdl_mapped e \<and> buffer_alloc e)"

text \<open>The state after a request was accepted lazily.\<close>

definition accepted :: "irp \<Rightarrow> 'd world \<Rightarrow> 'd world" where
  "accepted i w =
     (let w1 = w\<lparr>PoolItems := Suc (PoolItems w),
                 ext := (ext w)\<lparr>RemoveLock := Suc (RemoveLock (ext w))\<rparr>\<rparr>
      in IoCompleteRequest (lazy_completion i)
           (set_queue_event
             (insert_item (lazy_item i) (sizeof_item + ucast (it_Length (lazy_item i))) w1)))"

lemma lazy_write_accepts:
  assumes "lazy_resources e i" "wf_transfer i"
  shows "QCacheQueueLazyWriteIrp e i w = Some (STATUS_SUCCESS, accepted i w)"
  using assms
  by (auto simp: QCacheQueueLazyWriteIrp_def lazy_resources_def lazy_insert_def accepted_def
      lazy_item_def lazy_completion_def wf_transfer_def copy_all Let_def IoAcquireRemoveLock_def
      IoCompleteRequest_def)

text \<open>Every other path of the lazy admission completes the request with an error.\<close>

lemma lazy_write_rejects:
  assumes "\<not> lazy_resources e i"
  shows "\<exists>st w'. QCacheQueueLazyWriteIrp e i w = Some (st, w') \<and>
      st = (if item_alloc e \<and> \<not> NT_SUCCESS (acquire_status e) then acquire_status e
            else STATUS_INSUFFICIENT_RESOURCES) \<and>
      queue w' = queue w \<and> stats w' = stats w \<and>
      Completed w' = Completed w @ [i\<lparr>ir_Status := st, ir_Information := 0\<rparr>]"
  using assms
  by (auto simp: QCacheQueueLazyWriteIrp_def lazy_resources_def qc_simps Let_def)

end
