(* ===== verification/QC_QueueInv.thy ===== *)
theory QC_QueueInv
  imports QC_Queue
begin

section \<open>Accounting, ownership and locks of the write queue\<close>

text \<open>
  The invariant that relates the statistics of the device to its queue (exact in 64-bit
  arithmetic, so it holds even where a counter wraps round), the shape of the two kinds of
  items, and how many remove-lock acquisitions (one for every queued item and every split read)
  and live items the device accounts for. Then who
  owns a request, and the interface every request handler of the driver satisfies.
\<close>

subsection \<open>Invariant\<close>

definition item_cost :: "WRITE_QUEUE_ITEM \<Rightarrow> LONGLONG" where
  "item_cost it = sizeof_item + ucast (it_Length it)"

text \<open>The end of a transfer, as the code computes it, did not wrap round.\<close>

definition wf_extent :: "LONGLONG \<Rightarrow> ULONG \<Rightarrow> bool" where
  "wf_extent off n \<longleftrightarrow> 0 \<le> sint (off + ucast n)"

definition wf_item :: "WRITE_QUEUE_ITEM \<Rightarrow> bool" where
  "wf_item it \<longleftrightarrow>
     (case it_Irp it of
        Some i \<Rightarrow> it_Length it = 0 \<and> it_Offset it = 0 \<and> it_Buffer it = None \<and>
                  it_MajorFunction it = ir_MajorFunction i
      | None \<Rightarrow>
          if it_MajorFunction it = IRP_MJ_WRITE
          then wf_extent (it_Offset it) (it_Length it) \<and>
               (case it_Buffer it of None \<Rightarrow> False | Some b \<Rightarrow> length b = unat (it_Length it))
          else it_Length it = 0 \<and> it_Offset it = 0)"

definition queue_inv :: "'d world \<Rightarrow> bool" where
  "queue_inv w \<longleftrightarrow>
     WriteQueueItems (stats w) = of_nat (length (queue w)) \<and>
     WriteQueueSize (stats w) = sum_list (map item_cost (queue w)) \<and>
     list_all wf_item (queue w) \<and>
     length (queue w) + length (Scatters w) \<le> RemoveLock (ext w) \<and>
     length (queue w) \<le> PoolItems w"

text \<open>A write the dispatch routine may queue: its buffer has its length, its end is exact.\<close>

definition valid_write :: "irp \<Rightarrow> bool" where
  "valid_write i \<longleftrightarrow>
     (ir_MajorFunction i = IRP_MJ_WRITE \<longrightarrow>
        wf_transfer i \<and> wf_extent (ir_ByteOffset i) (ir_Length i))"

text \<open>Parts of the world the invariant does not look at.\<close>

lemma queue_inv_frame [simp]:
  "queue_inv (w\<lparr>Completed := c\<rparr>) = queue_inv w"
  "queue_inv (w\<lparr>SentDown := c\<rparr>) = queue_inv w"
  "queue_inv (w\<lparr>LowMemCondition := b\<rparr>) = queue_inv w"
  "queue_inv (w\<lparr>lower := d\<rparr>) = queue_inv w"
  "queue_inv (set_queue_event w) = queue_inv w"
  "queue_inv (IoCompleteRequest i w) = queue_inv w"
  by (simp_all add: queue_inv_def qc_simps)

lemma wf_lazy_item: "valid_write i \<Longrightarrow> wf_item (lazy_item i)"
  by (auto simp: wf_item_def lazy_item_def valid_write_def wf_transfer_def new_item_def)

lemma wf_irp_item: "wf_item (new_item\<lparr>it_MajorFunction := ir_MajorFunction i, it_Irp := Some i\<rparr>)"
  by (simp add: wf_item_def new_item_def)

lemma queue_inv_insert:
  assumes "queue_inv w" "wf_item it" "cost = item_cost it"
  shows "queue_inv (insert_item it cost
           (w\<lparr>PoolItems := Suc (PoolItems w), ext := (ext w)\<lparr>RemoveLock := Suc (RemoveLock (ext w))\<rparr>\<rparr>))"
  using assms by (simp add: queue_inv_def insert_item_eq)

lemma queue_inv_accepted: "queue_inv w \<Longrightarrow> valid_write i \<Longrightarrow> queue_inv (accepted i w)"
  unfolding accepted_def Let_def
  by (simp add: queue_inv_insert wf_lazy_item item_cost_def)

lemma queue_inv_lazy:
  assumes "queue_inv w" "valid_write i" "QCacheQueueLazyWriteIrp e i w = Some (st, w')"
  shows "queue_inv w'"
proof (cases "lazy_resources e i \<and> (ir_MajorFunction i = IRP_MJ_WRITE \<longrightarrow> wf_transfer i)")
  case True
  then have "w' = accepted i w"
    using assms lazy_write_accepts [of e i w]
    by (cases "ir_MajorFunction i = IRP_MJ_WRITE")
      (auto simp: QCacheQueueLazyWriteIrp_def lazy_resources_def lazy_insert_def accepted_def
        lazy_item_def lazy_completion_def Let_def IoAcquireRemoveLock_def IoCompleteRequest_def)
  with assms show ?thesis by (simp add: queue_inv_accepted)
next
  case False
  then show ?thesis
    using assms
    by (auto simp: QCacheQueueLazyWriteIrp_def lazy_resources_def queue_inv_def qc_simps Let_def
        valid_write_def split: if_splits)
qed

lemma queue_inv_queue_irp:
  assumes "queue_inv w" "queue_irp e i w = (st, w')"
  shows "queue_inv w'"
proof (cases "item_alloc e \<and> NT_SUCCESS (acquire_status e)")
  case True
  have "item_cost (new_item\<lparr>it_MajorFunction := ir_MajorFunction i,
          it_Irp := Some (i\<lparr>ir_Information := 0\<rparr>)\<rparr>) = sizeof_item"
    by (simp add: item_cost_def new_item_def)
  with True show ?thesis
    using assms wf_irp_item [of "i\<lparr>ir_Information := 0\<rparr>"]
    by (auto simp: queue_irp_def Let_def IoAcquireRemoveLock_def queue_inv_insert)
next
  case False
  then show ?thesis
    using assms by (auto simp: queue_irp_def Let_def qc_simps queue_inv_def split: if_splits)
qed

lemma queue_inv_low_mem: "KeSetLowMem b w = Some w' \<Longrightarrow> queue_inv w' = queue_inv w"
  by (auto simp: KeSetLowMem_def split: option.splits)

lemma queue_inv_upd_low_mem [simp]:
  "queue_inv (upd_stats (\<lambda>s. s\<lparr>LowMemQueued := x s\<rparr>) w) = queue_inv w"
  by (simp add: queue_inv_def upd_stats_def)

lemma queue_inv_admission:
  assumes "queue_inv w" "valid_write i" "QCacheQueueIrp e i w = Some (st, w')"
  shows "queue_inv w'"
proof -
  have lazy: "queue_inv w1 \<longrightarrow> queue_inv w2" if "QCacheQueueLazyWriteIrp e i w1 = Some (s, w2)"
    for s and w1 w2 :: "'a world"
    using that assms(2) by (blast intro: queue_inv_lazy)
  have direct: "queue_inv w1 \<longrightarrow> queue_inv w2" if "queue_irp e i w1 = (s, w2)"
    for s and w1 w2 :: "'a world"
    using that by (blast intro: queue_inv_queue_irp)
  show ?thesis
    using assms(1,3)
    by (auto simp: QCacheQueueIrp_def bind_eq_Some_conv split: if_splits
        dest!: lazy direct queue_inv_low_mem)
qed

subsection \<open>Dispatch keeps the invariant\<close>

lemma queue_inv_finish:
  assumes "queue_inv w" "queue w = it # q"
  shows "queue_inv (dispatch_finish it w)"
  using assms by (auto simp: queue_inv_def dispatch_finish_eq item_cost_def)

lemma queue_inv_dispatch:
  assumes "queue_inv w" "queue w = it # q"
  shows "queue_inv (dispatch_item L built it w)"
proof (cases "dispatch_lower L built it (lower w)")
  case None
  with assms show ?thesis
    by (simp add: dispatch_item_def upd_stats_def queue_inv_def)
next
  case (Some r)
  then obtain io d where r: "r = (io, d)" by (cases r)
  have "queue_inv (dispatch_finish it w2)"
    if "w2 = (case io of None \<Rightarrow> w\<lparr>lower := d\<rparr> | Some i \<Rightarrow> IoCompleteRequest i (w\<lparr>lower := d\<rparr>))" for w2
    using that assms
    by (intro queue_inv_finish [where q = q]) (auto simp: IoCompleteRequest_def split: option.splits)
  with Some r show ?thesis by (simp add: dispatch_item_def Let_def)
qed

subsection \<open>Ownership of requests\<close>

lemma owned_insert [simp]:
  "owned (insert_item it c w) =
     (case it_Irp it of None \<Rightarrow> owned w | Some i \<Rightarrow> add_mset (ir_id i) (owned w))"
  by (simp add: owned_def insert_item_eq split: option.splits)

lemma owned_frame [simp]:
  "owned (set_queue_event w) = owned w"
  "owned (w\<lparr>PoolItems := n\<rparr>) = owned w"
  "owned (upd_stats f w) = owned w"
  "owned (w\<lparr>ext := (ext w)\<lparr>RemoveLock := m\<rparr>\<rparr>) = owned w"
  by (simp_all add: owned_def qc_simps)

lemma owned_acquire: "IoAcquireRemoveLock e w = (st, w') \<Longrightarrow> owned w' = owned w"
  by (auto simp: IoAcquireRemoveLock_def split: if_splits)

lemma owned_low_mem: "KeSetLowMem b w = Some w' \<Longrightarrow> owned w' = owned w"
  by (auto simp: KeSetLowMem_def owned_def split: option.splits)

lemma owned_queue_irp: "queue_irp e i w = (st, w') \<Longrightarrow> owned w' = add_mset (ir_id i) (owned w)"
  by (auto simp: queue_irp_def Let_def complete_with_def new_item_def dest: owned_acquire
      split: if_splits prod.splits)

lemma owned_lazy:
  "QCacheQueueLazyWriteIrp e i w = Some (st, w') \<Longrightarrow> owned w' = add_mset (ir_id i) (owned w)"
  by (auto simp: QCacheQueueLazyWriteIrp_def Let_def complete_with_def lazy_insert_def
      new_item_def bind_eq_Some_conv dest: owned_acquire split: if_splits prod.splits)

lemma owned_admission:
  "QCacheQueueIrp e i w = Some (st, w') \<Longrightarrow> owned w' = add_mset (ir_id i) (owned w)"
  by (auto simp: QCacheQueueIrp_def bind_eq_Some_conv dest!: owned_low_mem owned_lazy owned_queue_irp
      split: if_splits)

text \<open>
  A forwarded request keeps its identity: the pointer the driver completes afterwards is the
  one it forwarded.
\<close>

definition same_irp :: "'d lower_driver \<Rightarrow> bool" where
  "same_irp L \<longleftrightarrow> (\<forall>i d. ir_id (fst (snd (lw_forward L i d))) = ir_id i)"

lemma owned_dispatch:
  assumes "same_irp L" "queue w = it # q"
  shows "owned (dispatch_item L built it w) = owned w"
proof -
  have "ir_id i' = ir_id i" if "lw_forward L i d = (s, i', d')" for i d s i' d'
    using assms(1) that unfolding same_irp_def by (metis fst_conv snd_conv)
  then show ?thesis
    using assms(2)
    by (auto simp: dispatch_item_def dispatch_lower_def dispatch_finish_eq owned_def
        qc_simps Let_def split: option.splits prod.splits if_splits)
qed

end
