(* ===== verification/QC_Thread.thy ===== *)
theory QC_Thread
  imports QC_QueueInv
begin

section \<open>The device worker thread\<close>

text \<open>
  \<open>src/qcache/thread.cpp\<close>: one iteration of the worker's loop, the loop itself with fuel, and
  when it drains the queue. An iteration reads the head of the queue; with an empty queue it
  stops when a shutdown was requested, otherwise it makes sure the symbolic link of the event
  exists and waits on the (auto-reset) queue event; with an item it dispatches it, which hangs
  when the lower device never completes the request of the item.
\<close>

datatype iteration = Exit | Wait | Dispatched | Hung

definition create_links :: "NTSTATUS \<Rightarrow> 'd world \<Rightarrow> 'd world" where
  "create_links status w =
     (if \<not> LinksCreated w \<and> (NT_SUCCESS status \<or> status = STATUS_OBJECT_NAME_COLLISION)
      then w\<lparr>LinksCreated := True\<rparr> else w)"

definition worker_iteration ::
  "'d lower_driver \<Rightarrow> bool \<Rightarrow> NTSTATUS \<Rightarrow> 'd world \<Rightarrow> iteration \<times> 'd world" where
  "worker_iteration L built link_status w =
     (case queue w of
        [] \<Rightarrow> if ShutdownThread (ext w) then (Exit, w) else (Wait, create_links link_status w)
      | it # _ \<Rightarrow> (case QCacheDispatchQueuedItem L built it w of
                    None \<Rightarrow> (Hung, w) | Some w' \<Rightarrow> (Dispatched, w')))"

text \<open>
  The loop. \<open>builds n\<close> says whether building the lower request succeeds when \<open>n\<close> units of
  fuel are left. A wait with the event not signalled ends the run as \<open>Blocked\<close>: the thread
  sleeps until somebody signals the event. \<open>Hanging\<close>: it waits for a lower request that is never
  completed.
\<close>

datatype worker_result = Exited | Blocked | Hanging | OutOfFuel

definition consume_event :: "'d world \<Rightarrow> 'd world" where
  "consume_event w = w\<lparr>ext := (ext w)\<lparr>WriteQueueEvent := False\<rparr>\<rparr>"

fun QCacheDeviceWorkerThread ::
  "nat \<Rightarrow> 'd lower_driver \<Rightarrow> (nat \<Rightarrow> bool) \<Rightarrow> NTSTATUS \<Rightarrow> 'd world \<Rightarrow> worker_result \<times> 'd world" where
  "QCacheDeviceWorkerThread 0 L builds ls w = (OutOfFuel, w)"
| "QCacheDeviceWorkerThread (Suc n) L builds ls w =
     (case worker_iteration L (builds n) ls w of
        (Exit, w') \<Rightarrow> (Exited, w')
      | (Wait, w') \<Rightarrow>
          if WriteQueueEvent (ext w')
          then QCacheDeviceWorkerThread n L builds ls (consume_event w')
          else (Blocked, w')
      | (Dispatched, w') \<Rightarrow> QCacheDeviceWorkerThread n L builds ls w'
      | (Hung, w') \<Rightarrow> (Hanging, w'))"

lemma dispatch_removes_head:
  assumes "queue w = it # q" "built \<or> it_Irp it \<noteq> None"
  shows "queue (dispatch_item L built it w) = q"
  using assms
  by (auto simp: dispatch_item_def dispatch_lower_def dispatch_finish_eq
      IoCompleteRequest_def Let_def split: option.splits prod.splits)

lemma dispatch_frame [simp]:
  "ShutdownThread (ext (dispatch_item L built it w)) = ShutdownThread (ext w)"
  "WriteQueueEvent (ext (dispatch_item L built it w)) = WriteQueueEvent (ext w)"
  "IsCached (stats (dispatch_item L built it w)) = IsCached (stats w)"
  "Size (stats (dispatch_item L built it w)) = Size (stats w)"
  "Scatters (dispatch_item L built it w) = Scatters w"
  by (auto simp: dispatch_item_def dispatch_finish_eq qc_simps Let_def
      split: option.splits)

text \<open>A lazy item whose lower request cannot be built stays where it is.\<close>

lemma dispatch_build_failure:
  assumes "it_Irp it = None"
  shows "dispatch_item L False it w =
           upd_stats (\<lambda>s. s\<lparr>LastErrorCode := STATUS_INSUFFICIENT_RESOURCES\<rparr>) w"
  using assms by (simp add: dispatch_item_def dispatch_lower_def)

lemma create_links_frame [simp]:
  "ext (create_links ls w) = ext w" "lower (create_links ls w) = lower w"
  "Completed (create_links ls w) = Completed w" "SentDown (create_links ls w) = SentDown w"
  "Scatters (create_links ls w) = Scatters w" "PoolItems (create_links ls w) = PoolItems w"
  by (simp_all add: create_links_def)

lemma consume_event_frame [simp]:
  "queue (consume_event w) = queue w" "stats (consume_event w) = stats w"
  "RemoveLock (ext (consume_event w)) = RemoveLock (ext w)"
  "ShutdownThread (ext (consume_event w)) = ShutdownThread (ext w)"
  "\<not> WriteQueueEvent (ext (consume_event w))" "lower (consume_event w) = lower w"
  "Completed (consume_event w) = Completed w" "SentDown (consume_event w) = SentDown w"
  "Scatters (consume_event w) = Scatters w" "PoolItems (consume_event w) = PoolItems w"
  by (simp_all add: consume_event_def)

lemma wait_frame [simp]:
  "queue_inv (consume_event w) = queue_inv w" "queue_inv (create_links ls w) = queue_inv w"
  "owned (consume_event w) = owned w" "owned (create_links ls w) = owned w"
  by (simp_all add: queue_inv_def owned_def)

text \<open>The loop keeps the accounting invariant and loses no request.\<close>

lemma worker_queue_inv:
  "queue_inv w \<Longrightarrow> queue_inv (snd (QCacheDeviceWorkerThread n L builds ls w))"
proof (induction n arbitrary: w)
  case 0
  then show ?case by simp
next
  case (Suc n)
  then show ?case
    by (auto simp: worker_iteration_def QCacheDispatchQueuedItem_def queue_inv_dispatch split: list.splits)
qed

lemma worker_owned:
  "same_irp L \<Longrightarrow> owned (snd (QCacheDeviceWorkerThread n L builds ls w)) = owned w"
proof (induction n arbitrary: w)
  case 0
  then show ?case by simp
next
  case (Suc n)
  then show ?case
    by (auto simp: worker_iteration_def QCacheDispatchQueuedItem_def owned_dispatch split: list.splits)
qed

subsection \<open>Draining\<close>


text \<open>
  A lower device that does not complete the request of the head stops the worker for good: with
  any number of iterations it never comes to an end or to a sleep, and the queue stays as it is.
\<close>

lemma worker_hangs:
  assumes "queue w = it # q" "\<forall>k. builds k" "dispatch_waits L True it (lower w)"
  shows "QCacheDeviceWorkerThread n L builds ls w = (if n = 0 then OutOfFuel else Hanging, w)"
  using assms by (cases n) (simp_all add: worker_iteration_def QCacheDispatchQueuedItem_def)

text \<open>
  While the lower request of a lazy item at the head cannot be built, the loop of the
  worker repeats without end and without progress: with any number of iterations it is still
  running, and queue, lower device and completed requests are the same.
\<close>

theorem worker_spins:
  assumes "queue w = it # q" "it_Irp it = None"
  shows "\<exists>w'. QCacheDeviceWorkerThread n L (\<lambda>_. False) ls w = (OutOfFuel, w') \<and>
           queue w' = queue w \<and> lower w' = lower w \<and> Completed w' = Completed w"
  using assms(1)
proof (induction n arbitrary: w)
  case 0
  then show ?case by simp
next
  case (Suc n)
  let ?w = "upd_stats (\<lambda>s. s\<lparr>LastErrorCode := STATUS_INSUFFICIENT_RESOURCES\<rparr>) w"
  have "queue ?w = it # q" using Suc.prems by (simp add: upd_stats_def)
  then obtain w' where w': "QCacheDeviceWorkerThread n L (\<lambda>_. False) ls ?w = (OutOfFuel, w')"
    "queue w' = queue ?w" "lower w' = lower ?w" "Completed w' = Completed ?w"
    using Suc.IH by blast
  then show ?case
    using Suc.prems assms(2)
    by (simp add: worker_iteration_def QCacheDispatchQueuedItem_def dispatch_waits_def
        dispatch_build_failure upd_stats_def)
qed

end
