(* ===== verification/QC_View.thy ===== *)
theory QC_View
  imports QC_Thread
begin

section \<open>The logical contents of a cached device\<close>

text \<open>
  The contract of the cache: the contents a client sees are the contents of the lower device
  overlaid with the queued lazy writes in queue order. Accepting a write changes the logical
  contents as a write to the device would, and the worker draining the queue does not change
  them at all, provided the lower writes succeed. The contents of the lower device are read
  through a parameter \<open>C\<close>; \<open>writes_through\<close> is the documented behaviour of a lower write.

  The interface is the locale \<open>write_back\<close>: a store with pending writes over a backing
  store. Its consequences (any interleaving of writes and drains, full drain) are proved once
  and read off for the driver's own operations.
\<close>

subsection \<open>Overlay\<close>

type_synonym contents = "int \<Rightarrow> byte"

definition write_bytes :: "LONGLONG \<Rightarrow> byte list \<Rightarrow> contents \<Rightarrow> contents" where
  "write_bytes off b c = (\<lambda>p. if sint off \<le> p \<and> p < sint off + int (length b)
                              then b ! nat (p - sint off) else c p)"

definition apply_item :: "WRITE_QUEUE_ITEM \<Rightarrow> contents \<Rightarrow> contents" where
  "apply_item it c =
     (if it_Irp it = None \<and> it_MajorFunction it = IRP_MJ_WRITE
      then (case it_Buffer it of None \<Rightarrow> c | Some b \<Rightarrow> write_bytes (it_Offset it) b c)
      else c)"

definition overlay :: "WRITE_QUEUE_ITEM list \<Rightarrow> contents \<Rightarrow> contents" where
  "overlay q c = fold apply_item q c"

definition view :: "('d \<Rightarrow> contents) \<Rightarrow> 'd world \<Rightarrow> contents" where
  "view C w = overlay (queue w) (C (lower w))"

lemma overlay_simps [simp]:
  "overlay [] c = c"
  "overlay (it # q) c = overlay q (apply_item it c)"
  "overlay (q @ q') c = overlay q' (overlay q c)"
  by (simp_all add: overlay_def)

text \<open>An item decides a byte or leaves it, whatever lies below.\<close>

lemma apply_item_idem: "apply_item it (apply_item it c) = apply_item it c"
  by (auto simp: apply_item_def write_bytes_def split: option.splits)

lemma apply_item_local: "c p = c' p \<Longrightarrow> apply_item it c p = apply_item it c' p"
  by (auto simp: apply_item_def write_bytes_def split: option.splits)

lemma overlay_local: "c p = c' p \<Longrightarrow> overlay q c p = overlay q c' p"
proof (induction q arbitrary: c c')
  case Nil
  then show ?case by simp
next
  case (Cons it q)
  have "apply_item it c p = apply_item it c' p" using Cons.prems by (rule apply_item_local)
  then have "overlay q (apply_item it c) p = overlay q (apply_item it c') p" by (rule Cons.IH)
  then show ?case by simp
qed

subsection \<open>The lower device\<close>

text \<open>
  A request built for a queue item: a successful write stores its bytes at its offset and
  nothing else changes; a flush does not change the contents.
\<close>

definition writes_through :: "'d lower_driver \<Rightarrow> ('d \<Rightarrow> contents) \<Rightarrow> bool" where
  "writes_through L C \<longleftrightarrow>
     (\<forall>r d. if bi_MajorFunction r = IRP_MJ_WRITE
            then NT_SUCCESS (fst (lw_built L r d)) \<longrightarrow>
                 C (snd (lw_built L r d)) =
                   (case bi_Buffer r of None \<Rightarrow> C d
                    | Some b \<Rightarrow> write_bytes (bi_StartingOffset r) b (C d))
            else C (snd (lw_built L r d)) = C d)"

definition lazy_succeeds :: "'d lower_driver \<Rightarrow> WRITE_QUEUE_ITEM \<Rightarrow> 'd \<Rightarrow> bool" where
  "lazy_succeeds L it d \<longleftrightarrow>
     it_Irp it = None \<and>
     (it_MajorFunction it = IRP_MJ_WRITE \<longrightarrow> NT_SUCCESS (fst (lw_built L (lazy_request it) d)))"

lemma lazy_request_sel [simp]:
  "bi_MajorFunction (lazy_request it) = it_MajorFunction it"
  "bi_Buffer (lazy_request it) = it_Buffer it" "bi_Length (lazy_request it) = it_Length it"
  "bi_StartingOffset (lazy_request it) = it_Offset it"
  by (simp_all add: lazy_request_def)

lemma lower_after_dispatch:
  assumes "writes_through L C" "lazy_succeeds L it d"
  shows "C (snd (lw_built L (lazy_request it) d)) = apply_item it (C d)"
proof -
  have "if it_MajorFunction it = IRP_MJ_WRITE
        then NT_SUCCESS (fst (lw_built L (lazy_request it) d)) \<longrightarrow>
             C (snd (lw_built L (lazy_request it) d)) =
               (case it_Buffer it of None \<Rightarrow> C d | Some b \<Rightarrow> write_bytes (it_Offset it) b (C d))
        else C (snd (lw_built L (lazy_request it) d)) = C d"
    using assms(1) unfolding writes_through_def
    by (metis lazy_request_sel(1,2,4))
  then show ?thesis
    using assms(2) by (auto simp: lazy_succeeds_def apply_item_def split: if_splits)
qed

subsection \<open>Writes and the worker, seen from the logical contents\<close>

lemma view_insert [simp]:
  "view C (insert_item it c w) = apply_item it (view C w)"
  by (simp add: view_def insert_item_eq)

lemma view_frame [simp]:
  "view C (set_queue_event w) = view C w" "view C (IoCompleteRequest i w) = view C w"
  "view C (upd_stats f w) = view C w" "view C (w\<lparr>PoolItems := n\<rparr>) = view C w"
  "view C (w\<lparr>ext := (ext w)\<lparr>RemoveLock := m\<rparr>\<rparr>) = view C w"
  "view C (w\<lparr>PoolItems := n, ext := (ext w)\<lparr>RemoveLock := m\<rparr>\<rparr>) = view C w"
  "view C (consume_event w) = view C w" "view C (create_links ls w) = view C w"
  by (simp_all add: view_def qc_simps)

lemma view_accepted_write:
  assumes "ir_MajorFunction i = IRP_MJ_WRITE"
  shows "view C (accepted i w) = write_bytes (ir_ByteOffset i) (ir_Buffer i) (view C w)"
  using assms by (simp add: accepted_def Let_def lazy_item_def apply_item_def new_item_def)

lemma view_accepted_flush:
  assumes "ir_MajorFunction i \<noteq> IRP_MJ_WRITE"
  shows "view C (accepted i w) = view C w"
  using assms by (simp add: accepted_def Let_def lazy_item_def apply_item_def new_item_def)

lemma view_dispatch:
  assumes "writes_through L C" "queue w = it # q" "lazy_succeeds L it (lower w)"
  shows "view C (dispatch_item L True it w) = view C w"
proof -
  have none: "it_Irp it = None" using assms(3) by (simp add: lazy_succeeds_def)
  obtain st d where r: "lw_built L (lazy_request it) (lower w) = (st, d)"
    by (cases "lw_built L (lazy_request it) (lower w)")
  have "C d = apply_item it (C (lower w))"
    using lower_after_dispatch [OF assms(1,3)] r by simp
  with none r assms(2) show ?thesis
    by (simp add: dispatch_item_def dispatch_lower_def dispatch_finish_eq Let_def view_def)
qed

text \<open>
  What the code does when the lower write fails: the item is gone, and with it its data.
\<close>

lemma dispatch_failed_write:
  assumes "queue w = it # q" "it_Irp it = None"
    and "C (snd (lw_built L (lazy_request it) (lower w))) = C (lower w)"
  shows "queue (dispatch_item L True it w) = q"
    and "view C (dispatch_item L True it w) = overlay q (C (lower w))"
    and "LastErrorCode (stats (dispatch_item L True it w)) = LastErrorCode (stats w)"
  using assms
  by (cases "lw_built L (lazy_request it) (lower w)";
      simp add: dispatch_item_def dispatch_lower_def dispatch_finish_eq Let_def view_def)+

subsection \<open>A store with pending writes\<close>

locale write_back =
  fixes look :: "'s \<Rightarrow> 'v"
    and backing :: "'s \<Rightarrow> 'v"
    and pending :: "'s \<Rightarrow> nat"
    and put :: "'r \<Rightarrow> 's \<Rightarrow> 's"
    and act :: "'r \<Rightarrow> 'v \<Rightarrow> 'v"
    and drain :: "'s \<Rightarrow> 's"
    and good :: "'s \<Rightarrow> bool"
    and ok :: "'r \<Rightarrow> bool"
  assumes look_put: "good s \<Longrightarrow> ok r \<Longrightarrow> look (put r s) = act r (look s)"
    and good_put: "good s \<Longrightarrow> ok r \<Longrightarrow> good (put r s)"
    and look_drain: "good s \<Longrightarrow> 0 < pending s \<Longrightarrow> look (drain s) = look s"
    and good_drain: "good s \<Longrightarrow> 0 < pending s \<Longrightarrow> good (drain s)"
    and pending_drain: "good s \<Longrightarrow> 0 < pending s \<Longrightarrow> Suc (pending (drain s)) = pending s"
    and backing_empty: "good s \<Longrightarrow> pending s = 0 \<Longrightarrow> backing s = look s"
begin

lemma drains_to_backing:
  "good s \<Longrightarrow> backing ((drain ^^ pending s) s) = look s \<and> pending ((drain ^^ pending s) s) = 0"
proof (induction "pending s" arbitrary: s)
  case 0
  then show ?case by (simp add: backing_empty)
next
  case (Suc n)
  then have pos: "0 < pending s" by simp
  have n: "pending (drain s) = n"
    using Suc.hyps(2) pending_drain [OF Suc.prems pos] by simp
  have "backing ((drain ^^ n) (drain s)) = look (drain s) \<and> pending ((drain ^^ n) (drain s)) = 0"
    using Suc.hyps(1) [of "drain s"] good_drain [OF Suc.prems pos] n by simp
  then show ?case
    using look_drain [OF Suc.prems pos] by (simp add: Suc.hyps(2) [symmetric] funpow_swap1)
qed

text \<open>\<open>None\<close> is a drain step, \<open>Some r\<close> a write.\<close>

lemma interleaving:
  "good s \<Longrightarrow> list_all (case_option True ok) es \<Longrightarrow>
   good (fold (case_option (\<lambda>s. if 0 < pending s then drain s else s) put) es s) \<and>
   look (fold (case_option (\<lambda>s. if 0 < pending s then drain s else s) put) es s)
     = fold (case_option id act) es (look s)"
proof (induction es arbitrary: s)
  case Nil
  then show ?case by simp
next
  case (Cons e es)
  show ?case
  proof (cases e)
    case None
    with Cons show ?thesis by (simp add: good_drain look_drain)
  next
    case (Some r)
    with Cons show ?thesis by (simp add: good_put look_put)
  qed
qed

end

subsection \<open>The driver is such a store\<close>

text \<open>
  The lower device performs and completes every lazy item in the queue, whatever its state, and
  the queue holds lazy items only.
\<close>

definition all_succeed :: "'d lower_driver \<Rightarrow> ('d \<Rightarrow> contents) \<Rightarrow> bool" where
  "all_succeed L C \<longleftrightarrow> writes_through L C \<and> (\<forall>r d. NT_SUCCESS (fst (lw_built L r d))) \<and>
     (\<forall>d. lw_completes L d)"

definition lazy_only :: "'d world \<Rightarrow> bool" where
  "lazy_only w \<longleftrightarrow> list_all (\<lambda>it. it_Irp it = None) (queue w)"

definition drain_one :: "'d lower_driver \<Rightarrow> 'd world \<Rightarrow> 'd world" where
  "drain_one L w = snd (worker_iteration L True STATUS_SUCCESS w)"

definition act_irp :: "irp \<Rightarrow> contents \<Rightarrow> contents" where
  "act_irp i c = (if ir_MajorFunction i = IRP_MJ_WRITE
                  then write_bytes (ir_ByteOffset i) (ir_Buffer i) c else c)"

lemma drain_one_cons:
  "queue w = it # q \<Longrightarrow> lw_completes L (lower w) \<Longrightarrow> drain_one L w = dispatch_item L True it w"
  by (simp add: drain_one_def worker_iteration_def dispatch_returns)

lemma lazy_only_accepted: "lazy_only (accepted i w) = lazy_only w"
  by (simp add: lazy_only_def accepted_def Let_def insert_item_eq qc_simps lazy_item_def new_item_def)

interpretation cache: write_back
  "view C" "\<lambda>w. C (lower w)" "\<lambda>w. length (queue w)" accepted act_irp "drain_one L"
  "\<lambda>w. all_succeed L C \<and> lazy_only w" "\<lambda>_. True"
  for L :: "'d lower_driver" and C :: "'d \<Rightarrow> contents"
proof (unfold_locales, goal_cases)
  case (1 w i)
  then show ?case
    by (cases "ir_MajorFunction i = IRP_MJ_WRITE")
      (simp_all add: act_irp_def view_accepted_write view_accepted_flush)
next
  case (2 w i)
  then show ?case by (simp add: lazy_only_accepted)
next
  case (3 w)
  then obtain it q where q: "queue w = it # q" by (cases "queue w") auto
  with 3 have "lazy_succeeds L it (lower w)"
    by (simp add: all_succeed_def lazy_succeeds_def lazy_only_def)
  with 3 q show ?case by (simp add: drain_one_cons view_dispatch all_succeed_def)
next
  case (4 w)
  then obtain it q where q: "queue w = it # q" by (cases "queue w") auto
  with 4 show ?case by (simp add: drain_one_cons lazy_only_def dispatch_removes_head all_succeed_def)
next
  case (5 w)
  then obtain it q where q: "queue w = it # q" by (cases "queue w") auto
  with 5 show ?case by (simp add: drain_one_cons dispatch_removes_head all_succeed_def)
next
  case (6 w)
  then show ?case by (simp add: view_def)
qed

end
