(* ===== verification/QC_Partial.thy ===== *)
theory QC_Partial
  imports QC_Device
begin

section \<open>Split transfers: SCATTERED_IRP\<close>

text \<open>
  The class \<open>SCATTERED_IRP\<close> of \<open>src/qcache/qcache.h\<close> and its two out-of-line members in
  \<open>src/qcache/partialirp.cpp\<close>. An object stands for an original request that is being
  satisfied by several lower requests. It is reference counted: the creator holds one count,
  every lower request one; whoever drops the last count destroys the object, which completes
  the original request. \<open>sc_Outstanding\<close> lists the lower requests that were built and have
  not completed.
\<close>

subsection \<open>Creation\<close>

definition SCATTERED_IRP_Create ::
  "env \<Rightarrow> ULONG \<Rightarrow> irp \<Rightarrow> system_buffer \<Rightarrow> 'd world \<Rightarrow> NTSTATUS \<times> SCATTERED_IRP option \<times> 'd world" where
  "SCATTERED_IRP_Create e flags i sb w =
     (let (status, w1) = IoAcquireRemoveLock e w in
      if \<not> NT_SUCCESS status then (status, None, w1)
      else if \<not> scatter_alloc e
      then (STATUS_INSUFFICIENT_RESOURCES, None, IoReleaseRemoveLock w1)
      else (STATUS_SUCCESS,
            Some \<lparr>sc_OriginalIrp = i, sc_OriginalFlags = flags, sc_ScatterCount = 1,
                  sc_LastFailedStatus = 0, sc_BytesCompleted = 0, sc_SystemBuffer = sb,
                  sc_AllocatedBuffer = None, sc_CopyBack = False, sc_Outstanding = []\<rparr>, w1))"

subsection \<open>Building a lower request\<close>

definition has_flag :: "ULONG \<Rightarrow> ULONG \<Rightarrow> bool" where
  "has_flag flags f \<longleftrightarrow> flags AND f \<noteq> 0"

text \<open>The two exits that record an allocation failure.\<close>

definition build_failed :: "SCATTERED_IRP \<Rightarrow> lower_irp option \<times> SCATTERED_IRP" where
  "build_failed sc = (None, sc\<lparr>sc_LastFailedStatus := STATUS_INSUFFICIENT_RESOURCES\<rparr>)"

definition lower_flags :: "UCHAR \<Rightarrow> ULONG" where
  "lower_flags mf =
     (if mf = IRP_MJ_WRITE then IRP_WRITE_OPERATION OR ucast (SL_WRITE_THROUGH :: UCHAR) OR IRP_NOCACHE
      else if mf = IRP_MJ_READ then IRP_READ_OPERATION OR IRP_NOCACHE else 0)"

text \<open>The common end of \<open>BuildIrp\<close>: flags, completion routine, one more count.\<close>

definition build_done ::
  "UCHAR \<Rightarrow> ULONG \<Rightarrow> LONGLONG \<Rightarrow> target \<Rightarrow> SCATTERED_IRP \<Rightarrow> lower_irp option \<times> SCATTERED_IRP" where
  "build_done mf bytes lower_offset t sc =
     (let lo = \<lparr>lo_MajorFunction = mf, lo_ByteOffset = lower_offset, lo_Length = bytes,
                lo_Target = t, lo_Flags = lower_flags mf\<rparr>
      in (Some lo, sc\<lparr>sc_ScatterCount := sc_ScatterCount sc + 1,
                      sc_Outstanding := sc_Outstanding sc @ [lo]\<rparr>))"

text \<open>
  A lower device without direct I/O needs a system buffer. When there is none the MDL is mapped
  and a copy buffer is allocated: filled from the request for a write, copied back for a read.
  \<open>None\<close> in the first component is a failed mapping or allocation, \<open>None\<close> overall a copy
  outside the request's memory.
\<close>

definition map_system_buffer ::
  "build_env \<Rightarrow> UCHAR \<Rightarrow> SCATTERED_IRP \<Rightarrow> (bool \<times> SCATTERED_IRP) option" where
  "map_system_buffer b mf sc =
     (if sc_SystemBuffer sc \<noteq> NoBuffer then Some (True, sc)
      else if \<not> high_priority_mapping b then Some (False, sc)
      else
        let sc1 = sc\<lparr>sc_SystemBuffer := MdlMapping\<rparr>;
            n = unat (ir_Length (sc_OriginalIrp sc))
        in if \<not> copy_buffer_alloc b then Some (False, sc1)
           else if mf = IRP_MJ_WRITE
           then do {
             c \<leftarrow> RtlCopyMemory (replicate n 0) 0 (ir_Buffer (sc_OriginalIrp sc)) 0 n;
             Some (True, sc1\<lparr>sc_AllocatedBuffer := Some c\<rparr>)
           }
           else if mf = IRP_MJ_READ
           then Some (True, sc1\<lparr>sc_AllocatedBuffer := Some (replicate n 0), sc_CopyBack := True\<rparr>)
           else Some (True, sc1\<lparr>sc_AllocatedBuffer := Some (replicate n 0)\<rparr>))"

definition BuildIrp ::
  "build_env \<Rightarrow> UCHAR \<Rightarrow> ULONG \<Rightarrow> ULONG \<Rightarrow> ULONG \<Rightarrow> LONGLONG \<Rightarrow> SCATTERED_IRP
   \<Rightarrow> (lower_irp option \<times> SCATTERED_IRP) option" where
  "BuildIrp b mf flags off bytes lower_offset sc =
     (if has_flag flags DO_DIRECT_IO \<and> has_flag (sc_OriginalFlags sc) DO_BUFFERED_IO
      then if \<not> irp_alloc b then Some (build_failed sc)
           else Some (build_done mf bytes lower_offset (SystemBuf (unat off)) sc)
      else if \<not> irp_alloc b then Some (build_failed sc)
      else if has_flag flags DO_DIRECT_IO
      then if \<not> partial_mdl_alloc b then Some (build_failed sc)
           else Some (build_done mf bytes lower_offset (OriginalMdl (unat off)) sc)
      else do {
        (ok, sc1) \<leftarrow> map_system_buffer b mf sc;
        Some (if \<not> ok then build_failed sc1
              else build_done mf bytes lower_offset
                     (if sc_AllocatedBuffer sc1 \<noteq> None then AllocBuf (unat off)
                      else SystemBuf (unat off)) sc1)
      })"

subsection \<open>Completion\<close>

text \<open>The lower device fills the buffer of its request; a write outside it is a fault.\<close>

definition deliver :: "target \<Rightarrow> byte list \<Rightarrow> SCATTERED_IRP \<Rightarrow> SCATTERED_IRP option" where
  "deliver t data sc =
     (let i = sc_OriginalIrp sc;
          into_mdl = (\<lambda>off. do {
            b \<leftarrow> RtlCopyMemory (ir_Buffer i) off data 0 (length data);
            Some (sc\<lparr>sc_OriginalIrp := i\<lparr>ir_Buffer := b\<rparr>\<rparr>)
          })
      in case t of
           OriginalMdl off \<Rightarrow> into_mdl off
         | SystemBuf off \<Rightarrow>
             (case sc_SystemBuffer sc of
                NoBuffer \<Rightarrow> None
              | MdlMapping \<Rightarrow> into_mdl off
              | AssociatedBuffer \<Rightarrow> do {
                  b \<leftarrow> RtlCopyMemory (ir_SystemBuffer i) off data 0 (length data);
                  Some (sc\<lparr>sc_OriginalIrp := i\<lparr>ir_SystemBuffer := b\<rparr>\<rparr>)
                })
         | AllocBuf off \<Rightarrow>
             (case sc_AllocatedBuffer sc of
                None \<Rightarrow> None
              | Some a \<Rightarrow> do {
                  b \<leftarrow> RtlCopyMemory a off data 0 (length data);
                  Some (sc\<lparr>sc_AllocatedBuffer := Some b\<rparr>)
                }))"

text \<open>\<open>IrpCompletionRoutine\<close> up to its call of \<open>Complete\<close>.\<close>

definition IrpCompletionRoutine :: "answer \<Rightarrow> SCATTERED_IRP \<Rightarrow> SCATTERED_IRP" where
  "IrpCompletionRoutine a sc =
     (if NT_SUCCESS (an_Status a)
      then sc\<lparr>sc_BytesCompleted := sc_BytesCompleted sc + an_Information a\<rparr>
      else sc\<lparr>sc_LastFailedStatus := an_Status a\<rparr>)"

text \<open>\<open>Complete\<close>: drop one count; the object is destroyed when none is left.\<close>

definition drop_count :: "SCATTERED_IRP \<Rightarrow> SCATTERED_IRP" where
  "drop_count sc = sc\<lparr>sc_ScatterCount := sc_ScatterCount sc - 1\<rparr>"

definition lower_done :: "lower_irp \<Rightarrow> answer \<Rightarrow> SCATTERED_IRP \<Rightarrow> SCATTERED_IRP option" where
  "lower_done lo a sc = do {
     sc1 \<leftarrow> deliver (lo_Target lo) (an_Data a) sc;
     let sc2 = IrpCompletionRoutine a sc1;
     Some (drop_count (sc2\<lparr>sc_Outstanding := remove1 lo (sc_Outstanding sc2)\<rparr>))
   }"

text \<open>
  The destructor: the original request gets the last failure, or the copied bytes and the sum
  of the lower requests' byte counts. The copy goes to whatever the system buffer points to.
\<close>

definition copy_back :: "SCATTERED_IRP \<Rightarrow> irp option" where
  "copy_back sc =
     (let i = sc_OriginalIrp sc in
      if \<not> sc_CopyBack sc then Some i
      else case (sc_SystemBuffer sc, sc_AllocatedBuffer sc) of
             (MdlMapping, Some a) \<Rightarrow> do {
               b \<leftarrow> RtlCopyMemory (ir_Buffer i) 0 a 0 (unat (sc_BytesCompleted sc));
               Some (i\<lparr>ir_Buffer := b\<rparr>)
             }
           | (AssociatedBuffer, Some a) \<Rightarrow> do {
               b \<leftarrow> RtlCopyMemory (ir_SystemBuffer i) 0 a 0 (unat (sc_BytesCompleted sc));
               Some (i\<lparr>ir_SystemBuffer := b\<rparr>)
             }
           | _ \<Rightarrow> None)"

definition scatter_result :: "SCATTERED_IRP \<Rightarrow> irp option" where
  "scatter_result sc =
     (if NT_SUCCESS (sc_LastFailedStatus sc)
      then do {
        i \<leftarrow> copy_back sc;
        Some (i\<lparr>ir_Status := sc_LastFailedStatus sc, ir_Information := sc_BytesCompleted sc\<rparr>)
      }
      else Some ((sc_OriginalIrp sc)\<lparr>ir_Status := sc_LastFailedStatus sc, ir_Information := 0\<rparr>))"

definition scatter_destroy :: "SCATTERED_IRP \<Rightarrow> 'd world \<Rightarrow> 'd world option" where
  "scatter_destroy sc w = do {
     i \<leftarrow> scatter_result sc;
     Some (IoReleaseRemoveLock (IoCompleteRequest i w))
   }"

text \<open>
  After a count was dropped the object is either destroyed or stays among the live scatters
  of the device.
\<close>

definition settle :: "SCATTERED_IRP \<Rightarrow> 'd world \<Rightarrow> 'd world option" where
  "settle sc w =
     (if sc_ScatterCount sc = 0 then scatter_destroy sc w
      else Some (w\<lparr>Scatters := Scatters w @ [sc]\<rparr>))"

text \<open>
  A lower request that was answered later: the \<open>n\<close>-th live scatter object gets the answer to
  its outstanding request \<open>lo\<close>.
\<close>

definition LowerReadComplete :: "nat \<Rightarrow> lower_irp \<Rightarrow> answer \<Rightarrow> 'd world \<Rightarrow> 'd world option" where
  "LowerReadComplete n lo a w =
     (if n < length (Scatters w) \<and> lo \<in> set (sc_Outstanding (Scatters w ! n))
      then do {
        sc \<leftarrow> lower_done lo a (Scatters w ! n);
        settle sc (w\<lparr>Scatters := take n (Scatters w) @ drop (Suc n) (Scatters w)\<rparr>)
      }
      else Some w)"

end
