(* ===== verification/QC_Bitmap.thy ===== *)
theory QC_Bitmap
  imports QC_Prelude
begin

section \<open>The bitmap searches QCacheRead relies on\<close>

text \<open>
  The read path finds the sectors it still has to read with two searches of the kernel's
  bitmap package. They are not in this repository, so they are a parameter (\<open>bitmap_api\<close>,
  results as length and start index); the locale \<open>clear_runs\<close> states their documented
  behaviour, and the theorems about reads take it as a hypothesis. The last part interprets
  the locale for a linear search, which the model is evaluated with.
\<close>

subsection \<open>Clear runs of a bitmap\<close>

record bitmap_api =
  RtlFindFirstRunClear :: "bool list \<Rightarrow> nat \<times> nat"
  RtlFindNextForwardRunClear :: "bool list \<Rightarrow> nat \<Rightarrow> nat \<times> nat"

definition clear_run_at :: "bool list \<Rightarrow> nat \<Rightarrow> nat \<Rightarrow> nat \<Rightarrow> bool" where
  "clear_run_at bm from n i \<longleftrightarrow>
     (if n = 0 then \<forall>k. from \<le> k \<longrightarrow> k < length bm \<longrightarrow> bm ! k
      else from \<le> i \<and> i + n \<le> length bm \<and> (\<forall>k. i \<le> k \<longrightarrow> k < i + n \<longrightarrow> \<not> bm ! k) \<and>
           (\<forall>k. from \<le> k \<longrightarrow> k < i \<longrightarrow> bm ! k) \<and> (i + n < length bm \<longrightarrow> bm ! (i + n)))"

locale clear_runs =
  fixes api :: bitmap_api
  assumes first_run: "RtlFindFirstRunClear api bm = (n, i) \<Longrightarrow> clear_run_at bm 0 n i"
    and next_run: "RtlFindNextForwardRunClear api bm from = (n, i) \<Longrightarrow> clear_run_at bm from n i"
begin

lemma first_none: "RtlFindFirstRunClear api bm = (0, i) \<Longrightarrow> k < length bm \<Longrightarrow> bm ! k"
  using first_run [of bm 0 i] by (simp add: clear_run_at_def)

text \<open>After a maximal run the next run starts strictly later: the loop makes progress.\<close>

lemma next_progress:
  assumes "clear_run_at bm from n i" "0 < n"
    and "RtlFindNextForwardRunClear api bm (i + n) = (n', i')" "0 < n'"
  shows "i + n < i'" "i' + n' \<le> length bm"
proof -
  from next_run [OF assms(3)] assms(4)
  have r: "i + n \<le> i'" "i' + n' \<le> length bm" "\<not> bm ! i'"
    by (auto simp: clear_run_at_def)
  then show "i' + n' \<le> length bm" by simp
  have "i' \<noteq> i + n"
    using assms(1,2,4) r by (auto simp: clear_run_at_def)
  with r(1) show "i + n < i'" by simp
qed

end

text \<open>A search that behaves as documented, to evaluate the model with.\<close>

fun skip_set :: "bool list \<Rightarrow> nat" where
  "skip_set (True # bm) = Suc (skip_set bm)"
| "skip_set bm = 0"

fun count_clear :: "bool list \<Rightarrow> nat" where
  "count_clear (False # bm) = Suc (count_clear bm)"
| "count_clear bm = 0"

definition find_clear :: "bool list \<Rightarrow> nat \<Rightarrow> nat \<times> nat" where
  "find_clear bm from =
     (let i = from + skip_set (drop from bm) in (count_clear (drop i bm), i))"

definition linear_bitmap_api :: bitmap_api where
  "linear_bitmap_api =
     \<lparr>RtlFindFirstRunClear = (\<lambda>bm. find_clear bm 0), RtlFindNextForwardRunClear = find_clear\<rparr>"

lemma skip_set_set: "k < skip_set bm \<Longrightarrow> bm ! k"
  by (induction bm arbitrary: k rule: skip_set.induct) (auto simp: less_Suc_eq_0_disj)

lemma skip_set_le: "skip_set bm \<le> length bm"
  by (induction bm rule: skip_set.induct) auto

lemma skip_set_clear: "skip_set bm < length bm \<Longrightarrow> \<not> bm ! skip_set bm"
  by (induction bm rule: skip_set.induct) auto

lemma count_clear_clear: "k < count_clear bm \<Longrightarrow> \<not> bm ! k"
  by (induction bm arbitrary: k rule: count_clear.induct) (auto simp: less_Suc_eq_0_disj)

lemma count_clear_le: "count_clear bm \<le> length bm"
  by (induction bm rule: count_clear.induct) auto

lemma count_clear_stop: "count_clear bm < length bm \<Longrightarrow> bm ! count_clear bm"
  by (induction bm rule: count_clear.induct) auto

lemma count_clear_zero: "count_clear bm = 0 \<Longrightarrow> bm \<noteq> [] \<Longrightarrow> bm ! 0"
  by (cases bm rule: count_clear.cases) auto

lemma find_clear_run:
  assumes "find_clear bm from = (n, i)"
  shows "clear_run_at bm from n i"
proof -
  let ?s = "skip_set (drop from bm)"
  from assms have i: "i = from + ?s" and n: "n = count_clear (drop i bm)"
    by (auto simp: find_clear_def Let_def)
  have below: "bm ! k" if "from \<le> k" "k < i" "k < length bm" for k
    using skip_set_set [of "k - from" "drop from bm"] that i by simp
  have s: "?s \<le> length bm - from" using skip_set_le [of "drop from bm"] by simp
  have le: "n \<le> length bm - i" using count_clear_le [of "drop i bm"] n by simp
  show ?thesis
  proof (cases "n = 0")
    case True
    have "length bm \<le> i"
    proof (rule ccontr)
      assume "\<not> length bm \<le> i"
      then have lt: "i < length bm" by simp
      then have "bm ! i"
        using count_clear_zero [of "drop i bm"] n True by simp
      moreover have "\<not> bm ! i"
        using skip_set_clear [of "drop from bm"] lt i by simp
      ultimately show False by simp
    qed
    with below True show ?thesis by (simp add: clear_run_at_def)
  next
    case False
    have "\<not> bm ! k" if "i \<le> k" "k < i + n" for k
      using count_clear_clear [of "k - i" "drop i bm"] that n le by simp
    moreover have "bm ! (i + n)" if "i + n < length bm"
      using count_clear_stop [of "drop i bm"] that n by simp
    moreover have "bm ! k" if "from \<le> k" "k < i" for k
      using below [OF that] that le False by simp
    ultimately show ?thesis
      using False le i by (simp add: clear_run_at_def)
  qed
qed

interpretation linear: clear_runs linear_bitmap_api
  by unfold_locales (simp_all add: linear_bitmap_api_def find_clear_run)

end
