(* ===== verification/QC_Read.thy ===== *)
theory QC_Read
  imports QC_View QC_Partial QC_Bitmap
begin

section \<open>Reading through the write queue\<close>

text \<open>
  \<open>src/qcache/read.cpp\<close>: \<open>QCacheRead\<close> validates the request, copies every overlapping
  queued write into the caller's buffer in queue order while marking whole 512-byte sectors in
  a bitmap, and then reads the sectors that were not marked from the lower device: the request
  itself when nothing was copied, one lower request per run of clear bits otherwise. The
  theory holds the definitions; the theorems about them follow in the next ones.
\<close>

subsection \<open>Extent checks\<close>

text \<open>
  The check \<open>QCacheRead\<close> and \<open>QCacheWrite\<close> share: start before the end of the device, end
  positive and not past the end of the device, all as signed 64-bit numbers.
\<close>

definition beyond_media :: "DEVICE_STATISTICS \<Rightarrow> irp \<Rightarrow> bool" where
  "beyond_media s i \<longleftrightarrow>
     (let highest_byte = ir_ByteOffset i + ucast (ir_Length i)
      in Size s <=s ir_ByteOffset i \<or> highest_byte <=s 0 \<or> Size s <s highest_byte)"

definition misaligned :: "irp \<Rightarrow> bool" where
  "misaligned i \<longleftrightarrow> ir_ByteOffset i AND 0x1FF \<noteq> 0 \<or> ir_Length i AND 0x1FF \<noteq> 0"

subsection \<open>The walk over the queue\<close>

record read_walk =
  rw_Buffer :: "byte list"
  rw_Bitmap :: "bool list"
  rw_Any :: bool
  rw_Stats :: DEVICE_STATISTICS

definition overlaps :: "irp \<Rightarrow> WRITE_QUEUE_ITEM \<Rightarrow> bool" where
  "overlaps i it \<longleftrightarrow>
     it_MajorFunction it = IRP_MJ_WRITE \<and>
     it_Offset it <s ir_ByteOffset i + ucast (ir_Length i) \<and>
     ir_ByteOffset i <s it_Offset it + ucast (it_Length it)"

text \<open>
  One overlapping item: copy the common bytes, mark the sectors. The shift by 9 of the signed
  distances is arithmetic, its result is cut to 32 bits. A null payload has no bytes.
\<close>

definition copy_item :: "irp \<Rightarrow> WRITE_QUEUE_ITEM \<Rightarrow> read_walk \<Rightarrow> read_walk option" where
  "copy_item i it a =
     (let start_pos = ll_max (it_Offset it) (ir_ByteOffset i);
          end_pos = ll_min (it_Offset it + ucast (it_Length it))
                           (ir_ByteOffset i + ucast (ir_Length i));
          src = (case it_Buffer it of None \<Rightarrow> [] | Some b \<Rightarrow> b)
      in do {
        buf \<leftarrow> RtlCopyMemory (rw_Buffer a) (unat (start_pos - ir_ByteOffset i))
                 src (unat (start_pos - it_Offset it)) (unat (end_pos - start_pos));
        bm \<leftarrow> RtlSetBits (rw_Bitmap a)
                (unat (ucast (signed_drop_bit 9 (start_pos - ir_ByteOffset i)) :: ULONG))
                (unat (ucast (signed_drop_bit 9 (end_pos - start_pos)) :: ULONG));
        Some (a\<lparr>rw_Buffer := buf, rw_Bitmap := bm, rw_Any := True,
                rw_Stats := (rw_Stats a)\<lparr>
                  ReadRequestsFromCache := ReadRequestsFromCache (rw_Stats a) + 1,
                  ReadBytesFromCache := ReadBytesFromCache (rw_Stats a) + (end_pos - start_pos)\<rparr>\<rparr>)
      })"

fun walk_queue :: "irp \<Rightarrow> WRITE_QUEUE_ITEM list \<Rightarrow> read_walk \<Rightarrow> read_walk option" where
  "walk_queue i [] a = Some a"
| "walk_queue i (it # q) a =
     (if overlaps i it then do { b \<leftarrow> copy_item i it a; walk_queue i q b }
      else walk_queue i q a)"

subsection \<open>Reading the gaps\<close>

text \<open>
  The do-while loop over the runs of clear bits. A lower request that is answered at once runs
  the completion routine inline; if that dropped the last count, the object would be destroyed
  while the loop still uses it, which is a fault. Fuel bounds the number of iterations:
  \<open>None\<close> without fuel.
\<close>

fun read_gaps ::
  "nat \<Rightarrow> 'd lower_driver \<Rightarrow> env \<Rightarrow> bitmap_api \<Rightarrow> bool list \<Rightarrow> LONGLONG \<Rightarrow> nat \<Rightarrow> nat \<Rightarrow> nat
   \<Rightarrow> SCATTERED_IRP \<Rightarrow> 'd world \<Rightarrow> (nat \<times> SCATTERED_IRP \<times> 'd world) option" where
  "read_gaps 0 L e api bm off clear_index clear_bits splits sc w = None"
| "read_gaps (Suc fuel) L e api bm off clear_index clear_bits splits sc w =
     do {
       (irp, sc1) \<leftarrow> BuildIrp (build_alloc e splits) IRP_MJ_READ (lw_flags L)
                      (push_bit 9 (of_nat clear_index)) (push_bit 9 (of_nat clear_bits))
                      (off + push_bit 9 (of_nat clear_index)) sc;
       case irp of
         None \<Rightarrow> Some (splits, sc1, w)
       | Some lo \<Rightarrow>
           let w1 = upd_stats (\<lambda>s. s\<lparr>ReadBytesFromOriginal :=
                       ReadBytesFromOriginal s + push_bit 9 (of_nat clear_bits)\<rparr>) w;
               (ans, d) = lw_read L lo (lower w1);
               w2 = w1\<lparr>lower := d\<rparr>
           in do {
             sc2 \<leftarrow> (case ans of
                       None \<Rightarrow> Some sc1
                     | Some a \<Rightarrow> do {
                         s \<leftarrow> lower_done lo a sc1;
                         (if sc_ScatterCount s = 0 then None else Some s)
                       });
             let (clear_bits', clear_index') =
                   RtlFindNextForwardRunClear api bm (clear_index + clear_bits)
             in if 0 < clear_bits'
                then read_gaps fuel L e api bm off clear_index' clear_bits' (Suc splits) sc2 w2
                else Some (Suc splits, sc2, w2)
           }
     }"

text \<open>The number of bytes allocated for the bitmap, and the number of its bits.\<close>

definition bitmap_bytes :: "ULONG \<Rightarrow> nat" where
  "bitmap_bytes len = unat (drop_bit 9 len) + 4 - 1"

definition bitmap_bits :: "ULONG \<Rightarrow> nat" where
  "bitmap_bits len = unat (drop_bit 9 len)"

text \<open>From the creation of the scatter object to the end.\<close>

definition read_mixed ::
  "'d lower_driver \<Rightarrow> env \<Rightarrow> bitmap_api \<Rightarrow> bool list \<Rightarrow> nat \<Rightarrow> nat \<Rightarrow> irp \<Rightarrow> 'd world
   \<Rightarrow> (NTSTATUS \<times> 'd world) option" where
  "read_mixed L e api bm clear_bits clear_index i w =
     (case SCATTERED_IRP_Create e (device_flags e) i
             (if has_flag (device_flags e) DO_BUFFERED_IO then AssociatedBuffer else NoBuffer) w of
        (status, None, w1) \<Rightarrow> Some (complete_with status i w1)
      | (status, Some sc, w1) \<Rightarrow> do {
          (splits, sc2, w2) \<leftarrow> read_gaps (Suc (length bm)) L e api bm (ir_ByteOffset i)
                                clear_index clear_bits 0 sc w1;
          let w3 = (if 1 < splits
                    then upd_stats (\<lambda>s. s\<lparr>SplitReads := SplitReads s + of_nat splits\<rparr>) w2 else w2);
          w4 \<leftarrow> settle (drop_count sc2) w3;
          Some (STATUS_PENDING, w4)
        })"

subsection \<open>QCacheRead\<close>

text \<open>From the walk on; \<open>i\<close> is the request with \<open>Information\<close> cleared.\<close>

definition read_cached ::
  "'d lower_driver \<Rightarrow> env \<Rightarrow> bitmap_api \<Rightarrow> irp \<Rightarrow> 'd world \<Rightarrow> (NTSTATUS \<times> 'd world) option" where
  "read_cached L e api i w = do {
     a \<leftarrow> walk_queue i (queue w)
            \<lparr>rw_Buffer = ir_Buffer i, rw_Bitmap = replicate (bitmap_bits (ir_Length i)) False,
             rw_Any = False, rw_Stats = stats w\<rparr>;
     let i1 = i\<lparr>ir_Buffer := rw_Buffer a\<rparr>;
     let w1 = upd_stats (\<lambda>_. rw_Stats a) w;
     (if \<not> rw_Any a
      then Some (QCacheSendToNextDriver L i1
             (upd_stats (\<lambda>s. s\<lparr>
                ReadRequestsReroutedToOriginal := ReadRequestsReroutedToOriginal s + 1,
                ReadBytesReroutedToOriginal :=
                  ReadBytesReroutedToOriginal s + ucast (ir_Length i)\<rparr>) w1))
      else case RtlFindFirstRunClear api (rw_Bitmap a) of
             (clear_bits, clear_index) \<Rightarrow>
               if clear_bits = 0
               then Some (complete_with STATUS_SUCCESS
                            (i1\<lparr>ir_Information := ucast (ir_Length i)\<rparr>) w1)
               else read_mixed L e api (rw_Bitmap a) clear_bits clear_index i1 w1)
   }"

text \<open>The request counters, and the largest request seen.\<close>

definition count_read :: "irp \<Rightarrow> 'd world \<Rightarrow> 'd world" where
  "count_read i w = upd_stats (\<lambda>s. s\<lparr>ReadRequests := ReadRequests s + 1,
                                     ReadBytes := ReadBytes s + ucast (ir_Length i)\<rparr>) w"

definition note_read_size :: "irp \<Rightarrow> 'd world \<Rightarrow> 'd world" where
  "note_read_size i w = upd_stats (\<lambda>s. if LargestReadSize s < ir_Length i
                                        then s\<lparr>LargestReadSize := ir_Length i\<rparr> else s) w"

definition QCacheRead ::
  "'d lower_driver \<Rightarrow> env \<Rightarrow> bitmap_api \<Rightarrow> irp \<Rightarrow> 'd world \<Rightarrow> (NTSTATUS \<times> 'd world) option" where
  "QCacheRead L e api i0 w0 =
     (if Size (stats w0) = 0 then Some (QCacheSendToNextDriver L i0 w0)
      else
        let i = i0\<lparr>ir_Information := 0\<rparr>;
            w1 = count_read i w0;
            w2 = note_read_size i w1
        in if ir_Length i = 0 then Some (QCacheIgnore i w1)
           else if misaligned i then Some (complete_with STATUS_INVALID_PARAMETER i w2)
           else if beyond_media (stats w2) i then Some (complete_with STATUS_END_OF_MEDIA i w2)
           else if \<not> mdl_mapped e \<or> \<not> bitmap_alloc e
           then Some (complete_with STATUS_INSUFFICIENT_RESOURCES i w2)
           else read_cached L e api i w2)"

end
