(* ===== verification/QC_Walk.thy ===== *)
theory QC_Walk
  imports QC_Read
begin

section \<open>The walk over the queue is an overlay\<close>

text \<open>
  What the first half of \<open>QCacheRead\<close> does to the caller's buffer and to the bitmap: the
  buffer becomes the overlay of the queued writes on what it held, no copy and no bit leaves
  its bounds, and with sector-aligned items a bit is set exactly when its sector is covered by
  a queued write. The theory ends with what the extent checks establish.
\<close>

subsection \<open>Distances between positions\<close>

lemma unat_diff64:
  fixes a b :: LONGLONG
  assumes "0 \<le> sint a - sint b" "sint a - sint b < 9223372036854775808"
  shows "unat (a - b) = nat (sint a - sint b)"
proof -
  have s: "sint (a - b) = sint a - sint b" using assms by (intro sint_sub64) linarith+
  have "uint (a - b) = sint (a - b)"
  proof -
    have "uint (a - b) = take_bit 64 (sint (a - b))"
      using uint_sint [of "a - b"] by simp
    also have "\<dots> = sint (a - b)"
      using assms s by (intro take_bit_int_eq_self) simp_all
    finally show ?thesis .
  qed
  with s show ?thesis by (metis nat_uint_eq)
qed

lemma unat_sector:
  fixes z :: LONGLONG
  assumes "unat z < 4294967296"
  shows "unat (ucast (signed_drop_bit 9 z) :: ULONG) = unat z div 512"
proof -
  have u: "uint z < 4294967296"
  proof -
    have "int (unat z) < int 4294967296" using assms by (simp only: of_nat_less_iff)
    then show ?thesis by simp
  qed
  have "sint z = uint z"
  proof -
    have "signed_take_bit 63 (uint z) = uint z"
      by (rule signed_take_bit_id; use u uint_ge_0 [of z] in linarith)
    then show ?thesis by (simp add: sint_uint)
  qed
  then have "sint (signed_drop_bit 9 z) = uint z div 512"
    by (simp add: sint_signed_drop_bit_eq drop_bit_eq_div)
  then have "uint (signed_drop_bit 9 z) = take_bit 64 (uint z div 512)"
    using uint_sint [of "signed_drop_bit 9 z"] by simp
  also have "\<dots> = uint z div 512"
    using u by (intro take_bit_int_eq_self) (simp_all add: pos_imp_zdiv_nonneg_iff)
  finally have d: "uint (signed_drop_bit 9 z) = uint z div 512" .
  have pos: "0 \<le> uint z div 512" by (simp add: pos_imp_zdiv_nonneg_iff)
  have "uint (ucast (signed_drop_bit 9 z) :: ULONG) = take_bit 32 (uint z div 512)"
    by (simp add: unsigned_ucast_eq d)
  also have "\<dots> = uint z div 512"
    using u pos by (intro take_bit_int_eq_self) simp_all
  finally have "int (unat (ucast (signed_drop_bit 9 z) :: ULONG)) = int (unat z div 512)"
    by (simp add: zdiv_int)
  then show ?thesis by (simp only: of_nat_eq_iff)
qed

lemma extent_exact: "wf_extent off n \<Longrightarrow> sint (off + ucast n) = sint off + uint n"
  unfolding wf_extent_def by (rule end_pos_exact)

subsection \<open>What a queued write covers\<close>

text \<open>The first and the last-plus-one position of a lazy write in the queue.\<close>

definition is_write :: "WRITE_QUEUE_ITEM \<Rightarrow> bool" where
  "is_write it \<longleftrightarrow> it_Irp it = None \<and> it_MajorFunction it = IRP_MJ_WRITE"

definition covers :: "WRITE_QUEUE_ITEM \<Rightarrow> int \<Rightarrow> bool" where
  "covers it p \<longleftrightarrow> is_write it \<and> sint (it_Offset it) \<le> p \<and> p < sint (it_Offset it) + uint (it_Length it)"

definition covered :: "WRITE_QUEUE_ITEM list \<Rightarrow> int \<Rightarrow> bool" where
  "covered q p \<longleftrightarrow> list_ex (\<lambda>it. covers it p) q"

lemma covered_simps [simp]:
  "\<not> covered [] p" "covered (it # q) p \<longleftrightarrow> covers it p \<or> covered q p"
  by (simp_all add: covered_def)

lemma wf_item_write:
  assumes "wf_item it" "is_write it"
  obtains b where "it_Buffer it = Some b" "length b = unat (it_Length it)"
    "sint (it_Offset it + ucast (it_Length it)) = sint (it_Offset it) + uint (it_Length it)"
  using assms
  by (auto simp: wf_item_def is_write_def extent_exact split: option.splits)

lemma apply_covers:
  assumes "wf_item it"
  shows "covers it p \<Longrightarrow> apply_item it c p = apply_item it c' p"
    and "\<not> covers it p \<Longrightarrow> apply_item it c p = c p"
proof -
  have *: "apply_item it c p = (if covers it p then the (it_Buffer it) ! nat (p - sint (it_Offset it))
                                else c p)" for c
  proof (cases "is_write it")
    case True
    then obtain b where "it_Buffer it = Some b" "length b = unat (it_Length it)"
      using wf_item_write [OF assms] by blast
    with True show ?thesis
      by (simp add: apply_item_def covers_def is_write_def write_bytes_def)
  next
    case False
    then show ?thesis by (auto simp: apply_item_def covers_def is_write_def)
  qed
  show "covers it p \<Longrightarrow> apply_item it c p = apply_item it c' p"
    and "\<not> covers it p \<Longrightarrow> apply_item it c p = c p"
    by (simp_all add: *)
qed

lemma overlay_uncovered:
  "list_all wf_item q \<Longrightarrow> \<not> covered q p \<Longrightarrow> overlay q c p = c p"
  by (induction q arbitrary: c) (simp_all add: apply_covers)

lemma overlay_covered:
  assumes "list_all wf_item q" "covered q p"
  shows "overlay q c p = overlay q c' p"
  using assms
proof (induction q arbitrary: c c')
  case Nil
  then show ?case by simp
next
  case (Cons it q)
  show ?case
  proof (cases "covered q p")
    case True
    then have "overlay q (apply_item it c) p = overlay q (apply_item it c') p"
      using Cons by simp
    then show ?thesis by simp
  next
    case False
    then have "apply_item it c p = apply_item it c' p" using Cons.prems by (simp add: apply_covers)
    then have "overlay q (apply_item it c) p = overlay q (apply_item it c') p" by (rule overlay_local)
    then show ?thesis by simp
  qed
qed

subsection \<open>Copying one item\<close>

lemma item_extent:
  "wf_item it \<Longrightarrow> sint (it_Offset it + ucast (it_Length it)) = sint (it_Offset it) + uint (it_Length it)"
  by (auto simp: wf_item_def extent_exact split: option.splits if_splits)

text \<open>The extent of a read the checks let through, and the buffers of a walk.\<close>

definition wf_read :: "irp \<Rightarrow> bool" where
  "wf_read i \<longleftrightarrow> wf_transfer i \<and> wf_extent (ir_ByteOffset i) (ir_Length i)"

definition wf_walk :: "irp \<Rightarrow> read_walk \<Rightarrow> bool" where
  "wf_walk i a \<longleftrightarrow> length (rw_Buffer a) = unat (ir_Length i) \<and>
     length (rw_Bitmap a) = unat (ir_Length i) div 512"

lemma overlaps_iff:
  assumes "wf_read i" "wf_item it"
  shows "overlaps i it \<longleftrightarrow> it_MajorFunction it = IRP_MJ_WRITE \<and>
    sint (it_Offset it) < sint (ir_ByteOffset i) + uint (ir_Length i) \<and>
    sint (ir_ByteOffset i) < sint (it_Offset it) + uint (it_Length it)"
  using assms
  by (simp add: overlaps_def wf_read_def extent_exact item_extent word_sless_alt)

text \<open>The common part of the item and the request: where it starts in the request, its length.\<close>

definition part_start :: "irp \<Rightarrow> WRITE_QUEUE_ITEM \<Rightarrow> int" where
  "part_start i it = max (sint (it_Offset it)) (sint (ir_ByteOffset i)) - sint (ir_ByteOffset i)"

definition part_length :: "irp \<Rightarrow> WRITE_QUEUE_ITEM \<Rightarrow> int" where
  "part_length i it =
     min (sint (it_Offset it) + uint (it_Length it)) (sint (ir_ByteOffset i) + uint (ir_Length i))
     - max (sint (it_Offset it)) (sint (ir_ByteOffset i))"

lemma copy_item_eq:
  assumes "wf_read i" "wf_item it" "overlaps i it" "wf_walk i a"
  defines "s \<equiv> nat (part_start i it)" and "n \<equiv> nat (part_length i it)"
    and "o_it \<equiv> nat (part_start i it + sint (ir_ByteOffset i) - sint (it_Offset it))"
  shows "\<exists>buf bm st. RtlCopyMemory (rw_Buffer a) s (case_option [] id (it_Buffer it)) o_it n = Some buf \<and>
      RtlSetBits (rw_Bitmap a) (s div 512) (n div 512) = Some bm \<and>
      copy_item i it a = Some (a\<lparr>rw_Buffer := buf, rw_Bitmap := bm, rw_Any := True, rw_Stats := st\<rparr>)"
proof -
  let ?A = "sint (ir_ByteOffset i)" and ?L = "uint (ir_Length i)"
  let ?B = "sint (it_Offset it)" and ?M = "uint (it_Length it)"
  let ?sp = "ll_max (it_Offset it) (ir_ByteOffset i)"
  let ?ep = "ll_min (it_Offset it + ucast (it_Length it)) (ir_ByteOffset i + ucast (ir_Length i))"
  have ext: "sint (ir_ByteOffset i + ucast (ir_Length i)) = ?A + ?L"
    "sint (it_Offset it + ucast (it_Length it)) = ?B + ?M"
    using assms(1,2) by (simp_all add: wf_read_def extent_exact item_extent)
  have ov: "?B < ?A + ?L" "?A < ?B + ?M"
    using assms(1-3) by (simp_all add: overlaps_iff)
  note r = uint_range32 [of "ir_Length i"] uint_range32 [of "it_Length it"]
  have sp: "sint ?sp = max ?B ?A" and ep: "sint ?ep = min (?B + ?M) (?A + ?L)"
    by (simp_all add: longlong ext)
  have d1: "unat (?sp - ir_ByteOffset i) = s"
    unfolding s_def part_start_def sp [symmetric] using ov r by (intro unat_diff64) (auto simp: sp)
  have d2: "unat (?ep - ?sp) = n"
    unfolding n_def part_length_def sp [symmetric] ep [symmetric]
    using ov r by (intro unat_diff64) (auto simp: sp ep)
  have d3: "unat (?sp - it_Offset it) = o_it"
  proof -
    have "unat (?sp - it_Offset it) = nat (sint ?sp - ?B)"
      using ov r by (intro unat_diff64) (auto simp: sp)
    then show ?thesis by (simp add: o_it_def part_start_def sp)
  qed
  have u: "int (unat (ir_Length i)) = ?L" "int (unat (it_Length it)) = ?M" by simp_all
  have sn: "s + n \<le> unat (ir_Length i)"
    using ov r u unfolding s_def n_def part_start_def part_length_def by linarith
  then have lt: "s < 4294967296" "n < 4294967296"
    using r u by linarith+
  have w1: "unat (ucast (signed_drop_bit 9 (?sp - ir_ByteOffset i)) :: ULONG) = s div 512"
    using unat_sector [of "?sp - ir_ByteOffset i"] d1 lt by simp
  have w2: "unat (ucast (signed_drop_bit 9 (?ep - ?sp)) :: ULONG) = n div 512"
    using unat_sector [of "?ep - ?sp"] d2 lt by simp
  have src: "o_it + n \<le> length (case_option [] id (it_Buffer it))"
  proof (cases "is_write it")
    case True
    then obtain b where "it_Buffer it = Some b" "length b = unat (it_Length it)"
      using wf_item_write [OF assms(2)] by blast
    moreover have "o_it + n \<le> unat (it_Length it)"
      using ov r u unfolding o_it_def n_def part_start_def part_length_def by linarith
    ultimately show ?thesis by simp
  next
    case False
    then have "?M = 0" "?B = 0"
      using assms(1-3) by (auto simp: overlaps_iff wf_item_def is_write_def split: option.splits)
    then have "o_it = 0" "n = 0"
      using ov r unfolding o_it_def n_def part_start_def part_length_def by linarith+
    then show ?thesis by simp
  qed
  have "s div 512 + n div 512 \<le> unat (ir_Length i) div 512"
    using sn by (metis div_add1_eq div_le_mono le_add1 order_trans)
  then have bm: "RtlSetBits (rw_Bitmap a) (s div 512) (n div 512) \<noteq> None"
    using assms(4) by (simp add: RtlSetBits_def wf_walk_def)
  have "RtlCopyMemory (rw_Buffer a) s (case_option [] id (it_Buffer it)) o_it n \<noteq> None"
    using assms(4) sn src by (simp add: RtlCopyMemory_def wf_walk_def)
  with bm show ?thesis
    by (auto simp: copy_item_def Let_def d1 d2 d3 w1 w2 id_def split: option.splits)
qed

text \<open>The effect of one overlapping item on the buffer and on the bitmap.\<close>

lemma copy_item_effect:
  assumes "wf_read i" "wf_item it" "overlaps i it" "wf_walk i a"
  obtains b where "copy_item i it a = Some b" "wf_walk i b" "rw_Any b"
    and "\<And>c k. k < unat (ir_Length i) \<Longrightarrow> c (sint (ir_ByteOffset i) + int k) = rw_Buffer a ! k \<Longrightarrow>
           rw_Buffer b ! k = apply_item it c (sint (ir_ByteOffset i) + int k)"
    and "\<And>j. j < unat (ir_Length i) div 512 \<Longrightarrow>
           rw_Bitmap b ! j = (nat (part_start i it) div 512 \<le> j \<and>
             j < nat (part_start i it) div 512 + nat (part_length i it) div 512 \<or> rw_Bitmap a ! j)"
proof -
  let ?A = "sint (ir_ByteOffset i)" and ?L = "uint (ir_Length i)"
  let ?B = "sint (it_Offset it)" and ?M = "uint (it_Length it)"
  from copy_item_eq [OF assms] obtain buf bm st where
    buf: "RtlCopyMemory (rw_Buffer a) (nat (part_start i it)) (case_option [] id (it_Buffer it))
            (nat (part_start i it + ?A - ?B)) (nat (part_length i it)) = Some buf"
    and bm: "RtlSetBits (rw_Bitmap a) (nat (part_start i it) div 512) (nat (part_length i it) div 512) = Some bm"
    and b: "copy_item i it a = Some (a\<lparr>rw_Buffer := buf, rw_Bitmap := bm, rw_Any := True, rw_Stats := st\<rparr>)"
    by blast
  let ?b = "a\<lparr>rw_Buffer := buf, rw_Bitmap := bm, rw_Any := True, rw_Stats := st\<rparr>"
  have ov: "?B < ?A + ?L" "?A < ?B + ?M" "it_MajorFunction it = IRP_MJ_WRITE"
    using assms(1-3) by (simp_all add: overlaps_iff)
  have len: "length (rw_Buffer a) = unat (ir_Length i)"
    "length (rw_Bitmap a) = unat (ir_Length i) div 512"
    using assms(4) by (simp_all add: wf_walk_def)
  show thesis
  proof (rule that [OF b])
    show "wf_walk i ?b"
      using len copy_memory_length [OF buf] set_bits_length [OF bm] by (simp add: wf_walk_def)
    show "rw_Any ?b" by simp
    show "rw_Bitmap ?b ! j = (nat (part_start i it) div 512 \<le> j \<and>
             j < nat (part_start i it) div 512 + nat (part_length i it) div 512 \<or> rw_Bitmap a ! j)"
      if "j < unat (ir_Length i) div 512" for j
      using set_bits_nth [OF bm] that len by simp
    fix c :: contents and k
    assume k: "k < unat (ir_Length i)" "c (?A + int k) = rw_Buffer a ! k"
    have kL: "int k < ?L" using k(1) by (metis of_nat_less_iff uint_nat)
    have at: "buf ! k = (if nat (part_start i it) \<le> k \<and> k < nat (part_start i it) + nat (part_length i it)
        then case_option [] id (it_Buffer it) ! (nat (part_start i it + ?A - ?B) + (k - nat (part_start i it)))
        else c (?A + int k))"
      using copy_memory_nth [OF buf, of k] k len by simp
    show "rw_Buffer ?b ! k = apply_item it c (?A + int k)"
    proof (cases "is_write it")
      case True
      then obtain pay where pay: "it_Buffer it = Some pay" "length pay = unat (it_Length it)"
        using wf_item_write [OF assms(2)] by blast
      have inside: "(nat (part_start i it) \<le> k \<and> k < nat (part_start i it) + nat (part_length i it))
          \<longleftrightarrow> (?B \<le> ?A + int k \<and> ?A + int k < ?B + ?M)"
        using kL ov unfolding part_start_def part_length_def by linarith
      have idx: "nat (part_start i it + ?A - ?B) + (k - nat (part_start i it)) = nat (?A + int k - ?B)"
        if "?B \<le> ?A + int k"
        using that unfolding part_start_def by linarith
      show ?thesis
        using True pay at idx inside
        by (cases "?B \<le> ?A + int k") (simp_all add: apply_item_def is_write_def write_bytes_def)
    next
      case False
      then have "?M = 0" "?B = 0"
        using assms(2) ov(3) by (auto simp: wf_item_def is_write_def split: option.splits)
      then have "nat (part_length i it) = 0" using ov unfolding part_length_def by linarith
      with at have "buf ! k = c (?A + int k)" by (auto split: if_splits)
      with False show ?thesis by (auto simp: apply_item_def is_write_def)
    qed
  qed
qed

subsection \<open>The whole walk\<close>

lemma no_overlap_no_effect:
  assumes "wf_read i" "wf_item it" "\<not> overlaps i it" "k < unat (ir_Length i)"
  shows "apply_item it c (sint (ir_ByteOffset i) + int k) = c (sint (ir_ByteOffset i) + int k)"
proof -
  have "int k < uint (ir_Length i)" using assms(4) by (metis of_nat_less_iff uint_nat)
  then have "\<not> covers it (sint (ir_ByteOffset i) + int k)"
    using assms(1-3) by (auto simp: overlaps_iff covers_def is_write_def)
  then show ?thesis using assms(2) by (simp add: apply_covers)
qed

lemma walk_overlay:
  assumes "wf_read i" "list_all wf_item q" "wf_walk i a"
  shows "\<exists>b. walk_queue i q a = Some b \<and> wf_walk i b \<and>
     rw_Any b = (rw_Any a \<or> list_ex (overlaps i) q) \<and>
     (\<forall>c k. k < unat (ir_Length i) \<longrightarrow> c (sint (ir_ByteOffset i) + int k) = rw_Buffer a ! k \<longrightarrow>
        rw_Buffer b ! k = overlay q c (sint (ir_ByteOffset i) + int k))"
  using assms(2,3)
proof (induction q arbitrary: a)
  case Nil
  then show ?case by simp
next
  case (Cons it q)
  let ?A = "sint (ir_ByteOffset i)"
  show ?case
  proof (cases "overlaps i it")
    case True
    from Cons.prems have wf: "wf_item it" by simp
    obtain a1 where a1: "copy_item i it a = Some a1" "wf_walk i a1" "rw_Any a1"
      and buf: "\<And>c k. k < unat (ir_Length i) \<Longrightarrow> c (?A + int k) = rw_Buffer a ! k \<Longrightarrow>
           rw_Buffer a1 ! k = apply_item it c (?A + int k)"
      by (rule copy_item_effect [OF assms(1) wf True Cons.prems(2)]) blast
    from Cons.IH [OF _ a1(2)] Cons.prems(1) obtain b where b:
      "walk_queue i q a1 = Some b" "wf_walk i b" "rw_Any b = (rw_Any a1 \<or> list_ex (overlaps i) q)"
      "\<And>c k. k < unat (ir_Length i) \<Longrightarrow> c (?A + int k) = rw_Buffer a1 ! k \<Longrightarrow>
        rw_Buffer b ! k = overlay q c (?A + int k)"
      by auto
    have fin: "rw_Buffer b ! k = overlay (it # q) c (?A + int k)"
      if "k < unat (ir_Length i)" "c (?A + int k) = rw_Buffer a ! k" for c k
    proof -
      have "apply_item it c (?A + int k) = rw_Buffer a1 ! k" using buf [of k c, OF that] by simp
      from b(4) [of k "apply_item it c", OF that(1) this] show ?thesis by simp
    qed
    have "walk_queue i (it # q) a = Some b \<and> wf_walk i b \<and>
        rw_Any b = (rw_Any a \<or> list_ex (overlaps i) (it # q))"
      using a1(1,3) b(1-3) True by simp
    with fin show ?thesis by blast
  next
    case False
    from Cons.IH [OF _ Cons.prems(2)] Cons.prems(1) obtain b where b:
      "walk_queue i q a = Some b" "wf_walk i b" "rw_Any b = (rw_Any a \<or> list_ex (overlaps i) q)"
      "\<And>c k. k < unat (ir_Length i) \<Longrightarrow> c (?A + int k) = rw_Buffer a ! k \<Longrightarrow>
        rw_Buffer b ! k = overlay q c (?A + int k)"
      by auto
    have fin: "rw_Buffer b ! k = overlay (it # q) c (?A + int k)"
      if "k < unat (ir_Length i)" "c (?A + int k) = rw_Buffer a ! k" for c k
    proof -
      have "apply_item it c (?A + int k) = rw_Buffer a ! k"
        using no_overlap_no_effect [OF assms(1) _ False that(1), of c] that Cons.prems(1) by simp
      from b(4) [of k "apply_item it c", OF that(1) this] show ?thesis by simp
    qed
    have "walk_queue i (it # q) a = Some b \<and> wf_walk i b \<and>
        rw_Any b = (rw_Any a \<or> list_ex (overlaps i) (it # q))"
      using b(1-3) False by simp
    with fin show ?thesis by blast
  qed
qed

subsection \<open>Sectors\<close>

lemma and_sector_mask:
  "(x :: LONGLONG) AND 0x1FF = 0 \<longleftrightarrow> sint x mod 512 = 0"
  "(n :: ULONG) AND 0x1FF = 0 \<longleftrightarrow> uint n mod 512 = 0"
proof -
  have "x AND 0x1FF = take_bit 9 x"
    by (simp add: take_bit_eq_mask mask_eq_decr_exp)
  then have "x AND 0x1FF = 0 \<longleftrightarrow> uint (take_bit 9 x) = 0" by (simp add: unsigned_eq_0_iff)
  also have "uint (take_bit 9 x) = take_bit 9 (take_bit 64 (sint x))"
    using uint_sint [of x] by (simp add: unsigned_take_bit_eq)
  also have "\<dots> = take_bit 9 (sint x)" by (simp add: take_bit_take_bit)
  also have "\<dots> = sint x mod 512" by (simp add: take_bit_eq_mod)
  finally show "x AND 0x1FF = 0 \<longleftrightarrow> sint x mod 512 = 0" .
  have "n AND 0x1FF = take_bit 9 n"
    by (simp add: take_bit_eq_mask mask_eq_decr_exp)
  then have "n AND 0x1FF = 0 \<longleftrightarrow> uint (take_bit 9 n) = 0" by (simp add: unsigned_eq_0_iff)
  also have "uint (take_bit 9 n) = uint n mod 512" by (simp only: unsigned_take_bit_eq) (simp add: take_bit_eq_mod)
  finally show "n AND 0x1FF = 0 \<longleftrightarrow> uint n mod 512 = 0" .
qed

text \<open>A queued write of whole sectors, which is all \<open>QCacheWrite\<close> is normally given.\<close>

definition whole_sectors :: "LONGLONG \<Rightarrow> ULONG \<Rightarrow> bool" where
  "whole_sectors off n \<longleftrightarrow> off AND 0x1FF = 0 \<and> n AND 0x1FF = 0"

definition sector_item :: "WRITE_QUEUE_ITEM \<Rightarrow> bool" where
  "sector_item it \<longleftrightarrow> (is_write it \<longrightarrow> whole_sectors (it_Offset it) (it_Length it))"

lemma sector_le:
  "512 * y \<le> 512 * x + int k \<longleftrightarrow> y \<le> x + int (k div 512)"
  "512 * x + int k < 512 * y \<longleftrightarrow> x + int (k div 512) < y"
proof -
  define d r where "d = int (k div 512)" and "r = int (k mod 512)"
  have "int k = 512 * d + r"
    unfolding d_def r_def by (metis mult_div_mod_eq of_nat_add of_nat_mult of_nat_numeral)
  moreover have "0 \<le> r" "r < 512" by (simp_all add: r_def)
  ultimately show "512 * y \<le> 512 * x + int k \<longleftrightarrow> y \<le> x + int (k div 512)"
    and "512 * x + int k < 512 * y \<longleftrightarrow> x + int (k div 512) < y"
    unfolding d_def [symmetric] by (intro iffI; linarith)+
qed

lemma nat_sector: "nat (512 * u) div 512 = nat u"
  by (simp add: nat_mult_distrib)

lemma covers_sector:
  assumes "sector_item it" "sint (ir_ByteOffset i) mod 512 = 0"
  shows "covers it (sint (ir_ByteOffset i) + int k) \<longleftrightarrow>
         covers it (sint (ir_ByteOffset i) + 512 * int (k div 512))"
proof (cases "is_write it")
  case True
  then have "sint (it_Offset it) mod 512 = 0" "uint (it_Length it) mod 512 = 0"
    using assms(1) by (simp_all add: sector_item_def whole_sectors_def and_sector_mask)
  then obtain x y z where eqs: "sint (ir_ByteOffset i) = 512 * x" "sint (it_Offset it) = 512 * y"
    "uint (it_Length it) = 512 * z"
    using assms(2) by (metis mod_eq_0_iff_dvd dvdE)
  show ?thesis
    using sector_le(1) [of y x k] sector_le(2) [of x k "y + z"] True
    unfolding covers_def eqs by (simp add: distrib_left) linarith
qed (simp add: covers_def)

lemma covered_sector:
  "list_all sector_item q \<Longrightarrow> sint (ir_ByteOffset i) mod 512 = 0 \<Longrightarrow>
   covered q (sint (ir_ByteOffset i) + int k) \<longleftrightarrow>
   covered q (sint (ir_ByteOffset i) + 512 * int (k div 512))"
  by (induction q) (simp_all add: covers_sector)

lemma item_bits:
  assumes "wf_read i" "wf_item it" "overlaps i it" "sector_item it"
    and "sint (ir_ByteOffset i) mod 512 = 0" "uint (ir_Length i) mod 512 = 0"
    and "j < unat (ir_Length i) div 512"
  shows "nat (part_start i it) div 512 \<le> j \<and>
             j < nat (part_start i it) div 512 + nat (part_length i it) div 512
         \<longleftrightarrow> covers it (sint (ir_ByteOffset i) + 512 * int j)"
proof -
  let ?A = "sint (ir_ByteOffset i)" and ?L = "uint (ir_Length i)"
  let ?B = "sint (it_Offset it)" and ?M = "uint (it_Length it)"
  have ov: "?B < ?A + ?L" "?A < ?B + ?M" "it_MajorFunction it = IRP_MJ_WRITE"
    using assms(1-3) by (simp_all add: overlaps_iff)
  have "?B mod 512 = 0 \<and> ?M mod 512 = 0"
  proof (cases "is_write it")
    case True
    with assms(4) show ?thesis by (simp add: sector_item_def whole_sectors_def and_sector_mask)
  next
    case False
    then show ?thesis
      using assms(2) ov(3) by (auto simp: wf_item_def is_write_def split: option.splits)
  qed
  then obtain x y z l where eqs: "?A = 512 * x" "?B = 512 * y" "?M = 512 * z" "?L = 512 * l"
    using assms(5,6) by (auto simp only: mod_eq_0_iff_dvd dvd_def)
  have s: "nat (part_start i it) div 512 = nat (max y x - x)"
  proof -
    have "part_start i it = 512 * (max y x - x)" by (simp add: part_start_def eqs max_def)
    then show ?thesis by (simp only: nat_sector)
  qed
  have n: "nat (part_length i it) div 512 = nat (min (y + z) (x + l) - max y x)"
  proof -
    have "part_length i it = 512 * (min (y + z) (x + l) - max y x)"
      by (simp add: part_length_def eqs max_def min_def)
    then show ?thesis by (simp only: nat_sector)
  qed
  have jl: "int j < l"
  proof -
    have "int (unat (ir_Length i) div 512) = l" using eqs(4) by (simp add: zdiv_int)
    with assms(7) show ?thesis by linarith
  qed
  show ?thesis
  proof (cases "is_write it")
    case True
    then have "covers it (?A + 512 * int j) \<longleftrightarrow> y \<le> x + int j \<and> x + int j < y + z"
      unfolding covers_def eqs by auto
    moreover have "y < x + l" "x < y + z" using ov eqs by auto
    ultimately show ?thesis using jl unfolding s n by linarith
  next
    case False
    then have "z = 0" "y = 0"
      using assms(2) ov(3) eqs by (auto simp: wf_item_def is_write_def split: option.splits)
    moreover have "\<not> covers it (?A + 512 * int j)" using False by (simp add: covers_def)
    ultimately show ?thesis using ov eqs unfolding s n by auto
  qed
qed

lemma no_overlap_no_bits:
  assumes "wf_read i" "wf_item it" "\<not> overlaps i it" "j < unat (ir_Length i) div 512"
  shows "\<not> covers it (sint (ir_ByteOffset i) + 512 * int j)"
proof -
  have "int (512 * j) < uint (ir_Length i)"
  proof -
    have "512 * j < unat (ir_Length i)" using assms(4) by linarith
    then show ?thesis by (metis of_nat_less_iff uint_nat)
  qed
  then show ?thesis
    using assms(1-3) by (auto simp: overlaps_iff covers_def is_write_def)
qed

lemma walk_bits:
  assumes "wf_read i" "sint (ir_ByteOffset i) mod 512 = 0" "uint (ir_Length i) mod 512 = 0"
    and "list_all wf_item q" "list_all sector_item q" "wf_walk i a" "walk_queue i q a = Some b"
    and "j < unat (ir_Length i) div 512"
  shows "rw_Bitmap b ! j \<longleftrightarrow> rw_Bitmap a ! j \<or> covered q (sint (ir_ByteOffset i) + 512 * int j)"
  using assms(4-7)
proof (induction q arbitrary: a)
  case Nil
  then show ?case by simp
next
  case (Cons it q)
  show ?case
  proof (cases "overlaps i it")
    case True
    have wf: "wf_item it" using Cons.prems(1) by simp
    obtain a1 where a1: "copy_item i it a = Some a1" "wf_walk i a1"
      and bits: "\<And>j. j < unat (ir_Length i) div 512 \<Longrightarrow>
           rw_Bitmap a1 ! j = (nat (part_start i it) div 512 \<le> j \<and>
             j < nat (part_start i it) div 512 + nat (part_length i it) div 512 \<or> rw_Bitmap a ! j)"
      by (rule copy_item_effect [OF assms(1) wf True Cons.prems(3)]) blast
    have "rw_Bitmap a1 ! j \<longleftrightarrow> covers it (sint (ir_ByteOffset i) + 512 * int j) \<or> rw_Bitmap a ! j"
      using bits [OF assms(8)] item_bits [OF assms(1) wf True _ assms(2,3,8)] Cons.prems(2) by simp
    moreover have "rw_Bitmap b ! j \<longleftrightarrow> rw_Bitmap a1 ! j \<or> covered q (sint (ir_ByteOffset i) + 512 * int j)"
      using Cons a1 True by simp
    ultimately show ?thesis by auto
  next
    case False
    then have "rw_Bitmap b ! j \<longleftrightarrow> rw_Bitmap a ! j \<or> covered q (sint (ir_ByteOffset i) + 512 * int j)"
      using Cons by simp
    with False show ?thesis
      using no_overlap_no_bits [OF assms(1) _ False assms(8)] Cons.prems(1) by simp
  qed
qed

subsection \<open>What the extent checks establish\<close>

text \<open>
  A request that passes the check starts before the end of the device, ends after position 0
  and not past the end of the device, and its end was computed without wrap-around. Nothing is
  said about the sign of the start.
\<close>

lemma within_media:
  assumes "\<not> beyond_media s i"
  shows "wf_extent (ir_ByteOffset i) (ir_Length i)"
    and "sint (ir_ByteOffset i) < sint (Size s)"
    and "0 < sint (ir_ByteOffset i) + uint (ir_Length i)"
    and "sint (ir_ByteOffset i) + uint (ir_Length i) \<le> sint (Size s)"
proof -
  have b: "sint (ir_ByteOffset i) < sint (Size s)" "0 < sint (ir_ByteOffset i + ucast (ir_Length i))"
    "sint (ir_ByteOffset i + ucast (ir_Length i)) \<le> sint (Size s)"
    using assms by (simp_all add: beyond_media_def Let_def word_sle_eq word_sless_alt)
  then show e: "wf_extent (ir_ByteOffset i) (ir_Length i)" by (simp add: wf_extent_def)
  show "sint (ir_ByteOffset i) < sint (Size s)" by (rule b(1))
  show "0 < sint (ir_ByteOffset i) + uint (ir_Length i)"
    and "sint (ir_ByteOffset i) + uint (ir_Length i) \<le> sint (Size s)"
    using b extent_exact [OF e] by simp_all
qed

lemma not_misaligned:
  assumes "\<not> misaligned i"
  shows "sint (ir_ByteOffset i) mod 512 = 0" "uint (ir_Length i) mod 512 = 0"
  using assms by (simp_all add: misaligned_def and_sector_mask)

end
