(* ===== verification/QC_Scatter.thy ===== *)
theory QC_Scatter
  imports QC_Partial
begin

section \<open>Split transfers complete exactly once\<close>

text \<open>
  The life of a \<open>SCATTERED_IRP\<close>. Its count is the creator's count plus one for every lower
  request that is still out; every buffer a lower request fills is large enough; the bytes
  reported so far and the bytes still out never exceed the original request. These facts hold
  after \<open>Create\<close>, are kept by \<open>BuildIrp\<close> and by every completion in any order, and make
  the destruction of the object fault-free. On top of them, \<open>pending_read\<close> follows the
  contents: once honest answers to all lower requests are in, the original buffer holds the
  bytes it should.
\<close>

subsection \<open>Shape\<close>

definition fits :: "SCATTERED_IRP \<Rightarrow> lower_irp \<Rightarrow> bool" where
  "fits sc lo =
     (let n = unat (lo_Length lo); i = sc_OriginalIrp sc in
      case lo_Target lo of
        OriginalMdl t \<Rightarrow> t + n \<le> length (ir_Buffer i)
      | SystemBuf t \<Rightarrow>
          (case sc_SystemBuffer sc of
             NoBuffer \<Rightarrow> False
           | MdlMapping \<Rightarrow> t + n \<le> length (ir_Buffer i)
           | AssociatedBuffer \<Rightarrow> t + n \<le> length (ir_SystemBuffer i))
      | AllocBuf t \<Rightarrow> (case sc_AllocatedBuffer sc of None \<Rightarrow> False | Some a \<Rightarrow> t + n \<le> length a))"

definition claimed :: "SCATTERED_IRP \<Rightarrow> nat" where
  "claimed sc = unat (sc_BytesCompleted sc) + sum_list (map (unat \<circ> lo_Length) (sc_Outstanding sc))"

definition scatter_buffers :: "SCATTERED_IRP \<Rightarrow> bool" where
  "scatter_buffers sc \<longleftrightarrow>
     (let n = unat (ir_Length (sc_OriginalIrp sc)) in
      length (ir_Buffer (sc_OriginalIrp sc)) = n \<and>
      (has_flag (sc_OriginalFlags sc) DO_BUFFERED_IO \<longrightarrow> sc_SystemBuffer sc = AssociatedBuffer) \<and>
      (sc_SystemBuffer sc = AssociatedBuffer \<longrightarrow> n \<le> length (ir_SystemBuffer (sc_OriginalIrp sc))) \<and>
      (case sc_AllocatedBuffer sc of None \<Rightarrow> True | Some a \<Rightarrow> length a = n) \<and>
      (sc_CopyBack sc \<longrightarrow> sc_SystemBuffer sc = MdlMapping \<and> sc_AllocatedBuffer sc \<noteq> None))"

text \<open>\<open>held\<close> is the number of counts held by the creator: 1 until it calls \<open>Complete\<close>.\<close>

definition scatter_wf :: "nat \<Rightarrow> SCATTERED_IRP \<Rightarrow> bool" where
  "scatter_wf held sc \<longleftrightarrow>
     sc_ScatterCount sc = of_nat (held + length (sc_Outstanding sc)) \<and>
     length (sc_Outstanding sc) \<le> 2 ^ 23 \<and>
     list_all (fits sc) (sc_Outstanding sc) \<and> scatter_buffers sc \<and>
     claimed sc \<le> unat (ir_Length (sc_OriginalIrp sc))"

definition answer_fits :: "lower_irp \<Rightarrow> answer \<Rightarrow> bool" where
  "answer_fits lo a \<longleftrightarrow> length (an_Data a) \<le> unat (lo_Length lo) \<and>
     unat (an_Information a) \<le> unat (lo_Length lo)"

lemma copy_memory_some:
  "d + n \<le> length dst \<Longrightarrow> s + n \<le> length src \<Longrightarrow> \<exists>r. RtlCopyMemory dst d src s n = Some r \<and> length r = length dst"
  by (auto simp: RtlCopyMemory_def)

text \<open>Delivering data changes the contents of buffers and nothing else.\<close>

definition same_shape :: "SCATTERED_IRP \<Rightarrow> SCATTERED_IRP \<Rightarrow> bool" where
  "same_shape sc sc' \<longleftrightarrow>
     ir_id (sc_OriginalIrp sc') = ir_id (sc_OriginalIrp sc) \<and>
     ir_Length (sc_OriginalIrp sc') = ir_Length (sc_OriginalIrp sc) \<and>
     length (ir_Buffer (sc_OriginalIrp sc')) = length (ir_Buffer (sc_OriginalIrp sc)) \<and>
     length (ir_SystemBuffer (sc_OriginalIrp sc')) = length (ir_SystemBuffer (sc_OriginalIrp sc)) \<and>
     sc_OriginalFlags sc' = sc_OriginalFlags sc \<and> sc_ScatterCount sc' = sc_ScatterCount sc \<and>
     sc_LastFailedStatus sc' = sc_LastFailedStatus sc \<and>
     sc_BytesCompleted sc' = sc_BytesCompleted sc \<and> sc_SystemBuffer sc' = sc_SystemBuffer sc \<and>
     map_option length (sc_AllocatedBuffer sc') = map_option length (sc_AllocatedBuffer sc) \<and>
     sc_CopyBack sc' = sc_CopyBack sc \<and> sc_Outstanding sc' = sc_Outstanding sc"

lemma same_shape_wf:
  assumes "same_shape sc sc'"
  shows "fits sc' lo = fits sc lo" "scatter_buffers sc' = scatter_buffers sc"
    "claimed sc' = claimed sc"
  using assms
  by (auto simp: same_shape_def fits_def scatter_buffers_def claimed_def Let_def
      split: target.split system_buffer.split option.splits)

lemma deliver_shape:
  assumes "fits sc lo" "length data \<le> unat (lo_Length lo)"
  shows "\<exists>sc'. deliver (lo_Target lo) data sc = Some sc' \<and> same_shape sc sc'"
proof -
  have into: "\<exists>r. RtlCopyMemory dst t data 0 (length data) = Some r \<and> length r = length dst"
    if "t + unat (lo_Length lo) \<le> length dst" for dst t
    using that assms(2) by (intro copy_memory_some) simp_all
  show ?thesis
  proof (cases "lo_Target lo")
    case (OriginalMdl t)
    with assms into [of t "ir_Buffer (sc_OriginalIrp sc)"] show ?thesis
      by (auto simp: fits_def deliver_def same_shape_def Let_def)
  next
    case (SystemBuf t)
    with assms into [of t "ir_Buffer (sc_OriginalIrp sc)"] into [of t "ir_SystemBuffer (sc_OriginalIrp sc)"]
    show ?thesis
      by (cases "sc_SystemBuffer sc") (auto simp: fits_def deliver_def same_shape_def Let_def)
  next
    case (AllocBuf t)
    with assms obtain a where a: "sc_AllocatedBuffer sc = Some a" "t + unat (lo_Length lo) \<le> length a"
      by (auto simp: fits_def split: option.splits)
    with AllocBuf into [OF a(2)] show ?thesis
      by (auto simp: deliver_def same_shape_def Let_def)
  qed
qed

subsection \<open>One lower request completes\<close>

lemma claimed_remove:
  "lo \<in> set los \<Longrightarrow>
   sum_list (map (unat \<circ> lo_Length) los) =
     unat (lo_Length lo) + sum_list (map (unat \<circ> lo_Length) (remove1 lo los))"
  using sum_list_map_remove1 [of lo los "unat \<circ> lo_Length"] by simp

lemma scatter_fields [simp]:
  "fits (drop_count sc) lo = fits sc lo" "fits (sc\<lparr>sc_Outstanding := los\<rparr>) lo = fits sc lo"
  "fits (IrpCompletionRoutine a sc) lo = fits sc lo"
  "scatter_buffers (drop_count sc) = scatter_buffers sc"
  "scatter_buffers (sc\<lparr>sc_Outstanding := los\<rparr>) = scatter_buffers sc"
  "scatter_buffers (IrpCompletionRoutine a sc) = scatter_buffers sc"
  "claimed (drop_count sc) = claimed sc"
  "sc_ScatterCount (drop_count sc) = sc_ScatterCount sc - 1"
  "sc_OriginalIrp (drop_count sc) = sc_OriginalIrp sc"
  "sc_Outstanding (drop_count sc) = sc_Outstanding sc"
  "sc_LastFailedStatus (drop_count sc) = sc_LastFailedStatus sc"
  "sc_BytesCompleted (drop_count sc) = sc_BytesCompleted sc"
  "sc_CopyBack (drop_count sc) = sc_CopyBack sc"
  "sc_CopyBack (IrpCompletionRoutine a sc) = sc_CopyBack sc"
  "sc_OriginalIrp (IrpCompletionRoutine a sc) = sc_OriginalIrp sc"
  "sc_Outstanding (IrpCompletionRoutine a sc) = sc_Outstanding sc"
  "sc_ScatterCount (IrpCompletionRoutine a sc) = sc_ScatterCount sc"
  by (simp_all add: drop_count_def IrpCompletionRoutine_def fits_def scatter_buffers_def claimed_def
      Let_def split: target.split system_buffer.split option.split)

lemma bytes_completed:
  assumes "unat (sc_BytesCompleted sc) + unat (an_Information a) < 18446744073709551616"
  shows "unat (sc_BytesCompleted (IrpCompletionRoutine a sc)) =
     (if NT_SUCCESS (an_Status a) then unat (sc_BytesCompleted sc) + unat (an_Information a)
      else unat (sc_BytesCompleted sc))"
  using assms by (simp add: IrpCompletionRoutine_def unat_plus_if')

lemma scatter_claim_small:
  "scatter_wf held sc \<Longrightarrow> claimed sc < 4294967296"
proof -
  assume "scatter_wf held sc"
  moreover have "int (unat n) < int 4294967296" for n :: ULONG
    using uint_range32 [of n] by simp
  ultimately show ?thesis
    unfolding scatter_wf_def by (metis of_nat_less_iff le_less_trans)
qed

lemma lower_done_claim:
  assumes "scatter_wf held sc" "lo \<in> set (sc_Outstanding sc)" "answer_fits lo a"
  defines "sc1 \<equiv> (IrpCompletionRoutine a sc)\<lparr>sc_Outstanding := remove1 lo (sc_Outstanding sc)\<rparr>"
  shows "claimed sc1 \<le> claimed sc"
    and "NT_SUCCESS (an_Status a) \<Longrightarrow> unat (an_Information a) = unat (lo_Length lo) \<Longrightarrow>
         claimed sc1 = claimed sc"
proof -
  have "unat (an_Information a) \<le> unat (lo_Length lo)"
    using assms(3) by (simp add: answer_fits_def)
  moreover have "claimed sc < 4294967296" using assms(1) by (rule scatter_claim_small)
  moreover note claimed_remove [OF assms(2)]
  ultimately show "claimed sc1 \<le> claimed sc"
    and "NT_SUCCESS (an_Status a) \<Longrightarrow> unat (an_Information a) = unat (lo_Length lo) \<Longrightarrow>
         claimed sc1 = claimed sc"
    by (simp_all add: sc1_def claimed_def bytes_completed)
qed

lemma lower_done_wf:
  assumes "scatter_wf held sc" "lo \<in> set (sc_Outstanding sc)" "answer_fits lo a"
  shows "\<exists>sc'. lower_done lo a sc = Some sc' \<and> scatter_wf held sc' \<and>
     sc_Outstanding sc' = remove1 lo (sc_Outstanding sc) \<and>
     ir_id (sc_OriginalIrp sc') = ir_id (sc_OriginalIrp sc) \<and>
     ir_Length (sc_OriginalIrp sc') = ir_Length (sc_OriginalIrp sc) \<and>
     sc_LastFailedStatus sc' =
       (if NT_SUCCESS (an_Status a) then sc_LastFailedStatus sc else an_Status a) \<and>
     claimed sc' \<le> claimed sc"
proof -
  have f: "fits sc lo" "length (an_Data a) \<le> unat (lo_Length lo)"
    using assms by (auto simp: scatter_wf_def list_all_iff answer_fits_def)
  from deliver_shape [OF f] obtain s1 where
    s1: "deliver (lo_Target lo) (an_Data a) sc = Some s1" "same_shape sc s1"
    by blast
  let ?los = "remove1 lo (sc_Outstanding sc)"
  let ?s2 = "(IrpCompletionRoutine a s1)\<lparr>sc_Outstanding := ?los\<rparr>"
  note sh = same_shape_wf [OF s1(2)]
  have out: "sc_Outstanding s1 = sc_Outstanding sc" and cnt: "sc_ScatterCount s1 = sc_ScatterCount sc"
    and len: "ir_Length (sc_OriginalIrp s1) = ir_Length (sc_OriginalIrp sc)"
    and lf: "sc_LastFailedStatus s1 = sc_LastFailedStatus sc"
    and idn: "ir_id (sc_OriginalIrp s1) = ir_id (sc_OriginalIrp sc)"
    using s1(2) by (simp_all add: same_shape_def)
  have wf1: "scatter_wf held s1"
    using assms(1) sh by (simp add: scatter_wf_def out cnt len list_all_iff)
  have cl1: "claimed ?s2 \<le> claimed s1"
    using lower_done_claim(1) [OF wf1, of lo a] assms(2,3) by (simp add: out)
  with wf1 have cl: "claimed ?s2 \<le> unat (ir_Length (sc_OriginalIrp sc))"
    by (simp add: scatter_wf_def len)
  obtain m where m: "length (sc_Outstanding sc) = Suc m"
    using assms(2) by (cases "sc_Outstanding sc") auto
  have "scatter_wf held (drop_count ?s2)"
    using wf1 cl assms(2) m out cnt len
    by (auto simp: scatter_wf_def length_remove1 list_all_iff dest: notin_set_remove1)
  moreover have "lower_done lo a sc = Some (drop_count ?s2)"
    by (simp add: lower_done_def s1 out)
  ultimately show ?thesis
    using len idn lf cl1 sh(3) by (auto simp: IrpCompletionRoutine_def claimed_def)
qed

subsection \<open>The last count\<close>

lemma scatter_result_some:
  assumes "scatter_wf 0 sc"
  shows "\<exists>i. scatter_result sc = Some i \<and> ir_id i = ir_id (sc_OriginalIrp sc) \<and>
     ir_Status i = sc_LastFailedStatus sc \<and>
     ir_Information i = (if NT_SUCCESS (sc_LastFailedStatus sc) then sc_BytesCompleted sc else 0) \<and>
     (\<not> sc_CopyBack sc \<longrightarrow> ir_Buffer i = ir_Buffer (sc_OriginalIrp sc))"
proof -
  have b: "scatter_buffers sc" "unat (sc_BytesCompleted sc) \<le> unat (ir_Length (sc_OriginalIrp sc))"
    using assms by (simp_all add: scatter_wf_def claimed_def)
  show ?thesis
  proof (cases "sc_CopyBack sc \<and> NT_SUCCESS (sc_LastFailedStatus sc)")
    case True
    then obtain a where a: "sc_SystemBuffer sc = MdlMapping" "sc_AllocatedBuffer sc = Some a"
      "length a = unat (ir_Length (sc_OriginalIrp sc))"
      using b(1) by (auto simp: scatter_buffers_def Let_def)
    have "\<exists>r. RtlCopyMemory (ir_Buffer (sc_OriginalIrp sc)) 0 a 0 (unat (sc_BytesCompleted sc)) = Some r \<and>
            length r = length (ir_Buffer (sc_OriginalIrp sc))"
      using a(3) b by (intro copy_memory_some) (simp_all add: scatter_buffers_def Let_def)
    with True a(1,2) show ?thesis by (auto simp: scatter_result_def copy_back_def)
  next
    case False
    then show ?thesis by (auto simp: scatter_result_def copy_back_def)
  qed
qed

lemma of_nat_count_zero: "n \<le> 8388609 \<Longrightarrow> (of_nat n :: LONG) = 0 \<longleftrightarrow> n = 0"
  by (auto simp: word_of_nat_eq_0_iff dest: dvd_imp_le)

lemma scatter_count_zero:
  "scatter_wf 0 sc \<Longrightarrow> sc_ScatterCount sc = 0 \<longleftrightarrow> sc_Outstanding sc = []"
  using of_nat_count_zero [of "length (sc_Outstanding sc)"] by (simp add: scatter_wf_def)

lemma scatter_count_held:
  "scatter_wf (Suc 0) sc \<Longrightarrow> sc_ScatterCount sc \<noteq> 0"
  using of_nat_count_zero [of "Suc (length (sc_Outstanding sc))"] by (simp add: scatter_wf_def)

lemma drop_creator: "scatter_wf (Suc 0) sc \<Longrightarrow> scatter_wf 0 (drop_count sc)"
  by (simp add: scatter_wf_def list_all_iff)

text \<open>The live scatter objects of a device all wait for at least one lower request.\<close>

definition scatters_ok :: "'d world \<Rightarrow> bool" where
  "scatters_ok w \<longleftrightarrow> list_all (\<lambda>sc. scatter_wf 0 sc \<and> sc_Outstanding sc \<noteq> []) (Scatters w)"

lemma settle_wf:
  assumes "scatter_wf 0 sc" "scatters_ok w"
  shows "\<exists>w'. settle sc w = Some w' \<and> scatters_ok w' \<and>
     owned w' = add_mset (ir_id (sc_OriginalIrp sc)) (owned w) \<and>
     length (Completed w') = length (Completed w) + (if sc_Outstanding sc = [] then 1 else 0)"
proof (cases "sc_Outstanding sc = []")
  case True
  obtain i where i: "scatter_result sc = Some i" "ir_id i = ir_id (sc_OriginalIrp sc)"
    using scatter_result_some [OF assms(1)] by blast
  with True assms show ?thesis
    by (simp add: settle_def scatter_count_zero scatter_destroy_def scatters_ok_def qc_simps owned_def)
next
  case False
  with assms show ?thesis
    by (simp add: settle_def scatter_count_zero scatters_ok_def owned_def)
qed

text \<open>
  Every answer to an outstanding lower read, successful or failed, keeps the reference
  counts and buffers of the scatter objects consistent, and the original request is completed
  exactly when the last outstanding lower read is answered.
\<close>

theorem lower_read_complete:
  assumes "scatters_ok w" "n < length (Scatters w)" "lo \<in> set (sc_Outstanding (Scatters w ! n))"
    and "answer_fits lo a"
  shows "\<exists>w'. LowerReadComplete n lo a w = Some w' \<and> scatters_ok w' \<and> owned w' = owned w \<and>
     length (Completed w') =
       length (Completed w) + (if sc_Outstanding (Scatters w ! n) = [lo] then 1 else 0)"
proof -
  let ?sc = "Scatters w ! n"
  let ?w = "w\<lparr>Scatters := take n (Scatters w) @ drop (Suc n) (Scatters w)\<rparr>"
  have split: "Scatters w = take n (Scatters w) @ ?sc # drop (Suc n) (Scatters w)"
    using assms(2) by (rule id_take_nth_drop)
  have wf: "scatter_wf 0 ?sc"
    using assms(1,2) by (simp add: scatters_ok_def list_all_length)
  have ok: "scatters_ok ?w"
    using assms(1) unfolding scatters_ok_def by (subst (asm) split) simp
  have own: "owned w = add_mset (ir_id (sc_OriginalIrp ?sc)) (owned ?w)"
    unfolding owned_def by (subst split) simp
  from lower_done_wf [OF wf assms(3,4)] obtain s where
    s: "lower_done lo a ?sc = Some s" "scatter_wf 0 s" "sc_Outstanding s = remove1 lo (sc_Outstanding ?sc)"
    "ir_id (sc_OriginalIrp s) = ir_id (sc_OriginalIrp ?sc)"
    by blast
  have last: "remove1 lo (sc_Outstanding ?sc) = [] \<longleftrightarrow> sc_Outstanding ?sc = [lo]"
    using assms(3) by (cases "sc_Outstanding ?sc") auto
  from settle_wf [OF s(2) ok] s own last assms(2,3) show ?thesis
    by (auto simp: LowerReadComplete_def)
qed

subsection \<open>Creation and lower requests\<close>

lemma scatter_create_wf:
  assumes "SCATTERED_IRP_Create e flags i sb w = (st, Some sc, w')"
    and "length (ir_Buffer i) = unat (ir_Length i)"
    and "has_flag flags DO_BUFFERED_IO \<longleftrightarrow> sb = AssociatedBuffer" "sb \<noteq> MdlMapping"
    and "sb = AssociatedBuffer \<longrightarrow> unat (ir_Length i) \<le> length (ir_SystemBuffer i)"
  shows "scatter_wf (Suc 0) sc" "sc_OriginalIrp sc = i" "sc_Outstanding sc = []" "claimed sc = 0"
    "sc_LastFailedStatus sc = 0" "\<not> sc_CopyBack sc" "sc_OriginalFlags sc = flags"
    "w' = w\<lparr>ext := (ext w)\<lparr>RemoveLock := Suc (RemoveLock (ext w))\<rparr>\<rparr>"
  using assms
  by (auto simp: SCATTERED_IRP_Create_def IoAcquireRemoveLock_def scatter_wf_def scatter_buffers_def
      claimed_def Let_def split: if_splits)

lemma build_done_wf:
  assumes "scatter_wf (Suc 0) sc" "length (sc_Outstanding sc) < 8388608"
    and "claimed sc + unat bytes \<le> unat (ir_Length (sc_OriginalIrp sc))"
    and "fits sc \<lparr>lo_MajorFunction = mf, lo_ByteOffset = off, lo_Length = bytes, lo_Target = t,
                   lo_Flags = lower_flags mf\<rparr>"
    and "build_done mf bytes off t sc = (r, sc')"
  shows "scatter_wf (Suc 0) sc'" "sc_OriginalIrp sc' = sc_OriginalIrp sc"
    "\<exists>lo. r = Some lo \<and> sc_Outstanding sc' = sc_Outstanding sc @ [lo] \<and> lo_Length lo = bytes \<and>
       lo_ByteOffset lo = off \<and> lo_MajorFunction lo = mf \<and> lo_Target lo = t"
    "sc_LastFailedStatus sc' = sc_LastFailedStatus sc" "claimed sc' = claimed sc + unat bytes"
    "sc_CopyBack sc' = sc_CopyBack sc" "sc_OriginalFlags sc' = sc_OriginalFlags sc"
proof -
  let ?lo = "\<lparr>lo_MajorFunction = mf, lo_ByteOffset = off, lo_Length = bytes, lo_Target = t,
              lo_Flags = lower_flags mf\<rparr>"
  have e: "r = Some ?lo" "sc' = sc\<lparr>sc_ScatterCount := sc_ScatterCount sc + 1,
      sc_Outstanding := sc_Outstanding sc @ [?lo]\<rparr>"
    using assms(5) by (auto simp: build_done_def Let_def)
  have f: "fits sc' = fits sc" "scatter_buffers sc' = scatter_buffers sc"
    unfolding e(2)
    by (auto simp: fits_def scatter_buffers_def Let_def fun_eq_iff
        split: target.split system_buffer.split option.split)
  show cl: "claimed sc' = claimed sc + unat bytes" by (simp add: e(2) claimed_def)
  have "sc_OriginalIrp sc' = sc_OriginalIrp sc" by (simp add: e(2))
  with cl f show "scatter_wf (Suc 0) sc'"
    using assms(1-4) by (simp add: scatter_wf_def) (simp add: e(2))
  show "sc_OriginalIrp sc' = sc_OriginalIrp sc" "sc_LastFailedStatus sc' = sc_LastFailedStatus sc"
    "sc_CopyBack sc' = sc_CopyBack sc" "sc_OriginalFlags sc' = sc_OriginalFlags sc"
    "\<exists>lo. r = Some lo \<and> sc_Outstanding sc' = sc_Outstanding sc @ [lo] \<and> lo_Length lo = bytes \<and>
       lo_ByteOffset lo = off \<and> lo_MajorFunction lo = mf \<and> lo_Target lo = t"
    by (simp_all add: e)
qed

lemma build_failed_wf:
  assumes "scatter_wf (Suc 0) sc" "build_failed sc = (r, sc')"
  shows "scatter_wf (Suc 0) sc'" "r = None" "sc_OriginalIrp sc' = sc_OriginalIrp sc"
    "sc_Outstanding sc' = sc_Outstanding sc" "sc_LastFailedStatus sc' = STATUS_INSUFFICIENT_RESOURCES"
proof -
  have e: "r = None" "sc' = sc\<lparr>sc_LastFailedStatus := STATUS_INSUFFICIENT_RESOURCES\<rparr>"
    using assms(2) by (auto simp: build_failed_def)
  have "fits sc' = fits sc" "scatter_buffers sc' = scatter_buffers sc" "claimed sc' = claimed sc"
    unfolding e(2)
    by (auto simp: fits_def scatter_buffers_def claimed_def Let_def fun_eq_iff
        split: target.split system_buffer.split option.split)
  then show "scatter_wf (Suc 0) sc'" using assms(1) by (simp add: scatter_wf_def) (simp add: e(2))
  show "r = None" "sc_OriginalIrp sc' = sc_OriginalIrp sc" "sc_Outstanding sc' = sc_Outstanding sc"
    "sc_LastFailedStatus sc' = STATUS_INSUFFICIENT_RESOURCES"
    by (simp_all add: e)
qed

lemma map_keep:
  assumes "scatter_wf (Suc 0) sc" "sc_SystemBuffer sc = NoBuffer"
    "\<not> has_flag (sc_OriginalFlags sc) DO_BUFFERED_IO"
    and "a = sc_AllocatedBuffer sc \<and> \<not> c \<or>
         (\<exists>x. a = Some x \<and> length x = unat (ir_Length (sc_OriginalIrp sc)))"
  shows "scatter_wf (Suc 0) (sc\<lparr>sc_SystemBuffer := MdlMapping, sc_AllocatedBuffer := a, sc_CopyBack := c\<rparr>)"
proof -
  let ?sc = "sc\<lparr>sc_SystemBuffer := MdlMapping, sc_AllocatedBuffer := a, sc_CopyBack := c\<rparr>"
  have b: "scatter_buffers sc" using assms(1) by (simp add: scatter_wf_def)
  have "fits ?sc lo" if "fits sc lo" for lo
    using that assms(2,4) b
    by (cases "lo_Target lo") (auto simp: fits_def scatter_buffers_def Let_def split: option.splits)
  moreover have "scatter_buffers ?sc"
    using assms(2-4) b by (auto simp: scatter_buffers_def Let_def split: option.splits)
  ultimately show ?thesis
    using assms(1) by (auto simp: scatter_wf_def list_all_iff claimed_def)
qed

lemma map_system_buffer_wf:
  assumes "scatter_wf (Suc 0) sc" "\<not> has_flag (sc_OriginalFlags sc) DO_BUFFERED_IO"
  shows "\<exists>ok sc'. map_system_buffer b mf sc = Some (ok, sc') \<and> scatter_wf (Suc 0) sc' \<and>
     sc_OriginalIrp sc' = sc_OriginalIrp sc \<and> sc_Outstanding sc' = sc_Outstanding sc \<and>
     sc_LastFailedStatus sc' = sc_LastFailedStatus sc \<and> claimed sc' = claimed sc \<and>
     sc_OriginalFlags sc' = sc_OriginalFlags sc \<and>
     (ok \<longrightarrow> sc_SystemBuffer sc' \<noteq> NoBuffer)"
proof (cases "sc_SystemBuffer sc = NoBuffer")
  case False
  with assms(1) show ?thesis by (auto simp: map_system_buffer_def)
next
  case True
  let ?n = "unat (ir_Length (sc_OriginalIrp sc))"
  have buf: "length (ir_Buffer (sc_OriginalIrp sc)) = ?n" and cb: "\<not> sc_CopyBack sc"
    using assms(1) True by (auto simp: scatter_wf_def scatter_buffers_def Let_def)
  have fin: ?thesis
    if "map_system_buffer b mf sc = Some (ok, sc\<lparr>sc_SystemBuffer := MdlMapping,
          sc_AllocatedBuffer := a, sc_CopyBack := c\<rparr>)"
      "a = sc_AllocatedBuffer sc \<and> \<not> c \<or> (\<exists>x. a = Some x \<and> length x = ?n)" for ok a c
    using that(1) map_keep [OF assms(1) True assms(2) that(2)] by (auto simp: claimed_def)
  have copy: "RtlCopyMemory (replicate ?n 0) 0 (ir_Buffer (sc_OriginalIrp sc)) 0 ?n
      = Some (ir_Buffer (sc_OriginalIrp sc))"
    using buf by (simp add: RtlCopyMemory_def)
  have rec: "sc\<lparr>sc_SystemBuffer := MdlMapping, sc_AllocatedBuffer := a\<rparr> =
      sc\<lparr>sc_SystemBuffer := MdlMapping, sc_AllocatedBuffer := a, sc_CopyBack := False\<rparr>" for a
    using cb by (cases sc) simp
  have rec0: "sc\<lparr>sc_SystemBuffer := MdlMapping\<rparr> = sc\<lparr>sc_SystemBuffer := MdlMapping,
      sc_AllocatedBuffer := sc_AllocatedBuffer sc, sc_CopyBack := False\<rparr>"
    using cb by (cases sc) simp
  consider "\<not> high_priority_mapping b" | "high_priority_mapping b" "\<not> copy_buffer_alloc b"
    | "high_priority_mapping b" "copy_buffer_alloc b" by blast
  then show ?thesis
  proof cases
    case 1
    with True assms(1) show ?thesis by (auto simp: map_system_buffer_def)
  next
    case 2
    then have "map_system_buffer b mf sc = Some (False, sc\<lparr>sc_SystemBuffer := MdlMapping,
        sc_AllocatedBuffer := sc_AllocatedBuffer sc, sc_CopyBack := False\<rparr>)"
      unfolding rec0 [symmetric] using True by (simp add: map_system_buffer_def)
    then show ?thesis by (rule fin) simp
  next
    case 3
    have "\<exists>a c. map_system_buffer b mf sc = Some (True, sc\<lparr>sc_SystemBuffer := MdlMapping,
        sc_AllocatedBuffer := Some a, sc_CopyBack := c\<rparr>) \<and> length a = ?n"
    proof (cases "mf = IRP_MJ_READ")
      case True
      with 3 \<open>sc_SystemBuffer sc = NoBuffer\<close> show ?thesis
        by (intro exI [of _ "replicate ?n 0"] exI [of _ True]) (simp add: map_system_buffer_def Let_def)
    next
      case False
      with 3 \<open>sc_SystemBuffer sc = NoBuffer\<close> show ?thesis
        by (intro exI [of _ "if mf = IRP_MJ_WRITE then ir_Buffer (sc_OriginalIrp sc) else replicate ?n 0"]
            exI [of _ False]) (simp add: map_system_buffer_def Let_def copy buf flip: rec)
    qed
    then show ?thesis using fin by blast
  qed
qed

text \<open>
  \<open>BuildIrp\<close> inside the bounds of the original request never faults; a request it returns
  counts, and fits its buffer.
\<close>

lemma build_irp_wf:
  assumes "scatter_wf (Suc 0) sc" "length (sc_Outstanding sc) < 8388608"
    and "claimed sc + unat bytes \<le> unat (ir_Length (sc_OriginalIrp sc))"
    and "unat off + unat bytes \<le> unat (ir_Length (sc_OriginalIrp sc))"
  shows "\<exists>r sc'. BuildIrp b mf flags off bytes loff sc = Some (r, sc') \<and> scatter_wf (Suc 0) sc' \<and>
     sc_OriginalIrp sc' = sc_OriginalIrp sc \<and>
     (case r of
        None \<Rightarrow> sc_Outstanding sc' = sc_Outstanding sc \<and>
                sc_LastFailedStatus sc' = STATUS_INSUFFICIENT_RESOURCES
      | Some lo \<Rightarrow> sc_Outstanding sc' = sc_Outstanding sc @ [lo] \<and> lo_Length lo = bytes \<and>
                  lo_ByteOffset lo = loff \<and> lo_MajorFunction lo = mf \<and>
                  sc_LastFailedStatus sc' = sc_LastFailedStatus sc \<and>
                  claimed sc' = claimed sc + unat bytes)"
proof -
  have buf: "scatter_buffers sc" using assms(1) by (simp add: scatter_wf_def)
  have fail: ?thesis if "BuildIrp b mf flags off bytes loff sc = Some (build_failed s)"
    "scatter_wf (Suc 0) s" "sc_OriginalIrp s = sc_OriginalIrp sc" "sc_Outstanding s = sc_Outstanding sc" for s
  proof -
    obtain r sc' where e: "build_failed s = (r, sc')" by fastforce
    note w = build_failed_wf [OF that(2) e]
    show ?thesis
      unfolding that(1) e option.inject
      by (intro exI conjI, rule refl) (simp_all add: w that)
  qed
  have ok: ?thesis
    if B: "BuildIrp b mf flags off bytes loff sc = Some (build_done mf bytes loff t s)"
    and s: "scatter_wf (Suc 0) s" "sc_OriginalIrp s = sc_OriginalIrp sc" "sc_Outstanding s = sc_Outstanding sc"
      "sc_LastFailedStatus s = sc_LastFailedStatus sc" "claimed s = claimed sc"
    and t: "\<And>lo. lo_Target lo = t \<Longrightarrow> lo_Length lo = bytes \<Longrightarrow> fits s lo" for s t
  proof -
    obtain r sc' where e: "build_done mf bytes loff t s = (r, sc')" by fastforce
    have "length (sc_Outstanding s) < 8388608"
      "claimed s + unat bytes \<le> unat (ir_Length (sc_OriginalIrp s))"
      using assms s by simp_all
    note w = build_done_wf [OF s(1) this t [where lo = "\<lparr>lo_MajorFunction = mf, lo_ByteOffset = loff,
        lo_Length = bytes, lo_Target = t, lo_Flags = lower_flags mf\<rparr>", simplified] e]
    from w(3) obtain lo where lo: "r = Some lo" "sc_Outstanding sc' = sc_Outstanding sc @ [lo]"
      "lo_Length lo = bytes" "lo_ByteOffset lo = loff" "lo_MajorFunction lo = mf"
      unfolding s(3) by blast
    show ?thesis
      unfolding B e option.inject
      by (intro exI conjI, rule refl) (simp_all add: lo w s)
  qed
  show ?thesis
  proof (cases "has_flag flags DO_DIRECT_IO")
    case True
    show ?thesis
    proof (cases "irp_alloc b \<and> (has_flag (sc_OriginalFlags sc) DO_BUFFERED_IO \<or> partial_mdl_alloc b)")
      case False
      then have "BuildIrp b mf flags off bytes loff sc = Some (build_failed sc)"
        using True by (auto simp: BuildIrp_def)
      then show ?thesis using assms(1) by (rule fail) simp_all
    next
      case ok': True
      let ?t = "if has_flag (sc_OriginalFlags sc) DO_BUFFERED_IO then SystemBuf (unat off)
                else OriginalMdl (unat off)"
      have "BuildIrp b mf flags off bytes loff sc = Some (build_done mf bytes loff ?t sc)"
        using True ok' by (auto simp: BuildIrp_def)
      then show ?thesis using assms(1)
        by (rule ok) (use assms(4) buf in \<open>auto simp: fits_def scatter_buffers_def Let_def split: if_splits\<close>)
    qed
  next
    case False
    show ?thesis
    proof (cases "irp_alloc b")
      case False
      then have "BuildIrp b mf flags off bytes loff sc = Some (build_failed sc)"
        using \<open>\<not> has_flag flags DO_DIRECT_IO\<close> by (auto simp: BuildIrp_def)
      then show ?thesis using assms(1) by (rule fail) simp_all
    next
      case True
      obtain okay s where m: "map_system_buffer b mf sc = Some (okay, s)" "scatter_wf (Suc 0) s"
        "sc_OriginalIrp s = sc_OriginalIrp sc" "sc_Outstanding s = sc_Outstanding sc"
        "sc_LastFailedStatus s = sc_LastFailedStatus sc" "claimed s = claimed sc"
        "okay \<longrightarrow> sc_SystemBuffer s \<noteq> NoBuffer"
      proof (cases "has_flag (sc_OriginalFlags sc) DO_BUFFERED_IO")
        case True
        then have "sc_SystemBuffer sc = AssociatedBuffer"
          using buf by (simp add: scatter_buffers_def Let_def)
        then show thesis using assms(1) by (intro that [of True sc]) (simp_all add: map_system_buffer_def)
      next
        case False
        then show thesis using map_system_buffer_wf [OF assms(1) False] that by blast
      qed
      show ?thesis
      proof (cases okay)
        case False
        then have "BuildIrp b mf flags off bytes loff sc = Some (build_failed s)"
          using True m \<open>\<not> has_flag flags DO_DIRECT_IO\<close> by (auto simp: BuildIrp_def)
        then show ?thesis using m by (intro fail)
      next
        case okay: True
        let ?t = "if sc_AllocatedBuffer s \<noteq> None then AllocBuf (unat off) else SystemBuf (unat off)"
        have B: "BuildIrp b mf flags off bytes loff sc = Some (build_done mf bytes loff ?t s)"
          using True m okay \<open>\<not> has_flag flags DO_DIRECT_IO\<close> by (auto simp: BuildIrp_def)
        have sb: "scatter_buffers s" using m(2) by (simp add: scatter_wf_def)
        from B m(2-6) show ?thesis
          by (rule ok) (use assms(4) m(3,7) okay sb in
              \<open>auto simp: fits_def scatter_buffers_def Let_def split: if_splits option.splits system_buffer.split\<close>)
      qed
    qed
  qed
qed

subsection \<open>Contents of a split read\<close>

text \<open>
  The lower device transfers directly into the memory of the original request. \<open>want\<close> is what
  that memory should hold in the end, \<open>c\<close> the contents the lower device answers from, \<open>todo\<close>
  the positions for which no lower request was built yet. Every position holds its byte, is
  still to do, or is the target of an outstanding request.
\<close>

definition hits :: "lower_irp \<Rightarrow> nat \<Rightarrow> bool" where
  "hits lo k = (case lo_Target lo of OriginalMdl t \<Rightarrow> t \<le> k \<and> k < t + unat (lo_Length lo) | _ \<Rightarrow> False)"

definition sound_target :: "(int \<Rightarrow> byte) \<Rightarrow> byte list \<Rightarrow> lower_irp \<Rightarrow> bool" where
  "sound_target c want lo =
     (case lo_Target lo of
        OriginalMdl t \<Rightarrow> t + unat (lo_Length lo) \<le> length want \<and>
          list_all (\<lambda>j. c (sint (lo_ByteOffset lo) + int j) = want ! (t + j)) [0..<unat (lo_Length lo)]
      | _ \<Rightarrow> False)"

definition pending :: "(int \<Rightarrow> byte) \<Rightarrow> byte list \<Rightarrow> (nat \<Rightarrow> bool) \<Rightarrow> nat \<Rightarrow> SCATTERED_IRP \<Rightarrow> bool" where
  "pending c want todo tot sc \<longleftrightarrow>
     sc_LastFailedStatus sc = 0 \<and> \<not> sc_CopyBack sc \<and>
     length (ir_Buffer (sc_OriginalIrp sc)) = length want \<and>
     list_all (\<lambda>k. ir_Buffer (sc_OriginalIrp sc) ! k = want ! k \<or> todo k \<or>
                   list_ex (\<lambda>lo. hits lo k) (sc_Outstanding sc)) [0..<length want] \<and>
     list_all (sound_target c want) (sc_Outstanding sc) \<and> claimed sc = tot"

definition honest :: "(int \<Rightarrow> byte) \<Rightarrow> lower_irp \<Rightarrow> answer \<Rightarrow> bool" where
  "honest c lo a \<longleftrightarrow> NT_SUCCESS (an_Status a) \<and> an_Information a = ucast (lo_Length lo) \<and>
     an_Data a = map (\<lambda>j. c (sint (lo_ByteOffset lo) + int j)) [0..<unat (lo_Length lo)]"

lemma unat_ucast_length: "unat (ucast (n :: ULONG) :: ULONG_PTR) = unat n"
proof -
  have "int (unat (ucast n :: ULONG_PTR)) = int (unat n)"
    using uint_ucast32 [of n] by simp
  then show ?thesis by (simp only: of_nat_eq_iff)
qed

lemma honest_fits: "honest c lo a \<Longrightarrow> answer_fits lo a"
  by (simp add: honest_def answer_fits_def unat_ucast_length)

lemma lower_done_flags:
  "lower_done lo a sc = Some s \<Longrightarrow> sc_OriginalFlags s = sc_OriginalFlags sc"
  by (auto simp: lower_done_def deliver_def IrpCompletionRoutine_def drop_count_def Let_def
      bind_eq_Some_conv split: target.splits system_buffer.splits option.splits if_splits)

lemma list_ex_remove1: "list_ex P xs \<Longrightarrow> P x \<or> list_ex P (remove1 x xs)"
  by (induction xs) auto

lemma pending_lower_done:
  assumes "scatter_wf held sc" "pending c want todo tot sc"
    and "lo \<in> set (sc_Outstanding sc)" "honest c lo a" "lower_done lo a sc = Some sc'"
  shows "pending c want todo tot sc'"
proof -
  let ?i = "sc_OriginalIrp sc" and ?los = "remove1 lo (sc_Outstanding sc)"
  let ?n = "unat (lo_Length lo)"
  have st: "sound_target c want lo"
    using assms(2,3) by (simp add: pending_def list_all_iff)
  then obtain t where t: "lo_Target lo = OriginalMdl t" "t + ?n \<le> length want"
    "\<And>j. j < ?n \<Longrightarrow> c (sint (lo_ByteOffset lo) + int j) = want ! (t + j)"
    by (auto simp: sound_target_def list_all_iff split: target.splits)
  have data: "length (an_Data a) = ?n" "\<And>j. j < ?n \<Longrightarrow> an_Data a ! j = want ! (t + j)"
    using assms(4) t(3) by (simp_all add: honest_def)
  have succ: "NT_SUCCESS (an_Status a)" and info: "unat (an_Information a) = ?n"
    using assms(4) by (simp_all add: honest_def unat_ucast_length)
  have len: "length (ir_Buffer ?i) = length want" using assms(2) by (simp add: pending_def)
  obtain b where b: "RtlCopyMemory (ir_Buffer ?i) t (an_Data a) 0 ?n = Some b"
    using copy_memory_some [of t ?n "ir_Buffer ?i" 0 "an_Data a"] t(2) data(1) len by auto
  let ?s1 = "sc\<lparr>sc_OriginalIrp := ?i\<lparr>ir_Buffer := b\<rparr>\<rparr>"
  have sc': "sc' = drop_count ((IrpCompletionRoutine a ?s1)\<lparr>sc_Outstanding := ?los\<rparr>)"
    using assms(5) t(1) b data(1) by (simp add: lower_done_def deliver_def Let_def)
  have blen: "length b = length want" using copy_memory_length [OF b] len by simp
  have bk: "b ! k = (if t \<le> k \<and> k < t + ?n then want ! k else ir_Buffer ?i ! k)"
    if "k < length want" for k
    using copy_memory_nth [OF b, of k] that len data(2) [of "k - t"] by auto
  have bytes: "b ! k = want ! k \<or> todo k \<or> list_ex (\<lambda>lo. hits lo k) ?los" if k: "k < length want" for k
  proof -
    have "ir_Buffer ?i ! k = want ! k \<or> todo k \<or> list_ex (\<lambda>lo. hits lo k) (sc_Outstanding sc)"
      using assms(2) k by (simp add: pending_def list_all_iff)
    moreover have "hits lo k \<longrightarrow> b ! k = want ! k"
      using bk [OF k] t(1) by (auto simp: hits_def)
    moreover have "list_ex (\<lambda>lo. hits lo k) (sc_Outstanding sc) \<longrightarrow>
        hits lo k \<or> list_ex (\<lambda>lo. hits lo k) ?los"
      using list_ex_remove1 [of "\<lambda>lo. hits lo k" "sc_Outstanding sc" lo] by blast
    ultimately show ?thesis using bk [OF k] by auto
  qed
  have "claimed sc' = tot"
  proof -
    have "claimed sc' = claimed ((IrpCompletionRoutine a sc)\<lparr>sc_Outstanding := ?los\<rparr>)"
      by (simp add: sc' claimed_def IrpCompletionRoutine_def)
    also have "\<dots> = claimed sc"
      using lower_done_claim(2) [OF assms(1,3) honest_fits [OF assms(4)] succ info] .
    finally show ?thesis using assms(2) by (simp add: pending_def)
  qed
  moreover have "list_all (sound_target c want) ?los"
    using assms(2) by (auto simp: pending_def list_all_iff dest: notin_set_remove1)
  ultimately show ?thesis
    using assms(2) bytes blen succ
    by (simp add: pending_def sc' list_all_iff) (simp add: IrpCompletionRoutine_def drop_count_def)
qed

text \<open>All answers are in: the original request is completed with the bytes it should hold.\<close>

lemma pending_result:
  assumes "scatter_wf 0 sc" "pending c want (\<lambda>_. False) tot sc" "sc_Outstanding sc = []"
  obtains i where "scatter_result sc = Some i" "ir_id i = ir_id (sc_OriginalIrp sc)"
    "ir_Status i = STATUS_SUCCESS" "ir_Buffer i = want" "unat (ir_Information i) = tot"
proof -
  obtain i where i: "scatter_result sc = Some i" "ir_id i = ir_id (sc_OriginalIrp sc)"
    "ir_Status i = sc_LastFailedStatus sc"
    "ir_Information i = (if NT_SUCCESS (sc_LastFailedStatus sc) then sc_BytesCompleted sc else 0)"
    "\<not> sc_CopyBack sc \<longrightarrow> ir_Buffer i = ir_Buffer (sc_OriginalIrp sc)"
    using scatter_result_some [OF assms(1)] by blast
  have "ir_Buffer i = want"
    using assms(2,3) i(5) by (auto simp: pending_def list_all_iff intro: nth_equalityI)
  moreover have "unat (ir_Information i) = tot"
    using assms(2,3) i(4) by (simp add: pending_def claimed_def)
  ultimately show thesis
    using that [of i] i assms(2) by (simp add: pending_def)
qed

end
