(* ===== verification/QC_Gaps.thy ===== *)
theory QC_Gaps
  imports QC_Walk QC_Scatter
begin

section \<open>The loop over the gaps of a read\<close>

text \<open>
  The loop of \<open>QCacheRead\<close> that builds one lower read per run of clear bits. Safety: with a
  bitmap search that behaves as documented and answers that stay inside their buffers, the loop
  ends within its fuel and without a fault, whatever is allocated or answered, and whichever
  answers come at once. Contents: on a direct-I/O device every clear sector is claimed by
  exactly one lower request, which reads it from the right place.
\<close>

subsection \<open>One run of clear sectors\<close>

lemma run_words:
  assumes "512 * m \<le> unat (n :: ULONG)"
  shows "unat (push_bit 9 (of_nat m) :: ULONG) = 512 * m"
    and "(push_bit 9 (of_nat m) :: LONGLONG) = of_nat (512 * m)"
proof -
  have "512 * m < 2 ^ LENGTH(32)" using assms unat_range32 [of n] by simp
  then have "unat (of_nat (512 * m) :: ULONG) = 512 * m" by (rule unat_of_nat_eq)
  moreover have "(push_bit 9 (of_nat m) :: ULONG) = of_nat (512 * m)"
    by (simp add: push_bit_eq_mult)
  ultimately show "unat (push_bit 9 (of_nat m) :: ULONG) = 512 * m" by simp
  show "(push_bit 9 (of_nat m) :: LONGLONG) = of_nat (512 * m)"
    by (simp add: push_bit_eq_mult)
qed

lemma run_offset:
  assumes "wf_extent off n" "512 * m \<le> unat n"
  shows "sint (off + push_bit 9 (of_nat m)) = sint off + 512 * int m"
proof -
  have n: "uint n < 4294967296" "int (512 * m) \<le> uint n"
    using uint_range32 [of n] assms(2) by (simp_all only: uint_nat of_nat_le_iff)
  have "sint (of_nat (512 * m) :: LONGLONG) = signed_take_bit 63 (int (512 * m))"
    by (simp only: signed_of_nat) simp
  also have "\<dots> = int (512 * m)"
    using n by (intro signed_take_bit_id) linarith+
  finally have s: "sint (of_nat (512 * m) :: LONGLONG) = int (512 * m)" .
  have "sint off + uint n < 9223372036854775808"
    using extent_exact [OF assms(1)] sint_range64(2) [of "off + ucast n"] by simp
  then have "sint (off + of_nat (512 * m)) = sint off + int (512 * m)"
    using n sint_range64(1) [of off] by (subst sint_add64) (simp_all only: s; linarith)+
  then show ?thesis using run_words(2) [OF assms(2)] by simp
qed

subsection \<open>The loop over the gaps is safe\<close>

definition answers_fit :: "'d lower_driver \<Rightarrow> bool" where
  "answers_fit L \<longleftrightarrow>
     (\<forall>lo d. case fst (lw_read L lo d) of None \<Rightarrow> True | Some a \<Rightarrow> answer_fits lo a)"

text \<open>What the loop leaves alone.\<close>

definition io_frame :: "'d world \<Rightarrow> 'd world \<Rightarrow> bool" where
  "io_frame w w' \<longleftrightarrow>
     queue w' = queue w \<and> RemoveLock (ext w') = RemoveLock (ext w) \<and> PoolItems w' = PoolItems w \<and>
     WriteQueueItems (stats w') = WriteQueueItems (stats w) \<and>
     WriteQueueSize (stats w') = WriteQueueSize (stats w) \<and> Completed w' = Completed w \<and>
     SentDown w' = SentDown w \<and> Scatters w' = Scatters w"

lemma io_frame_refl: "io_frame w w"
  by (simp add: io_frame_def)

lemma io_frame_trans: "io_frame w1 w2 \<Longrightarrow> io_frame w2 w3 \<Longrightarrow> io_frame w1 w3"
  by (simp add: io_frame_def)

lemma io_frame_inv:
  "io_frame w w' \<Longrightarrow> queue_inv w' = queue_inv w" "io_frame w w' \<Longrightarrow> owned w' = owned w"
  "io_frame w w' \<Longrightarrow> scatters_ok w' = scatters_ok w"
  by (simp_all add: io_frame_def queue_inv_def owned_def scatters_ok_def)

text \<open>One iteration, up to the search for the next run.\<close>

lemma gap_step:
  assumes "answers_fit L" "scatter_wf (Suc 0) sc" "length (sc_Outstanding sc) < 8388608"
    and "claimed sc + unat bytes \<le> unat (ir_Length (sc_OriginalIrp sc))"
    and "unat off + unat bytes \<le> unat (ir_Length (sc_OriginalIrp sc))"
  obtains (fail) sc1 where "BuildIrp b IRP_MJ_READ flags off bytes loff sc = Some (None, sc1)"
      "scatter_wf (Suc 0) sc1" "sc_OriginalIrp sc1 = sc_OriginalIrp sc"
  | (built) lo sc1 where "BuildIrp b IRP_MJ_READ flags off bytes loff sc = Some (Some lo, sc1)"
      "\<And>d. \<exists>sc2. (case fst (lw_read L lo d) of None \<Rightarrow> Some sc1
         | Some a \<Rightarrow> lower_done lo a sc1 \<bind> (\<lambda>s. if sc_ScatterCount s = 0 then None else Some s)) = Some sc2 \<and>
         scatter_wf (Suc 0) sc2 \<and> claimed sc2 \<le> claimed sc + unat bytes \<and>
         length (sc_Outstanding sc2) \<le> Suc (length (sc_Outstanding sc)) \<and>
         ir_id (sc_OriginalIrp sc2) = ir_id (sc_OriginalIrp sc) \<and>
         ir_Length (sc_OriginalIrp sc2) = ir_Length (sc_OriginalIrp sc)"
proof -
  from build_irp_wf [OF assms(2-5), of b IRP_MJ_READ flags loff] obtain r sc1 where
    B: "BuildIrp b IRP_MJ_READ flags off bytes loff sc = Some (r, sc1)" "scatter_wf (Suc 0) sc1"
    "sc_OriginalIrp sc1 = sc_OriginalIrp sc"
    and r: "case r of None \<Rightarrow> True | Some lo \<Rightarrow> sc_Outstanding sc1 = sc_Outstanding sc @ [lo] \<and>
        claimed sc1 = claimed sc + unat bytes"
    by (fastforce split: option.splits)
  show thesis
  proof (cases r)
    case None
    then show thesis using B by (intro fail [of sc1]) simp_all
  next
    case (Some lo)
    then have lo: "lo \<in> set (sc_Outstanding sc1)" and cl: "claimed sc1 = claimed sc + unat bytes"
      and len: "length (sc_Outstanding sc1) = Suc (length (sc_Outstanding sc))"
      using r by simp_all
    show thesis
    proof (rule built)
      show "BuildIrp b IRP_MJ_READ flags off bytes loff sc = Some (Some lo, sc1)"
        using B Some by simp
      fix d
      show "\<exists>sc2. (case fst (lw_read L lo d) of None \<Rightarrow> Some sc1
         | Some a \<Rightarrow> lower_done lo a sc1 \<bind> (\<lambda>s. if sc_ScatterCount s = 0 then None else Some s)) = Some sc2 \<and>
         scatter_wf (Suc 0) sc2 \<and> claimed sc2 \<le> claimed sc + unat bytes \<and>
         length (sc_Outstanding sc2) \<le> Suc (length (sc_Outstanding sc)) \<and>
         ir_id (sc_OriginalIrp sc2) = ir_id (sc_OriginalIrp sc) \<and>
         ir_Length (sc_OriginalIrp sc2) = ir_Length (sc_OriginalIrp sc)"
      proof (cases "fst (lw_read L lo d)")
        case None
        with B cl len show ?thesis by simp
      next
        case (Some a)
        then have fit: "answer_fits lo a"
          using assms(1) unfolding answers_fit_def by (metis option.simps(5))
        from lower_done_wf [OF B(2) lo fit] obtain s where
          s: "lower_done lo a sc1 = Some s" "scatter_wf (Suc 0) s"
          "sc_Outstanding s = remove1 lo (sc_Outstanding sc1)"
          "ir_id (sc_OriginalIrp s) = ir_id (sc_OriginalIrp sc1)"
          "ir_Length (sc_OriginalIrp s) = ir_Length (sc_OriginalIrp sc1)"
          "claimed s \<le> claimed sc1"
          by blast
        have nz: "sc_ScatterCount s \<noteq> 0" using scatter_count_held s(2) by simp
        from Some s nz B(3) cl len lo show ?thesis by (simp add: length_remove1)
      qed
    qed
  qed
qed

text \<open>
  The whole loop: enough fuel, no fault, a well-formed object, and nothing of the world changed
  besides the lower device and the read statistics.
\<close>

lemma gaps_safe:
  assumes "clear_runs api" "answers_fit L"
    and "512 * length bm \<le> unat (ir_Length (sc_OriginalIrp sc))"
    and "scatter_wf (Suc 0) sc" "claimed sc \<le> 512 * ci" "length (sc_Outstanding sc) \<le> ci"
    and "clear_run_at bm k0 cb ci" "0 < cb" "length bm < fuel + ci"
  shows "\<exists>s' sc' w'. read_gaps fuel L e api bm off ci cb s sc w = Some (s', sc', w') \<and>
     scatter_wf (Suc 0) sc' \<and> ir_id (sc_OriginalIrp sc') = ir_id (sc_OriginalIrp sc) \<and> io_frame w w'"
  using assms(3-9)
proof (induction fuel arbitrary: ci cb s sc w k0)
  case 0
  then show ?case by (auto simp: clear_run_at_def)
next
  case (Suc fuel)
  let ?n = "ir_Length (sc_OriginalIrp sc)"
  have run: "ci + cb \<le> length bm" using Suc.prems(5,6) by (simp add: clear_run_at_def)
  have small: "512 * ci + 512 * cb \<le> unat ?n"
    using mult_le_mono2 [OF run, of 512] Suc.prems(1) by (simp add: distrib_left)
  then have w1: "unat (push_bit 9 (of_nat ci) :: ULONG) = 512 * ci"
    and w2: "unat (push_bit 9 (of_nat cb) :: ULONG) = 512 * cb"
    by (auto intro!: run_words(1) [of _ ?n])
  have lt: "length (sc_Outstanding sc) < 8388608"
    using Suc.prems(4,6) small unat_range32 [of ?n] by linarith
  have claim: "claimed sc + unat (push_bit 9 (of_nat cb) :: ULONG) \<le> unat ?n"
    using small Suc.prems(3) w2 by linarith
  have inside: "unat (push_bit 9 (of_nat ci) :: ULONG) + unat (push_bit 9 (of_nat cb) :: ULONG) \<le> unat ?n"
    using small w1 w2 by linarith
  let ?B = "BuildIrp (build_alloc e s) IRP_MJ_READ (lw_flags L) (push_bit 9 (of_nat ci))
              (push_bit 9 (of_nat cb)) (off + push_bit 9 (of_nat ci)) sc"
  show ?case
  proof (rule gap_step [OF assms(2) Suc.prems(2) lt claim inside, of "build_alloc e s" "lw_flags L"
        "off + push_bit 9 (of_nat ci)"], goal_cases)
    case (1 sc1)
    then show ?thesis by (simp add: io_frame_refl)
  next
    case (2 lo sc1)
    let ?w1 = "upd_stats (\<lambda>st. st\<lparr>ReadBytesFromOriginal :=
                  ReadBytesFromOriginal st + push_bit 9 (of_nat cb)\<rparr>) w"
    obtain ans d where ad: "lw_read L lo (lower ?w1) = (ans, d)" by fastforce
    from 2(2) [of "lower ?w1"] obtain sc2 where
      sc2: "(case ans of None \<Rightarrow> Some sc1
         | Some a \<Rightarrow> lower_done lo a sc1 \<bind> (\<lambda>s. if sc_ScatterCount s = 0 then None else Some s)) = Some sc2"
      "scatter_wf (Suc 0) sc2" "claimed sc2 \<le> claimed sc + unat (push_bit 9 (of_nat cb) :: ULONG)"
      "length (sc_Outstanding sc2) \<le> Suc (length (sc_Outstanding sc))"
      "ir_id (sc_OriginalIrp sc2) = ir_id (sc_OriginalIrp sc)"
      "ir_Length (sc_OriginalIrp sc2) = ?n"
      unfolding ad fst_conv by blast
    have fr: "io_frame w (?w1\<lparr>lower := d\<rparr>)" by (simp add: io_frame_def upd_stats_def)
    obtain cb' ci' where nx: "RtlFindNextForwardRunClear api bm (ci + cb) = (cb', ci')" by fastforce
    have step: "read_gaps (Suc fuel) L e api bm off ci cb s sc w =
        (if 0 < cb' then read_gaps fuel L e api bm off ci' cb' (Suc s) sc2 (?w1\<lparr>lower := d\<rparr>)
         else Some (Suc s, sc2, ?w1\<lparr>lower := d\<rparr>))"
      using 2(1) ad sc2(1) nx by (simp add: Let_def)
    show ?thesis
    proof (cases "0 < cb'")
      case False
      with step sc2 fr show ?thesis by simp
    next
      case True
      have run': "clear_run_at bm (ci + cb) cb' ci'"
        using assms(1) nx by (rule clear_runs.next_run)
      have ge: "ci + cb < ci'"
        using clear_runs.next_progress [OF assms(1) Suc.prems(5,6) nx True] by simp
      have "\<exists>s' sc' w'. read_gaps fuel L e api bm off ci' cb' (Suc s) sc2 (?w1\<lparr>lower := d\<rparr>) = Some (s', sc', w') \<and>
          scatter_wf (Suc 0) sc' \<and> ir_id (sc_OriginalIrp sc') = ir_id (sc_OriginalIrp sc2) \<and>
          io_frame (?w1\<lparr>lower := d\<rparr>) w'"
      proof (rule Suc.IH)
        show "512 * length bm \<le> unat (ir_Length (sc_OriginalIrp sc2))" using sc2(6) Suc.prems(1) by simp
        show "scatter_wf (Suc 0) sc2" by (rule sc2(2))
        show "claimed sc2 \<le> 512 * ci'" using sc2(3) Suc.prems(3) w2 ge by linarith
        show "length (sc_Outstanding sc2) \<le> ci'" using sc2(4) Suc.prems(4,6) ge by linarith
        show "clear_run_at bm (ci + cb) cb' ci'" by (rule run')
        show "0 < cb'" by (rule True)
        show "length bm < fuel + ci'" using ge Suc.prems(7) by linarith
      qed
      with step True sc2(5) fr show ?thesis by (auto intro: io_frame_trans)
    qed
  qed
qed

subsection \<open>The loop over the gaps reads the right bytes\<close>

text \<open>The number of clear sectors below a position.\<close>

definition clear_below :: "bool list \<Rightarrow> nat \<Rightarrow> nat" where
  "clear_below bm m = length (filter Not (take m bm))"

lemma clear_below_run:
  assumes "a + d \<le> length bm" "\<And>k. a \<le> k \<Longrightarrow> k < a + d \<Longrightarrow> \<not> bm ! k"
  shows "clear_below bm (a + d) = clear_below bm a + d"
proof -
  have "filter Not (take d (drop a bm)) = take d (drop a bm)"
    using assms by (auto simp: filter_id_conv in_set_conv_nth)
  then show ?thesis using assms(1) by (simp add: clear_below_def take_add)
qed

lemma clear_below_set:
  assumes "a \<le> b" "\<And>k. a \<le> k \<Longrightarrow> k < b \<Longrightarrow> k < length bm \<Longrightarrow> bm ! k"
  shows "clear_below bm b = clear_below bm a"
proof -
  obtain d where b: "b = a + d" using assms(1) le_Suc_ex by blast
  have "filter Not (take d (drop a bm)) = []"
    using assms b by (auto simp: filter_empty_conv in_set_conv_nth)
  then show ?thesis by (simp add: clear_below_def take_add b)
qed

lemma pending_mono:
  "pending c want todo tot sc \<Longrightarrow> (\<And>k. k < length want \<Longrightarrow> todo k \<Longrightarrow> todo' k) \<Longrightarrow>
   pending c want todo' tot sc"
  by (auto simp: pending_def list_all_iff)

lemma pending_build:
  assumes "pending c want todo tot sc" "t + unat bytes \<le> length want"
    and "\<And>j. j < unat bytes \<Longrightarrow> c (sint loff + int j) = want ! (t + j)"
    and "build_done mf bytes loff (OriginalMdl t) sc = (r, sc')"
  shows "pending c want (\<lambda>k. todo k \<and> \<not> (t \<le> k \<and> k < t + unat bytes)) (tot + unat bytes) sc'"
proof -
  let ?lo = "\<lparr>lo_MajorFunction = mf, lo_ByteOffset = loff, lo_Length = bytes,
              lo_Target = OriginalMdl t, lo_Flags = lower_flags mf\<rparr>"
  have e: "sc' = sc\<lparr>sc_ScatterCount := sc_ScatterCount sc + 1,
      sc_Outstanding := sc_Outstanding sc @ [?lo]\<rparr>"
    using assms(4) by (auto simp: build_done_def Let_def)
  have "sound_target c want ?lo"
    using assms(2,3) by (simp add: sound_target_def list_all_iff)
  then show ?thesis
    using assms(1) by (auto simp: e pending_def claimed_def list_all_iff hits_def)
qed

text \<open>Answers of a device whose contents are \<open>C\<close>: immediate and honest, or later.\<close>

definition reads_back :: "'d lower_driver \<Rightarrow> ('d \<Rightarrow> contents) \<Rightarrow> bool" where
  "reads_back L C \<longleftrightarrow>
     (\<forall>lo d. lo_MajorFunction lo = IRP_MJ_READ \<longrightarrow>
        (case fst (lw_read L lo d) of None \<Rightarrow> True | Some a \<Rightarrow> honest (C d) lo a) \<and>
        C (snd (lw_read L lo d)) = C d)"

definition builds_ok :: "env \<Rightarrow> bool" where
  "builds_ok e \<longleftrightarrow> (\<forall>k. irp_alloc (build_alloc e k) \<and> partial_mdl_alloc (build_alloc e k))"

lemma direct_build:
  assumes "irp_alloc b" "partial_mdl_alloc b" "has_flag flags DO_DIRECT_IO"
    and "\<not> has_flag (sc_OriginalFlags sc) DO_BUFFERED_IO"
  shows "BuildIrp b mf flags off bytes loff sc =
           Some (build_done mf bytes loff (OriginalMdl (unat off)) sc)"
  using assms by (simp add: BuildIrp_def)

text \<open>One iteration: the run is no longer to do, and its bytes are claimed.\<close>

lemma gap_step_data:
  assumes "reads_back L C" "scatter_wf (Suc 0) sc" "length (sc_Outstanding sc) < 8388608"
    and "claimed sc + unat bytes \<le> unat (ir_Length (sc_OriginalIrp sc))"
    and "t + unat bytes \<le> unat (ir_Length (sc_OriginalIrp sc))"
    and "pending (C d) want todo tot sc"
    and "\<And>j. j < unat bytes \<Longrightarrow> C d (sint loff + int j) = want ! (t + j)"
    and "\<not> has_flag (sc_OriginalFlags sc) DO_BUFFERED_IO"
  obtains lo sc1 sc2 where
    "build_done IRP_MJ_READ bytes loff (OriginalMdl t) sc = (Some lo, sc1)"
    "(case fst (lw_read L lo d) of None \<Rightarrow> Some sc1
         | Some a \<Rightarrow> lower_done lo a sc1 \<bind> (\<lambda>s. if sc_ScatterCount s = 0 then None else Some s)) = Some sc2"
    "C (snd (lw_read L lo d)) = C d" "scatter_wf (Suc 0) sc2"
    "pending (C d) want (\<lambda>k. todo k \<and> \<not> (t \<le> k \<and> k < t + unat bytes)) (tot + unat bytes) sc2"
    "length (sc_Outstanding sc2) \<le> Suc (length (sc_Outstanding sc))"
    "ir_id (sc_OriginalIrp sc2) = ir_id (sc_OriginalIrp sc)"
    "ir_Length (sc_OriginalIrp sc2) = ir_Length (sc_OriginalIrp sc)"
    "sc_OriginalFlags sc2 = sc_OriginalFlags sc"
proof -
  obtain r sc1 where e: "build_done IRP_MJ_READ bytes loff (OriginalMdl t) sc = (r, sc1)" by fastforce
  have len: "length (ir_Buffer (sc_OriginalIrp sc)) = unat (ir_Length (sc_OriginalIrp sc))"
    using assms(2) by (simp add: scatter_wf_def scatter_buffers_def Let_def)
  have tb: "t + unat bytes \<le> length want"
    using assms(5,6) len by (simp add: pending_def)
  have "fits sc \<lparr>lo_MajorFunction = IRP_MJ_READ, lo_ByteOffset = loff, lo_Length = bytes,
      lo_Target = OriginalMdl t, lo_Flags = lower_flags IRP_MJ_READ\<rparr>"
    using assms(5) len by (simp add: fits_def)
  note w = build_done_wf [OF assms(2-4) this e]
  from w(3) obtain lo where lo: "r = Some lo" "sc_Outstanding sc1 = sc_Outstanding sc @ [lo]"
    "lo_MajorFunction lo = IRP_MJ_READ"
    by blast
  have pend: "pending (C d) want (\<lambda>k. todo k \<and> \<not> (t \<le> k \<and> k < t + unat bytes)) (tot + unat bytes) sc1"
    using assms(6) tb assms(7) e by (rule pending_build)
  have ans: "case fst (lw_read L lo d) of None \<Rightarrow> True | Some a \<Rightarrow> honest (C d) lo a"
    "C (snd (lw_read L lo d)) = C d"
    using assms(1) lo(3) unfolding reads_back_def by blast+
  have mem: "lo \<in> set (sc_Outstanding sc1)" by (simp add: lo)
  show thesis
  proof (cases "fst (lw_read L lo d)")
    case None
    show thesis
      by (rule that [of lo sc1 sc1]) (use e lo w pend ans None in simp_all)
  next
    case (Some a)
    then have h: "honest (C d) lo a" using ans(1) by simp
    from lower_done_wf [OF w(1) mem honest_fits [OF h]] obtain s where
      s: "lower_done lo a sc1 = Some s" "scatter_wf (Suc 0) s"
      "sc_Outstanding s = remove1 lo (sc_Outstanding sc1)"
      "ir_id (sc_OriginalIrp s) = ir_id (sc_OriginalIrp sc1)"
      "ir_Length (sc_OriginalIrp s) = ir_Length (sc_OriginalIrp sc1)"
      by blast
    have p: "pending (C d) want (\<lambda>k. todo k \<and> \<not> (t \<le> k \<and> k < t + unat bytes)) (tot + unat bytes) s"
      by (rule pending_lower_done [OF w(1) pend mem h s(1)])
    have nz: "sc_ScatterCount s \<noteq> 0" using scatter_count_held s(2) by simp
    have fl: "sc_OriginalFlags s = sc_OriginalFlags sc1" using s(1) by (rule lower_done_flags)
    show thesis
      by (rule that [of lo sc1 s])
        (use e lo w s p ans nz Some fl mem in \<open>simp_all add: length_remove1\<close>)
  qed
qed

lemma gaps_data:
  assumes "clear_runs api" "reads_back L C" "builds_ok e" "has_flag (lw_flags L) DO_DIRECT_IO"
    and "wf_extent off n" "unat n = 512 * length bm" "length want = 512 * length bm"
    and "\<And>k. k < length want \<Longrightarrow> \<not> bm ! (k div 512) \<Longrightarrow> c (sint off + int k) = want ! k"
    and "C (lower w) = c" "ir_Length (sc_OriginalIrp sc) = n"
    and "\<not> has_flag (sc_OriginalFlags sc) DO_BUFFERED_IO"
    and "scatter_wf (Suc 0) sc" "length (sc_Outstanding sc) \<le> ci"
    and "pending c want (\<lambda>k. \<not> bm ! (k div 512) \<and> ci \<le> k div 512) (512 * clear_below bm ci) sc"
    and "clear_run_at bm k0 cb ci" "0 < cb" "length bm < fuel + ci"
  shows "\<exists>s' sc' w'. read_gaps fuel L e api bm off ci cb s sc w = Some (s', sc', w') \<and>
     scatter_wf (Suc 0) sc' \<and> ir_id (sc_OriginalIrp sc') = ir_id (sc_OriginalIrp sc) \<and>
     ir_Length (sc_OriginalIrp sc') = n \<and>
     pending c want (\<lambda>_. False) (512 * clear_below bm (length bm)) sc' \<and>
     io_frame w w' \<and> C (lower w') = c"
  using assms(9-17)
proof (induction fuel arbitrary: ci cb s sc w k0)
  case 0
  then show ?case by (auto simp: clear_run_at_def)
next
  case (Suc fuel)
  have run: "ci + cb \<le> length bm" using Suc.prems(7,8) by (simp add: clear_run_at_def)
  have clr: "\<not> bm ! k" if "ci \<le> k" "k < ci + cb" for k
    using Suc.prems(7,8) that by (simp add: clear_run_at_def)
  have small: "512 * ci + 512 * cb \<le> unat n"
    using mult_le_mono2 [OF run, of 512] assms(6) by (simp add: distrib_left)
  then have w1: "unat (push_bit 9 (of_nat ci) :: ULONG) = 512 * ci"
    and w2: "unat (push_bit 9 (of_nat cb) :: ULONG) = 512 * cb"
    by (auto intro!: run_words(1) [of _ n])
  have o: "sint (off + push_bit 9 (of_nat ci)) = sint off + 512 * int ci"
    using small by (intro run_offset [OF assms(5)]) simp
  have lt: "length (sc_Outstanding sc) < 8388608"
    using Suc.prems(5,8) small unat_range32 [of n] by linarith
  have cl: "claimed sc = 512 * clear_below bm ci" using Suc.prems(6) by (simp add: pending_def)
  have "clear_below bm ci \<le> ci"
    unfolding clear_below_def by (metis length_filter_le length_take min.bounded_iff order_trans min_le_iff_disj order_refl min.cobounded2)
  then have claim: "claimed sc + unat (push_bit 9 (of_nat cb) :: ULONG)
      \<le> unat (ir_Length (sc_OriginalIrp sc))"
    using small w2 cl Suc.prems(2) by simp
  have inside: "512 * ci + unat (push_bit 9 (of_nat cb) :: ULONG) \<le> unat (ir_Length (sc_OriginalIrp sc))"
    using small w2 Suc.prems(2) by simp
  let ?todo = "\<lambda>k. \<not> bm ! (k div 512) \<and> ci \<le> k div 512"
  let ?w1 = "upd_stats (\<lambda>st. st\<lparr>ReadBytesFromOriginal :=
                  ReadBytesFromOriginal st + push_bit 9 (of_nat cb)\<rparr>) w"
  have dc: "C (lower ?w1) = c" using Suc.prems(1) by (simp add: upd_stats_def)
  have src: "C (lower ?w1) (sint (off + push_bit 9 (of_nat ci)) + int j) = want ! (512 * ci + j)"
    if "j < unat (push_bit 9 (of_nat cb) :: ULONG)" for j
  proof -
    have "512 * ci + j < length want" using that w2 small assms(6,7) by simp
    moreover have "\<not> bm ! ((512 * ci + j) div 512)" using that w2 by (intro clr) simp_all
    ultimately show ?thesis using assms(8) [of "512 * ci + j"] dc o by (simp add: add.assoc)
  qed
  have pend: "pending (C (lower ?w1)) want ?todo (512 * clear_below bm ci) sc"
    using Suc.prems(6) dc by simp
  obtain lo sc1 sc2 where g:
    "build_done IRP_MJ_READ (push_bit 9 (of_nat cb)) (off + push_bit 9 (of_nat ci)) (OriginalMdl (512 * ci)) sc
       = (Some lo, sc1)"
    "(case fst (lw_read L lo (lower ?w1)) of None \<Rightarrow> Some sc1
         | Some a \<Rightarrow> lower_done lo a sc1 \<bind> (\<lambda>s. if sc_ScatterCount s = 0 then None else Some s)) = Some sc2"
    "C (snd (lw_read L lo (lower ?w1))) = C (lower ?w1)" "scatter_wf (Suc 0) sc2"
    "pending (C (lower ?w1)) want
       (\<lambda>k. ?todo k \<and> \<not> (512 * ci \<le> k \<and> k < 512 * ci + unat (push_bit 9 (of_nat cb) :: ULONG)))
       (512 * clear_below bm ci + unat (push_bit 9 (of_nat cb) :: ULONG)) sc2"
    "length (sc_Outstanding sc2) \<le> Suc (length (sc_Outstanding sc))"
    "ir_id (sc_OriginalIrp sc2) = ir_id (sc_OriginalIrp sc)"
    "ir_Length (sc_OriginalIrp sc2) = ir_Length (sc_OriginalIrp sc)"
    "sc_OriginalFlags sc2 = sc_OriginalFlags sc"
    by (rule gap_step_data [OF assms(2) Suc.prems(4) lt claim inside pend src Suc.prems(3)])
  obtain ans d where ad: "lw_read L lo (lower ?w1) = (ans, d)" by fastforce
  let ?w2 = "?w1\<lparr>lower := d\<rparr>"
  have fr: "io_frame w ?w2" by (simp add: io_frame_def upd_stats_def)
  have d: "C (lower ?w2) = c" using g(3) ad dc by simp
  have tot: "512 * clear_below bm ci + unat (push_bit 9 (of_nat cb) :: ULONG) = 512 * clear_below bm (ci + cb)"
    using clear_below_run [OF run clr] w2 by simp
  have p2: "pending c want (\<lambda>k. \<not> bm ! (k div 512) \<and> ci + cb \<le> k div 512)
      (512 * clear_below bm (ci + cb)) sc2"
    using g(5) unfolding tot dc by (rule pending_mono) (auto simp: w2)
  obtain cb' ci' where nx: "RtlFindNextForwardRunClear api bm (ci + cb) = (cb', ci')" by fastforce
  have B: "BuildIrp (build_alloc e s) IRP_MJ_READ (lw_flags L) (push_bit 9 (of_nat ci))
              (push_bit 9 (of_nat cb)) (off + push_bit 9 (of_nat ci)) sc = Some (Some lo, sc1)"
    using direct_build [OF _ _ assms(4) Suc.prems(3)] assms(3) g(1)
    by (simp add: builds_ok_def w1)
  have step: "read_gaps (Suc fuel) L e api bm off ci cb s sc w =
        (if 0 < cb' then read_gaps fuel L e api bm off ci' cb' (Suc s) sc2 ?w2
         else Some (Suc s, sc2, ?w2))"
    using B ad g(2) nx by (simp add: Let_def)
  have run': "clear_run_at bm (ci + cb) cb' ci'"
    using assms(1) nx by (rule clear_runs.next_run)
  show ?case
  proof (cases "0 < cb'")
    case False
    then have set: "bm ! k" if "ci + cb \<le> k" "k < length bm" for k
      using run' that by (simp add: clear_run_at_def)
    have "clear_below bm (length bm) = clear_below bm (ci + cb)"
      using run set by (intro clear_below_set)
    moreover have "pending c want (\<lambda>_. False) (512 * clear_below bm (ci + cb)) sc2"
      using p2 by (rule pending_mono) (use set assms(7) in auto)
    ultimately show ?thesis using False step g(4,7,8) fr d Suc.prems(2) by simp
  next
    case True
    have ge: "ci + cb < ci'"
      using clear_runs.next_progress [OF assms(1) Suc.prems(7,8) nx True] by simp
    have set: "bm ! k" if "ci + cb \<le> k" "k < ci'" for k
      using run' that True by (simp add: clear_run_at_def)
    have cb': "clear_below bm ci' = clear_below bm (ci + cb)"
      using ge set by (intro clear_below_set) simp_all
    have "\<exists>s' sc' w'. read_gaps fuel L e api bm off ci' cb' (Suc s) sc2 ?w2 = Some (s', sc', w') \<and>
       scatter_wf (Suc 0) sc' \<and> ir_id (sc_OriginalIrp sc') = ir_id (sc_OriginalIrp sc2) \<and>
       ir_Length (sc_OriginalIrp sc') = n \<and>
       pending c want (\<lambda>_. False) (512 * clear_below bm (length bm)) sc' \<and>
       io_frame ?w2 w' \<and> C (lower w') = c"
    proof (rule Suc.IH)
      show "C (lower ?w2) = c" by (rule d)
      show "ir_Length (sc_OriginalIrp sc2) = n" using g(8) Suc.prems(2) by simp
      show "\<not> has_flag (sc_OriginalFlags sc2) DO_BUFFERED_IO" using g(9) Suc.prems(3) by simp
      show "scatter_wf (Suc 0) sc2" by (rule g(4))
      show "length (sc_Outstanding sc2) \<le> ci'" using g(6) Suc.prems(5,8) ge by linarith
      show "pending c want (\<lambda>k. \<not> bm ! (k div 512) \<and> ci' \<le> k div 512) (512 * clear_below bm ci') sc2"
        unfolding cb' using p2 by (rule pending_mono) (use set in \<open>auto simp: not_le[symmetric]\<close>)
      show "clear_run_at bm (ci + cb) cb' ci'" by (rule run')
      show "0 < cb'" by (rule True)
      show "length bm < fuel + ci'" using ge Suc.prems(9) by linarith
    qed
    with step True g(7) fr show ?thesis by (auto intro: io_frame_trans)
  qed
qed

end
