(* ===== verification/QC_Coherence.thy ===== *)
theory QC_Coherence
  imports QC_Gaps
begin

section \<open>Reads are safe and coherent\<close>

text \<open>
  The theorems about \<open>QCacheRead\<close> as a whole. Safety: whatever the lower device answers (as
  long as it stays inside the buffers it was given), in whatever order, no read faults, and the
  request is completed, passed down or waiting in exactly one place. Coherence: with
  sector-aligned writes in the queue, the bytes a read returns are those of the logical
  contents. The byte count it reports is exact too, and it is the count of the gaps only.
\<close>

subsection \<open>Safety of a read\<close>

text \<open>
  The invariant of a whole device. A read needs a system buffer of the full length only where
  the filter device asks for buffered I/O.
\<close>

definition device_ok :: "'d world \<Rightarrow> bool" where
  "device_ok w \<longleftrightarrow> queue_inv w \<and> scatters_ok w"

definition wf_buffers :: "env \<Rightarrow> irp \<Rightarrow> bool" where
  "wf_buffers e i \<longleftrightarrow> wf_transfer i \<and>
     (has_flag (device_flags e) DO_BUFFERED_IO \<longrightarrow> unat (ir_Length i) \<le> length (ir_SystemBuffer i))"

lemma settle_queue_inv:
  assumes "queue_inv w" "length (queue w) + length (Scatters w) < RemoveLock (ext w)"
    and "settle sc w = Some w'"
  shows "queue_inv w'" "queue w' = queue w"
  using assms
  by (auto simp: settle_def scatter_destroy_def queue_inv_def qc_simps bind_eq_Some_conv split: if_splits)

lemma fewer_scatters:
  assumes "queue_inv w" "length sc < length (Scatters w)"
  defines "w' \<equiv> w\<lparr>Scatters := sc\<rparr>"
  shows "queue_inv w'" "length (queue w') + length (Scatters w') < RemoveLock (ext w')"
proof -
  have "length (queue w) + length (Scatters w) \<le> RemoveLock (ext w)"
    using assms(1) by (simp add: queue_inv_def)
  then have lt: "length (queue w) + length sc < RemoveLock (ext w)" using assms(2) by linarith
  with assms(1) show "queue_inv w'" by (simp add: queue_inv_def w'_def)
  show "length (queue w') + length (Scatters w') < RemoveLock (ext w')"
    using lt by (simp add: w'_def)
qed

lemma lower_read_complete_device:
  assumes "device_ok w" "n < length (Scatters w)" "lo \<in> set (sc_Outstanding (Scatters w ! n))"
    and "LowerReadComplete n lo a w = Some w'"
  shows "queue_inv w'"
proof -
  let ?w = "w\<lparr>Scatters := take n (Scatters w) @ drop (Suc n) (Scatters w)\<rparr>"
  from assms(2-4) obtain s where s: "settle s ?w = Some w'"
    by (auto simp: LowerReadComplete_def bind_eq_Some_conv)
  have qi: "queue_inv w" using assms(1) by (simp add: device_ok_def)
  have "length (take n (Scatters w) @ drop (Suc n) (Scatters w)) < length (Scatters w)"
    using assms(2) by simp
  note f = fewer_scatters [OF qi this]
  from f s show ?thesis by (rule settle_queue_inv(1))
qed

lemma read_mixed_create:
  assumes "SCATTERED_IRP_Create e (device_flags e) i
             (if has_flag (device_flags e) DO_BUFFERED_IO then AssociatedBuffer else NoBuffer) w = (st, Some sc, w1)"
    and "wf_buffers e i"
  shows "scatter_wf (Suc 0) sc" "sc_OriginalIrp sc = i" "sc_Outstanding sc = []" "claimed sc = 0"
    "sc_LastFailedStatus sc = 0" "\<not> sc_CopyBack sc" "sc_OriginalFlags sc = device_flags e"
    "w1 = w\<lparr>ext := (ext w)\<lparr>RemoveLock := Suc (RemoveLock (ext w))\<rparr>\<rparr>"
  using scatter_create_wf [OF assms(1)] assms(2)
  by (auto simp: wf_buffers_def wf_transfer_def split: if_splits)

lemma read_mixed_safe:
  assumes "clear_runs api" "answers_fit L" "512 * length bm \<le> unat (ir_Length i)" "wf_buffers e i"
    and "device_ok w" "clear_run_at bm 0 cb ci" "0 < cb"
  shows "\<exists>st w'. read_mixed L e api bm cb ci i w = Some (st, w') \<and> device_ok w' \<and>
     owned w' = add_mset (ir_id i) (owned w) \<and> queue w' = queue w"
proof -
  let ?sb = "if has_flag (device_flags e) DO_BUFFERED_IO then AssociatedBuffer else NoBuffer"
  obtain st o1 w1 where c: "SCATTERED_IRP_Create e (device_flags e) i ?sb w = (st, o1, w1)"
    by (metis prod_cases3)
  show ?thesis
  proof (cases o1)
    case None
    then have "queue_inv w1" "owned w1 = owned w" "scatters_ok w1" "queue w1 = queue w"
      using c assms(5)
      by (auto simp: SCATTERED_IRP_Create_def Let_def qc_simps device_ok_def queue_inv_def owned_def
          scatters_ok_def split: if_splits)
    then show ?thesis
      using c None by (simp add: read_mixed_def complete_with_def device_ok_def scatters_ok_def)
        (simp add: IoCompleteRequest_def)
  next
    case (Some sc)
    note cw = read_mixed_create [OF c [unfolded Some] assms(4)]
    have "\<exists>s' sc' w'. read_gaps (Suc (length bm)) L e api bm (ir_ByteOffset i) ci cb 0 sc w1 = Some (s', sc', w') \<and>
        scatter_wf (Suc 0) sc' \<and> ir_id (sc_OriginalIrp sc') = ir_id (sc_OriginalIrp sc) \<and> io_frame w1 w'"
      using assms(3,7) cw by (intro gaps_safe [OF assms(1,2) _ _ _ _ assms(6)]) simp_all
    then obtain s' sc' w2 where g:
      "read_gaps (Suc (length bm)) L e api bm (ir_ByteOffset i) ci cb 0 sc w1 = Some (s', sc', w2)"
      "scatter_wf (Suc 0) sc'" "ir_id (sc_OriginalIrp sc') = ir_id i" "io_frame w1 w2"
      using cw(2) by auto
    let ?w3 = "if 1 < s' then upd_stats (\<lambda>s. s\<lparr>SplitReads := SplitReads s + of_nat s'\<rparr>) w2 else w2"
    have fr: "io_frame w1 ?w3"
      using g(4) by (auto simp: io_frame_def upd_stats_def)
    have q: "queue_inv ?w3" "length (queue ?w3) + length (Scatters ?w3) < RemoveLock (ext ?w3)"
      "scatters_ok ?w3" "owned ?w3 = owned w" "queue ?w3 = queue w"
      using fr assms(5) cw(8) unfolding device_ok_def
      by (auto simp: io_frame_def queue_inv_def scatters_ok_def owned_def)
    from settle_wf [OF drop_creator [OF g(2)] q(3)] obtain w' where
      w': "settle (drop_count sc') ?w3 = Some w'" "scatters_ok w'"
      "owned w' = add_mset (ir_id i) (owned ?w3)"
      using g(3) by auto
    have "read_mixed L e api bm cb ci i w = Some (STATUS_PENDING, w')"
      using c Some g(1) w'(1) by (simp add: read_mixed_def del: read_gaps.simps)
    with w' settle_queue_inv [OF q(1,2) w'(1)] q(4,5) show ?thesis
      by (simp add: device_ok_def)
  qed
qed

lemma device_ok_frame [simp]:
  "device_ok (count_read i w) = device_ok w" "device_ok (note_read_size i w) = device_ok w"
  "device_ok (upd_stats (\<lambda>s. s\<lparr>ReadRequestsReroutedToOriginal := d s,
     ReadBytesReroutedToOriginal := f s\<rparr>) w) = device_ok w"
  "device_ok (IoCompleteRequest i w) = device_ok w"
  by (simp_all add: device_ok_def queue_inv_def scatters_ok_def qc_simps count_read_def note_read_size_def)

lemma count_read_frame [simp]:
  "owned (count_read i w) = owned w" "owned (note_read_size i w) = owned w"
  "queue (count_read i w) = queue w" "queue (note_read_size i w) = queue w"
  "Size (stats (count_read i w)) = Size (stats w)" "Size (stats (note_read_size i w)) = Size (stats w)"
  "lower (count_read i w) = lower w" "lower (note_read_size i w) = lower w"
  "Completed (count_read i w) = Completed w" "Completed (note_read_size i w) = Completed w"
  "SentDown (count_read i w) = SentDown w" "SentDown (note_read_size i w) = SentDown w"
  "Scatters (count_read i w) = Scatters w" "Scatters (note_read_size i w) = Scatters w"
  by (simp_all add: count_read_def note_read_size_def upd_stats_def owned_def)

lemma queue_complete: "queue (IoCompleteRequest i w) = queue w"
  by (simp add: IoCompleteRequest_def)

lemma device_ok_send:
  "QCacheSendToNextDriver L i w = (st, w') \<Longrightarrow> device_ok w' = device_ok w"
  "QCacheSendToNextDriver L i w = (st, w') \<Longrightarrow> queue w' = queue w"
  by (auto simp: QCacheSendToNextDriver_def device_ok_def queue_inv_def scatters_ok_def split: prod.splits)

text \<open>The walk starts from the request's buffer and an empty bitmap.\<close>

definition walk_start :: "irp \<Rightarrow> 'd world \<Rightarrow> read_walk" where
  "walk_start i w = \<lparr>rw_Buffer = ir_Buffer i, rw_Bitmap = replicate (bitmap_bits (ir_Length i)) False,
     rw_Any = False, rw_Stats = stats w\<rparr>"

lemma walk_start_sel [simp]: "rw_Buffer (walk_start i w) = ir_Buffer i" "\<not> rw_Any (walk_start i w)"
  by (simp_all add: walk_start_def)

lemma bitmap_bits_eq: "bitmap_bits n = unat n div 512"
  unfolding bitmap_bits_def unat_drop_bit_eq by (simp add: drop_bit_eq_div)

lemma walk_start_wf: "wf_transfer i \<Longrightarrow> wf_walk i (walk_start i w)"
  by (simp add: wf_walk_def walk_start_def wf_transfer_def bitmap_bits_eq)

text \<open>The walk changes two counters of the statistics only.\<close>

lemma walk_stats:
  assumes "walk_queue i q a = Some b"
  shows "\<exists>x y. rw_Stats b = (rw_Stats a)\<lparr>ReadRequestsFromCache := x, ReadBytesFromCache := y\<rparr>"
  using assms
proof (induction q arbitrary: a)
  case Nil
  then show ?case by (intro exI [of _ "ReadRequestsFromCache (rw_Stats a)"]
        exI [of _ "ReadBytesFromCache (rw_Stats a)"]) simp
next
  case (Cons it q)
  show ?case
  proof (cases "overlaps i it")
    case True
    with Cons.prems obtain a1 where a1: "copy_item i it a = Some a1" "walk_queue i q a1 = Some b"
      by (auto simp: bind_eq_Some_conv)
    have "\<exists>x y. rw_Stats a1 = (rw_Stats a)\<lparr>ReadRequestsFromCache := x, ReadBytesFromCache := y\<rparr>"
      using a1(1) by (auto simp: copy_item_def Let_def bind_eq_Some_conv) blast
    moreover from Cons.IH [OF a1(2)]
    have "\<exists>x y. rw_Stats b = (rw_Stats a1)\<lparr>ReadRequestsFromCache := x, ReadBytesFromCache := y\<rparr>" .
    ultimately show ?thesis by (elim exE) (simp, blast)
  next
    case False
    with Cons show ?thesis by simp
  qed
qed

lemma walk_world:
  assumes "walk_queue i q (walk_start i w) = Some b"
  shows "device_ok (upd_stats (\<lambda>_. rw_Stats b) w) = device_ok w"
    "queue (upd_stats (\<lambda>_. rw_Stats b) w) = queue w"
    "owned (upd_stats (\<lambda>_. rw_Stats b) w) = owned w"
proof -
  from walk_stats [OF assms] obtain x y where
    "rw_Stats b = (stats w)\<lparr>ReadRequestsFromCache := x, ReadBytesFromCache := y\<rparr>"
    by (auto simp: walk_start_def)
  then show "device_ok (upd_stats (\<lambda>_. rw_Stats b) w) = device_ok w"
    "queue (upd_stats (\<lambda>_. rw_Stats b) w) = queue w"
    "owned (upd_stats (\<lambda>_. rw_Stats b) w) = owned w"
    by (simp_all add: device_ok_def queue_inv_def scatters_ok_def qc_simps owned_def)
qed

lemma read_cached_safe:
  assumes "clear_runs api" "answers_fit L" "wf_read i" "wf_buffers e i" "device_ok w"
  shows "\<exists>st w'. read_cached L e api i w = Some (st, w') \<and> device_ok w' \<and>
     owned w' = add_mset (ir_id i) (owned w) \<and> queue w' = queue w"
proof -
  have wt: "wf_transfer i" using assms(4) by (simp add: wf_buffers_def)
  have "list_all wf_item (queue w)" using assms(5) by (simp add: device_ok_def queue_inv_def)
  from walk_overlay [OF assms(3) this walk_start_wf [OF wt]] obtain b where
    b: "walk_queue i (queue w) (walk_start i w) = Some b" "wf_walk i b" by blast
  let ?i1 = "i\<lparr>ir_Buffer := rw_Buffer b\<rparr>" and ?w1 = "upd_stats (\<lambda>_. rw_Stats b) w"
  note ww = walk_world [OF b(1)]
  have R: "read_cached L e api i w =
      (if \<not> rw_Any b
      then Some (QCacheSendToNextDriver L ?i1
             (upd_stats (\<lambda>s. s\<lparr>
                ReadRequestsReroutedToOriginal := ReadRequestsReroutedToOriginal s + 1,
                ReadBytesReroutedToOriginal :=
                  ReadBytesReroutedToOriginal s + ucast (ir_Length i)\<rparr>) ?w1))
      else case RtlFindFirstRunClear api (rw_Bitmap b) of
             (clear_bits, clear_index) \<Rightarrow>
               if clear_bits = 0
               then Some (complete_with STATUS_SUCCESS
                            (?i1\<lparr>ir_Information := ucast (ir_Length i)\<rparr>) ?w1)
               else read_mixed L e api (rw_Bitmap b) clear_bits clear_index ?i1 ?w1)"
    using b(1) by (simp add: read_cached_def walk_start_def Let_def)
  consider "\<not> rw_Any b" | ci where "rw_Any b" "RtlFindFirstRunClear api (rw_Bitmap b) = (0, ci)"
    | cb ci where "rw_Any b" "RtlFindFirstRunClear api (rw_Bitmap b) = (cb, ci)" "0 < cb"
    by (metis gr0I surj_pair)
  then show ?thesis
  proof cases
    case 1
    obtain st w' where s: "QCacheSendToNextDriver L ?i1
             (upd_stats (\<lambda>s. s\<lparr>
                ReadRequestsReroutedToOriginal := ReadRequestsReroutedToOriginal s + 1,
                ReadBytesReroutedToOriginal :=
                  ReadBytesReroutedToOriginal s + ucast (ir_Length i)\<rparr>) ?w1) = (st, w')"
      by fastforce
    show ?thesis
      using R 1 s device_ok_send [OF s] owned_send [OF s] ww assms(5)
      by (simp add: owned_frame) (simp add: upd_stats_def)
  next
    case 2
    then show ?thesis
      using R ww assms(5) by (simp add: complete_with_def) (simp add: IoCompleteRequest_def)
  next
    case 3
    have "512 * length (rw_Bitmap b) \<le> unat (ir_Length ?i1)"
      using b(2) by (simp add: wf_walk_def)
    moreover have "wf_buffers e ?i1"
      using assms(4) b(2) by (simp add: wf_buffers_def wf_walk_def wf_transfer_def)
    moreover have "device_ok ?w1" using ww(1) assms(5) by simp
    moreover have "clear_run_at (rw_Bitmap b) 0 cb ci"
      using assms(1) 3(2) by (rule clear_runs.first_run)
    ultimately obtain st w' where "read_mixed L e api (rw_Bitmap b) cb ci ?i1 ?w1 = Some (st, w')"
      "device_ok w'" "owned w' = add_mset (ir_id ?i1) (owned ?w1)" "queue w' = queue ?w1"
      using read_mixed_safe [OF assms(1,2) _ _ _ _ 3(3)] by blast
    then show ?thesis using R 3 ww by simp
  qed
qed

text \<open>The exits before the walk, and the condition under which the walk is reached.\<close>

lemma read_exits:
  fixes i :: irp
  defines "i' \<equiv> i\<lparr>ir_Information := 0\<rparr>"
  obtains (pass) "Size (stats w) = 0" "QCacheRead L e api i w = Some (QCacheSendToNextDriver L i w)"
  | (empty) "ir_Length i = 0" "QCacheRead L e api i w = Some (QCacheIgnore i' (count_read i' w))"
  | (error) st where "\<not> NT_SUCCESS st"
      "QCacheRead L e api i w = Some (complete_with st i' (note_read_size i' (count_read i' w)))"
  | (walk) "\<not> misaligned i'" "\<not> beyond_media (stats w) i'" "ir_Length i \<noteq> 0" "mdl_mapped e"
      "bitmap_alloc e"
      "QCacheRead L e api i w = read_cached L e api i' (note_read_size i' (count_read i' w))"
proof -
  have b: "beyond_media (stats (note_read_size i' (count_read i' w))) i' = beyond_media (stats w) i'"
    by (simp add: beyond_media_def)
  note d = QCacheRead_def [of L e api i w, folded i'_def, unfolded Let_def b]
  have l: "ir_Length i' = ir_Length i" by (simp add: i'_def)
  show thesis
  proof (cases "Size (stats w) = 0")
    case True
    then show thesis by (intro pass) (simp_all add: d)
  next
    case sz: False
    show thesis
    proof (cases "ir_Length i = 0")
      case True
      with sz show thesis by (intro empty) (simp_all add: d l)
    next
      case len: False
      consider "misaligned i'" | "\<not> misaligned i'" "beyond_media (stats w) i'"
        | "\<not> misaligned i'" "\<not> beyond_media (stats w) i'" "\<not> mdl_mapped e \<or> \<not> bitmap_alloc e"
        | "\<not> misaligned i'" "\<not> beyond_media (stats w) i'" "mdl_mapped e" "bitmap_alloc e"
        by blast
      then show thesis
      proof cases
        case 1
        with sz len show thesis by (intro error [of STATUS_INVALID_PARAMETER]) (simp_all add: d l)
      next
        case 2
        with sz len show thesis by (intro error [of STATUS_END_OF_MEDIA]) (simp_all add: d l)
      next
        case 3
        with sz len show thesis
          by (intro error [of STATUS_INSUFFICIENT_RESOURCES]) (simp_all add: d l)
      next
        case 4
        with sz len show thesis by (intro walk) (simp_all add: d l)
      qed
    qed
  qed
qed

lemma read_safe:
  assumes "clear_runs api" "answers_fit L" "wf_buffers e i" "device_ok w"
  shows "\<exists>st w'. QCacheRead L e api i w = Some (st, w') \<and> device_ok w' \<and>
     owned w' = add_mset (ir_id i) (owned w) \<and> queue w' = queue w"
proof (rule read_exits [of w L e api i], goal_cases)
  case 1
  obtain st w' where s: "QCacheSendToNextDriver L i w = (st, w')" by fastforce
  with 1 show ?thesis using device_ok_send [OF s] owned_send [OF s] assms(4) by simp
next
  case 2
  with assms(4) show ?thesis by (simp add: QCacheIgnore_def queue_complete)
next
  case (3 st)
  with assms(4) show ?thesis by (simp add: complete_with_def queue_complete)
next
  case 4
  let ?i = "i\<lparr>ir_Information := 0\<rparr>"
  have "wf_read ?i"
    using within_media(1) [OF 4(2)] assms(3) by (simp add: wf_read_def wf_buffers_def wf_transfer_def)
  moreover have "wf_buffers e ?i" using assms(3) by (simp add: wf_buffers_def wf_transfer_def)
  moreover have "device_ok (note_read_size ?i (count_read ?i w))" using assms(4) by simp
  ultimately show ?thesis
    using read_cached_safe [OF assms(1,2)] 4(6) by fastforce
qed

subsection \<open>Coherence of a read\<close>

definition view_bytes :: "contents \<Rightarrow> irp \<Rightarrow> byte list" where
  "view_bytes v i = map (\<lambda>k. v (sint (ir_ByteOffset i) + int k)) [0..<unat (ir_Length i)]"

text \<open>The sectors of a request no queued write covers.\<close>

definition gap_sectors :: "WRITE_QUEUE_ITEM list \<Rightarrow> irp \<Rightarrow> nat list" where
  "gap_sectors q i =
     filter (\<lambda>j. \<not> covered q (sint (ir_ByteOffset i) + 512 * int j)) [0..<unat (ir_Length i) div 512]"

text \<open>
  What a read promises: it is completed with the bytes of the logical contents; or passed down
  when the lower device holds those bytes already; or waits as a split read that will hold them
  once every lower request is answered.
\<close>

definition read_completed :: "irp \<Rightarrow> byte list \<Rightarrow> 'd world \<Rightarrow> 'd world \<Rightarrow> bool" where
  "read_completed i bytes w w' \<longleftrightarrow>
     Completed w' \<noteq> [] \<and> butlast (Completed w') = Completed w \<and>
     SentDown w' = SentDown w \<and> Scatters w' = Scatters w \<and>
     ir_id (last (Completed w')) = ir_id i \<and> ir_Status (last (Completed w')) = STATUS_SUCCESS \<and>
     ir_Buffer (last (Completed w')) = bytes"

definition read_passed :: "irp \<Rightarrow> 'd world \<Rightarrow> 'd world \<Rightarrow> bool" where
  "read_passed i w w' \<longleftrightarrow>
     SentDown w' = SentDown w @ [i] \<and> Completed w' = Completed w \<and> Scatters w' = Scatters w"

definition read_waiting :: "contents \<Rightarrow> irp \<Rightarrow> byte list \<Rightarrow> nat \<Rightarrow> 'd world \<Rightarrow> 'd world \<Rightarrow> bool" where
  "read_waiting c i bytes tot w w' \<longleftrightarrow>
     Completed w' = Completed w \<and> SentDown w' = SentDown w \<and>
     Scatters w' \<noteq> [] \<and> butlast (Scatters w') = Scatters w \<and>
     (let sc = last (Scatters w') in
      scatter_wf 0 sc \<and> sc_Outstanding sc \<noteq> [] \<and> ir_id (sc_OriginalIrp sc) = ir_id i \<and>
      pending c bytes (\<lambda>_. False) tot sc)"

lemma length_view_bytes [simp]: "length (view_bytes v i) = unat (ir_Length i)"
  by (simp add: view_bytes_def)

lemma nth_view_bytes [simp]:
  "k < unat (ir_Length i) \<Longrightarrow> view_bytes v i ! k = v (sint (ir_ByteOffset i) + int k)"
  by (simp add: view_bytes_def)

lemma no_overlap_uncovered:
  assumes "wf_read i" "list_all wf_item q" "\<not> list_ex (overlaps i) q" "k < unat (ir_Length i)"
  shows "\<not> covered q (sint (ir_ByteOffset i) + int k)"
proof -
  have "int k < uint (ir_Length i)" using assms(4) by (metis of_nat_less_iff uint_nat)
  with assms(1-3) show ?thesis
    by (induction q) (auto simp: overlaps_iff covers_def is_write_def)
qed

lemma clear_below_gaps:
  assumes "length bm = unat (ir_Length i) div 512"
    and "\<And>j. j < length bm \<Longrightarrow> bm ! j \<longleftrightarrow> covered q (sint (ir_ByteOffset i) + 512 * int j)"
  shows "clear_below bm (length bm) = length (gap_sectors q i)"
proof -
  have "filter Not bm = map ((!) bm) (filter (Not \<circ> (!) bm) [0..<length bm])"
    by (metis filter_map map_nth)
  also have "filter (Not \<circ> (!) bm) [0..<length bm] = gap_sectors q i"
    unfolding gap_sectors_def assms(1) [symmetric] using assms(2) by (intro filter_cong) auto
  finally show ?thesis by (simp add: clear_below_def)
qed

lemma sector_length:
  assumes "uint (n :: ULONG) mod 512 = 0"
  shows "unat n = 512 * (unat n div 512)"
proof -
  have "int (unat n mod 512) = 0" using assms by (simp add: zmod_int)
  then have "unat n mod 512 = 0" by (simp only: of_nat_eq_0_iff)
  then show ?thesis by (metis add.right_neutral mult_div_mod_eq)
qed

text \<open>What the walk has established when the gaps are read.\<close>

lemma walk_done:
  assumes "wf_read i" "\<not> misaligned i" "list_all wf_item q" "list_all sector_item q"
    and "walk_queue i q (walk_start i w) = Some b" "k < unat (ir_Length i)"
  shows "rw_Bitmap b ! (k div 512) \<longleftrightarrow> covered q (sint (ir_ByteOffset i) + int k)"
    and "rw_Bitmap b ! (k div 512) \<Longrightarrow> rw_Buffer b ! k = overlay q c (sint (ir_ByteOffset i) + int k)"
    and "\<not> rw_Bitmap b ! (k div 512) \<Longrightarrow>
      overlay q c (sint (ir_ByteOffset i) + int k) = c (sint (ir_ByteOffset i) + int k)"
proof -
  have wt: "wf_transfer i" using assms(1) by (simp add: wf_read_def)
  note al = not_misaligned [OF assms(2)]
  have j: "k div 512 < unat (ir_Length i) div 512"
  proof -
    have "unat (ir_Length i) = 512 * (unat (ir_Length i) div 512)" using sector_length [OF al(2)] .
    with assms(6) show ?thesis by (metis less_mult_imp_div_less mult.commute)
  qed
  have "rw_Bitmap b ! (k div 512) \<longleftrightarrow>
      rw_Bitmap (walk_start i w) ! (k div 512) \<or> covered q (sint (ir_ByteOffset i) + 512 * int (k div 512))"
    by (rule walk_bits [OF assms(1) al assms(3,4) walk_start_wf [OF wt] assms(5) j])
  then show bit: "rw_Bitmap b ! (k div 512) \<longleftrightarrow> covered q (sint (ir_ByteOffset i) + int k)"
    using covered_sector [OF assms(4) al(1), of k] j by (simp add: walk_start_def bitmap_bits_eq)
  from walk_overlay [OF assms(1,3) walk_start_wf [OF wt]] assms(5,6)
  have buf: "c' (sint (ir_ByteOffset i) + int k) = rw_Buffer (walk_start i w) ! k \<Longrightarrow>
      rw_Buffer b ! k = overlay q c' (sint (ir_ByteOffset i) + int k)" for c'
    by fastforce
  have "rw_Buffer b ! k = overlay q (\<lambda>_. rw_Buffer (walk_start i w) ! k) (sint (ir_ByteOffset i) + int k)"
    by (rule buf) simp
  then show "rw_Bitmap b ! (k div 512) \<Longrightarrow> rw_Buffer b ! k = overlay q c (sint (ir_ByteOffset i) + int k)"
    using overlay_covered [OF assms(3)] bit by metis
  show "\<not> rw_Bitmap b ! (k div 512) \<Longrightarrow>
      overlay q c (sint (ir_ByteOffset i) + int k) = c (sint (ir_ByteOffset i) + int k)"
    using overlay_uncovered [OF assms(3)] bit by blast
qed

text \<open>The configuration and the resources under which reads are coherent.\<close>

definition direct_io :: "'d lower_driver \<Rightarrow> env \<Rightarrow> bool" where
  "direct_io L e \<longleftrightarrow> has_flag (lw_flags L) DO_DIRECT_IO \<and> \<not> has_flag (device_flags e) DO_BUFFERED_IO"

definition read_resources :: "env \<Rightarrow> bool" where
  "read_resources e \<longleftrightarrow> mdl_mapped e \<and> bitmap_alloc e \<and> NT_SUCCESS (acquire_status e) \<and>
     scatter_alloc e \<and> builds_ok e"

lemma read_mixed_coherent:
  assumes "clear_runs api" "reads_back L C" "direct_io L e" "read_resources e"
    and "wf_extent (ir_ByteOffset i) (ir_Length i)" "wf_buffers e i"
    and "unat (ir_Length i) = 512 * length bm" "length want = 512 * length bm"
    and "\<And>k. k < length want \<Longrightarrow> \<not> bm ! (k div 512) \<Longrightarrow>
           C (lower w) (sint (ir_ByteOffset i) + int k) = want ! k"
    and "\<And>k. k < length want \<Longrightarrow> bm ! (k div 512) \<Longrightarrow> ir_Buffer i ! k = want ! k"
    and "clear_run_at bm 0 cb ci" "0 < cb"
  shows "\<exists>w'. read_mixed L e api bm cb ci i w = Some (STATUS_PENDING, w') \<and>
     (read_completed i want w w' \<and>
        unat (ir_Information (last (Completed w'))) = 512 * clear_below bm (length bm) \<or>
      read_waiting (C (lower w)) i want (512 * clear_below bm (length bm)) w w')"
proof -
  let ?c = "C (lower w)" and ?tot = "512 * clear_below bm (length bm)"
  let ?sb = "if has_flag (device_flags e) DO_BUFFERED_IO then AssociatedBuffer else NoBuffer"
  obtain st sc w1 where c: "SCATTERED_IRP_Create e (device_flags e) i ?sb w = (st, Some sc, w1)"
    using assms(4) by (auto simp: SCATTERED_IRP_Create_def read_resources_def IoAcquireRemoveLock_def Let_def)
  note cw = read_mixed_create [OF c assms(6)]
  have len: "length (ir_Buffer i) = length want"
    using assms(6-8) by (simp add: wf_buffers_def wf_transfer_def)
  have below: "bm ! k" if "k < ci" for k using assms(11,12) that by (simp add: clear_run_at_def)
  have "ci \<le> length bm" using assms(11,12) by (simp add: clear_run_at_def)
  then have none: "clear_below bm ci = 0"
    using clear_below_set [of 0 ci bm] below by (simp add: clear_below_def)
  have start: "ir_Buffer i ! k = want ! k \<or> \<not> bm ! (k div 512) \<and> ci \<le> k div 512"
    if "k < length want" for k
    using assms(10) [OF that] below [of "k div 512"] by (meson not_le)
  have pend: "pending ?c want (\<lambda>k. \<not> bm ! (k div 512) \<and> ci \<le> k div 512) (512 * clear_below bm ci) sc"
    using cw none len start by (simp add: pending_def list_all_iff)
  have low: "C (lower w1) = ?c" by (simp add: cw(8))
  have "\<exists>s' sc' w'. read_gaps (Suc (length bm)) L e api bm (ir_ByteOffset i) ci cb 0 sc w1 = Some (s', sc', w') \<and>
     scatter_wf (Suc 0) sc' \<and> ir_id (sc_OriginalIrp sc') = ir_id (sc_OriginalIrp sc) \<and>
     ir_Length (sc_OriginalIrp sc') = ir_Length i \<and>
     pending ?c want (\<lambda>_. False) ?tot sc' \<and> io_frame w1 w' \<and> C (lower w') = ?c"
    by (rule gaps_data [where ?k0.0 = 0, OF assms(1,2) _ _ assms(5,7,8,9) low])
      (use assms(3,4,11,12) cw pend in \<open>simp_all add: direct_io_def read_resources_def\<close>)
  then obtain s' sc' w2 where g:
    "read_gaps (Suc (length bm)) L e api bm (ir_ByteOffset i) ci cb 0 sc w1 = Some (s', sc', w2)"
    "scatter_wf (Suc 0) sc'" "ir_id (sc_OriginalIrp sc') = ir_id i"
    "pending ?c want (\<lambda>_. False) ?tot sc'" "io_frame w1 w2"
    using cw(2) by auto
  let ?w3 = "if 1 < s' then upd_stats (\<lambda>s. s\<lparr>SplitReads := SplitReads s + of_nat s'\<rparr>) w2 else w2"
  have fr: "Completed ?w3 = Completed w" "SentDown ?w3 = SentDown w" "Scatters ?w3 = Scatters w"
    using g(5) cw(8) by (auto simp: io_frame_def upd_stats_def)
  have wf0: "scatter_wf 0 (drop_count sc')" using g(2) by (rule drop_creator)
  have p0: "pending ?c want (\<lambda>_. False) ?tot (drop_count sc')"
    using g(4) by (simp add: pending_def)
  have mixed: "read_mixed L e api bm cb ci i w = Some (STATUS_PENDING, w')"
    if "settle (drop_count sc') ?w3 = Some w'" for w'
    using c g(1) that by (simp add: read_mixed_def del: read_gaps.simps)
  show ?thesis
  proof (cases "sc_Outstanding sc' = []")
    case True
    then obtain j where j: "scatter_result (drop_count sc') = Some j" "ir_id j = ir_id i"
      "ir_Status j = STATUS_SUCCESS" "ir_Buffer j = want" "unat (ir_Information j) = ?tot"
      using pending_result [OF wf0 p0] g(3) by auto
    let ?w' = "IoReleaseRemoveLock (IoCompleteRequest j ?w3)"
    have "settle (drop_count sc') ?w3 = Some ?w'"
      using True j(1) scatter_count_zero [OF wf0] by (simp add: settle_def scatter_destroy_def)
    moreover have "Completed ?w' = Completed w @ [j]" "SentDown ?w' = SentDown w"
      "Scatters ?w' = Scatters w"
      using fr by (simp_all add: qc_simps)
    ultimately show ?thesis
      using mixed j by (auto simp: read_completed_def)
  next
    case False
    let ?w' = "?w3\<lparr>Scatters := Scatters ?w3 @ [drop_count sc']\<rparr>"
    have "settle (drop_count sc') ?w3 = Some ?w'"
      using False scatter_count_zero [OF wf0] by (simp add: settle_def)
    moreover have "Completed ?w' = Completed w" "SentDown ?w' = SentDown w"
      "Scatters ?w' = Scatters w @ [drop_count sc']"
      using fr by simp_all
    ultimately show ?thesis
      using mixed False wf0 p0 g(3) by (auto simp: read_waiting_def Let_def)
  qed
qed

text \<open>The whole read.\<close>

lemma read_cached_coherent:
  assumes "clear_runs api" "reads_back L C" "direct_io L e" "read_resources e"
    and "\<not> misaligned i" "wf_read i" "wf_buffers e i"
    and "list_all wf_item (queue w)" "list_all sector_item (queue w)"
  defines "want \<equiv> view_bytes (view C w) i" and "tot \<equiv> 512 * length (gap_sectors (queue w) i)"
  shows "\<exists>st w'. read_cached L e api i w = Some (st, w') \<and>
     (read_completed i want w w' \<and>
        ir_Information (last (Completed w')) =
          (if tot = 0 then ucast (ir_Length i) else of_nat tot) \<or>
      read_passed i w w' \<and> view_bytes (C (lower w)) i = want \<or>
      read_waiting (C (lower w)) i want tot w w')"
proof -
  have wt: "wf_transfer i" using assms(6) by (simp add: wf_read_def)
  from walk_overlay [OF assms(6,8) walk_start_wf [OF wt, of w]] obtain b where
    b: "walk_queue i (queue w) (walk_start i w) = Some b" "wf_walk i b"
    "rw_Any b = list_ex (overlaps i) (queue w)"
    and buf: "\<And>c k. k < unat (ir_Length i) \<Longrightarrow>
        c (sint (ir_ByteOffset i) + int k) = ir_Buffer i ! k \<Longrightarrow>
        rw_Buffer b ! k = overlay (queue w) c (sint (ir_ByteOffset i) + int k)"
    by auto
  note wd = walk_done [OF assms(6,5,8,9) b(1)]
  let ?bm = "rw_Bitmap b"
  have n: "unat (ir_Length i) = 512 * length ?bm"
    using sector_length [OF not_misaligned(2) [OF assms(5)]] b(2) by (simp add: wf_walk_def)
  have lb: "length ?bm = unat (ir_Length i) div 512" "length (rw_Buffer b) = unat (ir_Length i)"
    using b(2) by (simp_all add: wf_walk_def)
  let ?i1 = "i\<lparr>ir_Buffer := rw_Buffer b\<rparr>" and ?w1 = "upd_stats (\<lambda>_. rw_Stats b) w"
  have wanted: "want ! k = overlay (queue w) (C (lower w)) (sint (ir_ByteOffset i) + int k)"
    if "k < unat (ir_Length i)" for k
    using that by (simp add: want_def view_def)
  have sets: "?bm ! j \<longleftrightarrow> covered (queue w) (sint (ir_ByteOffset i) + 512 * int j)" if "j < length ?bm" for j
  proof -
    have "512 * j < unat (ir_Length i)" using that n by simp
    from wd(1) [OF this] show ?thesis by simp
  qed
  have tot: "512 * clear_below ?bm (length ?bm) = tot"
    using clear_below_gaps [OF lb(1) sets] by (simp add: tot_def)
  have R: "read_cached L e api i w =
      (if \<not> rw_Any b
      then Some (QCacheSendToNextDriver L ?i1
             (upd_stats (\<lambda>s. s\<lparr>
                ReadRequestsReroutedToOriginal := ReadRequestsReroutedToOriginal s + 1,
                ReadBytesReroutedToOriginal :=
                  ReadBytesReroutedToOriginal s + ucast (ir_Length i)\<rparr>) ?w1))
      else case RtlFindFirstRunClear api (rw_Bitmap b) of
             (clear_bits, clear_index) \<Rightarrow>
               if clear_bits = 0
               then Some (complete_with STATUS_SUCCESS
                            (?i1\<lparr>ir_Information := ucast (ir_Length i)\<rparr>) ?w1)
               else read_mixed L e api (rw_Bitmap b) clear_bits clear_index ?i1 ?w1)"
    using b(1) by (simp add: read_cached_def walk_start_def Let_def)
  consider (none) "\<not> rw_Any b" | (all) ci where "rw_Any b" "RtlFindFirstRunClear api ?bm = (0, ci)"
    | (gaps) cb ci where "rw_Any b" "RtlFindFirstRunClear api ?bm = (cb, ci)" "0 < cb"
    by (metis gr0I surj_pair)
  then show ?thesis
  proof cases
    case none
    have unc: "\<not> covered (queue w) (sint (ir_ByteOffset i) + int k)" if "k < unat (ir_Length i)" for k
      using no_overlap_uncovered [OF assms(6,8) _ that] none b(3) by simp
    have "rw_Buffer b = ir_Buffer i"
    proof (rule nth_equalityI)
      show "length (rw_Buffer b) = length (ir_Buffer i)" using lb(2) wt by (simp add: wf_transfer_def)
      fix k assume "k < length (rw_Buffer b)"
      then have k: "k < unat (ir_Length i)" using lb(2) by simp
      from buf [OF k, of "\<lambda>_. ir_Buffer i ! k"] overlay_uncovered [OF assms(8) unc [OF k]]
      show "rw_Buffer b ! k = ir_Buffer i ! k" by simp
    qed
    moreover have "view_bytes (C (lower w)) i = want"
      using wanted overlay_uncovered [OF assms(8) unc] by (intro nth_equalityI) (simp_all add: want_def)
    ultimately show ?thesis
      using R none by (auto simp: QCacheSendToNextDriver_def read_passed_def upd_stats_def split: prod.split)
  next
    case all
    have set: "?bm ! j" if "j < length ?bm" for j
      using clear_runs.first_none [OF assms(1) all(2) that] .
    have "rw_Buffer b = want"
    proof (rule nth_equalityI)
      show "length (rw_Buffer b) = length want" using lb(2) by (simp add: want_def)
      fix k assume "k < length (rw_Buffer b)"
      then have k: "k < unat (ir_Length i)" "k div 512 < length ?bm" using lb(2) n by auto
      show "rw_Buffer b ! k = want ! k"
        using wd(2) [OF k(1) set [OF k(2)]] wanted [OF k(1)] by simp
    qed
    moreover have "tot = 0"
      using set sets lb(1) by (auto simp: tot_def gap_sectors_def)
    ultimately show ?thesis
      using R all by (auto simp: complete_with_def read_completed_def qc_simps)
  next
    case gaps
    have low: "C (lower ?w1) = C (lower w)" by (simp add: upd_stats_def)
    have run: "clear_run_at ?bm 0 cb ci" using assms(1) gaps(2) by (rule clear_runs.first_run)
    then have ci: "ci < length ?bm" "\<not> ?bm ! ci" using gaps(3) by (auto simp: clear_run_at_def)
    then have "ci \<in> set (gap_sectors (queue w) i)"
      using sets [OF ci(1)] lb(1) by (simp add: gap_sectors_def)
    then have pos: "tot \<noteq> 0" by (auto simp: tot_def)
    have "\<exists>w'. read_mixed L e api ?bm cb ci ?i1 ?w1 = Some (STATUS_PENDING, w') \<and>
       (read_completed ?i1 want ?w1 w' \<and>
          unat (ir_Information (last (Completed w'))) = 512 * clear_below ?bm (length ?bm) \<or>
        read_waiting (C (lower ?w1)) ?i1 want (512 * clear_below ?bm (length ?bm)) ?w1 w')"
    proof (rule read_mixed_coherent [OF assms(1-4) _ _ _ _ _ _ run gaps(3)])
      show "wf_extent (ir_ByteOffset ?i1) (ir_Length ?i1)" using assms(6) by (simp add: wf_read_def)
      show "wf_buffers e ?i1"
        using assms(7) lb(2) by (simp add: wf_buffers_def wf_transfer_def)
      show "unat (ir_Length ?i1) = 512 * length ?bm" using n by simp
      show "length want = 512 * length ?bm" using n by (simp add: want_def)
      fix k assume "k < length want"
      then have k: "k < unat (ir_Length i)" by (simp add: want_def)
      show "C (lower ?w1) (sint (ir_ByteOffset ?i1) + int k) = want ! k" if "\<not> ?bm ! (k div 512)"
        using wd(3) [OF k that, of "C (lower w)"] wanted [OF k] low by simp
      show "ir_Buffer ?i1 ! k = want ! k" if "?bm ! (k div 512)"
        using wd(2) [OF k that] wanted [OF k] by simp
    qed
    then obtain w' where w': "read_mixed L e api ?bm cb ci ?i1 ?w1 = Some (STATUS_PENDING, w')"
      "read_completed ?i1 want ?w1 w' \<and> unat (ir_Information (last (Completed w'))) = tot \<or>
        read_waiting (C (lower w)) ?i1 want tot ?w1 w'"
      unfolding tot low by blast
    have "read_completed ?i1 want ?w1 w' = read_completed i want w w'"
      "read_waiting (C (lower w)) ?i1 want tot ?w1 w' = read_waiting (C (lower w)) i want tot w w'"
      by (simp_all add: read_completed_def read_waiting_def upd_stats_def)
    moreover have "ir_Information (last (Completed w')) = of_nat tot"
      if "unat (ir_Information (last (Completed w'))) = tot"
      using that by (metis word_of_nat_unat)
    ultimately show ?thesis
      using R gaps w' pos by auto
  qed
qed

lemma count_read_view [simp]:
  "view C (note_read_size i (count_read i w)) = view C w"
  by (simp add: view_def)

text \<open>A read inside the device, with whole sectors in the queue.\<close>

definition valid_read :: "'d world \<Rightarrow> irp \<Rightarrow> bool" where
  "valid_read w i \<longleftrightarrow> Size (stats w) \<noteq> 0 \<and> ir_Length i \<noteq> 0 \<and> \<not> misaligned i \<and>
     \<not> beyond_media (stats w) i \<and> list_all sector_item (queue w)"

lemma QCacheRead_coherent:
  assumes "clear_runs api" "reads_back L C" "direct_io L e" "read_resources e"
    and "device_ok w" "wf_buffers e i" "valid_read w i"
  defines "want \<equiv> view_bytes (view C w) i" and "tot \<equiv> 512 * length (gap_sectors (queue w) i)"
    and "i' \<equiv> i\<lparr>ir_Information := 0\<rparr>"
  shows "\<exists>st w'. QCacheRead L e api i w = Some (st, w') \<and>
     (read_completed i want w w' \<and>
        ir_Information (last (Completed w')) =
          (if tot = 0 then ucast (ir_Length i) else of_nat tot) \<or>
      read_passed i' w w' \<and> view_bytes (C (lower w)) i = want \<or>
      read_waiting (C (lower w)) i want tot w w')"
proof -
  let ?w = "note_read_size i' (count_read i' w)"
  have same: "misaligned i' = misaligned i" "beyond_media s i' = beyond_media s i"
    "view_bytes v i' = view_bytes v i" "gap_sectors q i' = gap_sectors q i"
    "ir_Length i' = ir_Length i" "ir_id i' = ir_id i" for s v q
    by (simp_all add: i'_def misaligned_def beyond_media_def view_bytes_def gap_sectors_def)
  have "beyond_media (stats ?w) i' = beyond_media (stats w) i"
    by (simp add: beyond_media_def i'_def)
  then have "QCacheRead L e api i w = read_cached L e api i' ?w"
    using assms(4,7) same
    unfolding QCacheRead_def Let_def i'_def [symmetric]
    by (simp add: valid_read_def read_resources_def)
  moreover have "wf_read i'"
    using within_media(1) [of "stats w" i] assms(6,7)
    by (simp add: wf_read_def wf_buffers_def wf_transfer_def valid_read_def i'_def)
  moreover have "wf_buffers e i'" using assms(6) by (simp add: wf_buffers_def wf_transfer_def i'_def)
  moreover have "\<not> misaligned i'" using assms(7) by (simp add: same valid_read_def)
  moreover have "list_all wf_item (queue ?w)" "list_all sector_item (queue ?w)"
    using assms(5,7) by (simp_all add: device_ok_def queue_inv_def valid_read_def)
  ultimately obtain st w' where r: "QCacheRead L e api i w = Some (st, w')"
    "read_completed i' want ?w w' \<and> ir_Information (last (Completed w')) =
        (if tot = 0 then ucast (ir_Length i) else of_nat tot) \<or>
      read_passed i' ?w w' \<and> view_bytes (C (lower w)) i = want \<or>
      read_waiting (C (lower w)) i' want tot ?w w'"
    using read_cached_coherent [OF assms(1-4), of i' ?w]
    by (auto simp: same want_def tot_def)
  have "read_completed i' want ?w w' = read_completed i want w w'"
    "read_passed i' ?w w' = read_passed i' w w'"
    "read_waiting (C (lower w)) i' want tot ?w w' = read_waiting (C (lower w)) i want tot w w'"
    by (simp_all add: read_completed_def read_passed_def read_waiting_def same)
  with r show ?thesis by auto
qed

text \<open>
  C9: A split read that waits: an honest answer (success, the full length, the bytes of the
  device) to one of its outstanding lower reads is delivered into the right part of the
  buffer, in any order of answers; the last answer completes the request with the logical
  contents, every earlier one leaves it waiting for the rest.
\<close>

theorem waiting_answer:
  assumes "n < length (Scatters w)" "scatter_wf 0 (Scatters w ! n)"
    and "pending c want (\<lambda>_. False) tot (Scatters w ! n)"
    and "lo \<in> set (sc_Outstanding (Scatters w ! n))" "honest c lo a"
  shows "\<exists>w'. LowerReadComplete n lo a w = Some w' \<and>
     (if sc_Outstanding (Scatters w ! n) = [lo]
      then read_completed (sc_OriginalIrp (Scatters w ! n)) want
             (w\<lparr>Scatters := take n (Scatters w) @ drop (Suc n) (Scatters w)\<rparr>) w' \<and>
           unat (ir_Information (last (Completed w'))) = tot
      else read_waiting c (sc_OriginalIrp (Scatters w ! n)) want tot
             (w\<lparr>Scatters := take n (Scatters w) @ drop (Suc n) (Scatters w)\<rparr>) w')"
proof -
  let ?sc = "Scatters w ! n"
  let ?w = "w\<lparr>Scatters := take n (Scatters w) @ drop (Suc n) (Scatters w)\<rparr>"
  from lower_done_wf [OF assms(2,4) honest_fits [OF assms(5)]] obtain s where
    s: "lower_done lo a ?sc = Some s" "scatter_wf 0 s"
    "sc_Outstanding s = remove1 lo (sc_Outstanding ?sc)"
    "ir_id (sc_OriginalIrp s) = ir_id (sc_OriginalIrp ?sc)"
    by blast
  have p: "pending c want (\<lambda>_. False) tot s"
    by (rule pending_lower_done [OF assms(2-5) s(1)])
  have last: "sc_Outstanding s = [] \<longleftrightarrow> sc_Outstanding ?sc = [lo]"
    using assms(4) s(3) by (cases "sc_Outstanding ?sc") auto
  have L: "LowerReadComplete n lo a w = settle s ?w"
    using assms(1,4) s(1) by (simp add: LowerReadComplete_def)
  show ?thesis
  proof (cases "sc_Outstanding s = []")
    case True
    then obtain j where j: "scatter_result s = Some j" "ir_id j = ir_id (sc_OriginalIrp ?sc)"
      "ir_Status j = STATUS_SUCCESS" "ir_Buffer j = want" "unat (ir_Information j) = tot"
      using pending_result [OF s(2) p] s(4) by auto
    then have "settle s ?w = Some (IoReleaseRemoveLock (IoCompleteRequest j ?w))"
      using True scatter_count_zero [OF s(2)] by (simp add: settle_def scatter_destroy_def)
    with L j last True show ?thesis by (simp add: read_completed_def qc_simps)
  next
    case False
    then have "settle s ?w = Some (?w\<lparr>Scatters := Scatters ?w @ [s]\<rparr>)"
      using scatter_count_zero [OF s(2)] by (simp add: settle_def)
    with L last False s p show ?thesis by (simp add: read_waiting_def Let_def butlast_append)
  qed
qed

end
