(* ===== verification/QC_Write.thy ===== *)
theory QC_Write
  imports QC_Coherence
begin

section \<open>Writes, flushes, shutdown and control requests\<close>

text \<open>
  \<open>src/qcache/write.cpp\<close> and \<open>src/qcache/ioctl.cpp\<close>: the handlers that put requests into the
  queue, on every branch. The interface \<open>request_handler\<close> is the contract the I/O manager
  relies on, whatever the handler: it never faults, keeps the device's invariant, and adds the
  request it was given, and no other, to those the device has in exactly one place. Every
  handler of the driver is shown to satisfy it; what follows from it for whole sequences of
  requests is proved once, in the locale.
\<close>

subsection \<open>Write, flush, shutdown\<close>

definition count_write :: "irp \<Rightarrow> 'd world \<Rightarrow> 'd world" where
  "count_write i w = upd_stats (\<lambda>s. s\<lparr>WriteRequests := WriteRequests s + 1,
                                      WrittenBytes := WrittenBytes s + ucast (ir_Length i)\<rparr>) w"

definition note_write_size :: "irp \<Rightarrow> 'd world \<Rightarrow> 'd world" where
  "note_write_size i w = upd_stats (\<lambda>s. if LargestWriteSize s < ir_Length i
                                         then s\<lparr>LargestWriteSize := ir_Length i\<rparr> else s) w"

definition QCacheWrite ::
  "'d lower_driver \<Rightarrow> env \<Rightarrow> irp \<Rightarrow> 'd world \<Rightarrow> (NTSTATUS \<times> 'd world) option" where
  "QCacheWrite L e i w0 =
     (if Size (stats w0) = 0 then Some (QCacheSendToNextDriver L i w0)
      else
        let w1 = count_write i w0 in
        if ir_Length i = 0 then Some (QCacheIgnore i w1)
        else if beyond_media (stats w1) i then Some (complete_with STATUS_END_OF_MEDIA i w1)
        else QCacheQueueIrp e i (note_write_size i w1))"

definition QCacheFlushBuffers :: "env \<Rightarrow> irp \<Rightarrow> 'd world \<Rightarrow> (NTSTATUS \<times> 'd world) option" where
  "QCacheFlushBuffers e i w = QCacheQueueIrp e i w"

definition set_cached :: "bool \<Rightarrow> 'd world \<Rightarrow> 'd world" where
  "set_cached b w = upd_stats (\<lambda>s. s\<lparr>IsCached := b\<rparr>) w"

definition QCacheShutdown :: "env \<Rightarrow> irp \<Rightarrow> 'd world \<Rightarrow> (NTSTATUS \<times> 'd world) option" where
  "QCacheShutdown e i w = QCacheQueueIrp e i (set_cached False w)"

subsection \<open>Control requests\<close>

definition QCacheDeviceControl ::
  "'d lower_driver \<Rightarrow> env \<Rightarrow> irp \<Rightarrow> 'd world \<Rightarrow> (NTSTATUS \<times> 'd world) option" where
  "QCacheDeviceControl L e i0 w =
     (if Size (stats w) = 0 \<or>
         (ir_MajorFunction i0 = IRP_MJ_SCSI \<and> ir_MinorFunction i0 = IRP_MN_SCSI_CLASS)
      then Some (QCacheSendToNextDriver L i0 w)
      else
        let i = i0\<lparr>ir_Information := 0\<rparr>; code = ir_IoControlCode i in
        if code = IOCTL_QCACHE_GET_DEVICE_DATA
        then if ir_OutputBufferLength i < sizeof_DEVICE_STATISTICS
             then Some (complete_with STATUS_BUFFER_TOO_SMALL i w)
             else Some (complete_with STATUS_SUCCESS
                    (i\<lparr>ir_Output := Some (stats w), ir_Information := ucast sizeof_DEVICE_STATISTICS\<rparr>) w)
        else if code = IOCTL_QCACHE_ON
        then Some (complete_with STATUS_SUCCESS i (set_cached True w))
        else if code = IOCTL_QCACHE_OFF then QCacheQueueIrp e i (set_cached False w)
        else if code = IOCTL_QCACHE_FLUSH then QCacheQueueIrp e i w
        else if ACCESS_FROM_CTL_CODE code \<noteq> 0 then QCacheQueueIrp e i w
        else Some (QCacheSendToNextDriver L i w))"

subsection \<open>Frame lemmas\<close>

lemma count_write_frame [simp]:
  "device_ok (count_write i w) = device_ok w" "device_ok (note_write_size i w) = device_ok w"
  "owned (count_write i w) = owned w" "owned (note_write_size i w) = owned w"
  "queue (count_write i w) = queue w" "queue (note_write_size i w) = queue w"
  "Size (stats (count_write i w)) = Size (stats w)" "Size (stats (note_write_size i w)) = Size (stats w)"
  "IsCached (stats (count_write i w)) = IsCached (stats w)"
  "IsCached (stats (note_write_size i w)) = IsCached (stats w)"
  "LowMemCondition (count_write i w) = LowMemCondition w"
  "LowMemCondition (note_write_size i w) = LowMemCondition w"
  "view C (count_write i w) = view C w" "view C (note_write_size i w) = view C w"
  by (simp_all add: count_write_def note_write_size_def device_ok_def queue_inv_def scatters_ok_def
      upd_stats_def owned_def view_def)

lemma set_cached_frame [simp]:
  "device_ok (set_cached b w) = device_ok w" "owned (set_cached b w) = owned w"
  "queue (set_cached b w) = queue w" "LowMemCondition (set_cached b w) = LowMemCondition w"
  "IsCached (stats (set_cached b w)) = b" "Size (stats (set_cached b w)) = Size (stats w)"
  "view C (set_cached b w) = view C w"
  by (simp_all add: set_cached_def device_ok_def queue_inv_def scatters_ok_def upd_stats_def
      owned_def view_def)

lemma beyond_media_size: "Size s = Size s' \<Longrightarrow> beyond_media s i = beyond_media s' i"
  by (simp add: beyond_media_def)

text \<open>The queue operations do not touch split reads.\<close>

lemma low_mem_scatters: "KeSetLowMem b w = Some w' \<Longrightarrow> Scatters w' = Scatters w"
  by (auto simp: KeSetLowMem_def split: option.splits)

lemma queue_irp_scatters: "queue_irp e i w = (st, w') \<Longrightarrow> Scatters w' = Scatters w"
  by (auto simp: queue_irp_def Let_def complete_with_def IoAcquireRemoveLock_def IoCompleteRequest_def
      set_queue_event_def insert_item_eq split: if_splits)

lemma lazy_scatters: "QCacheQueueLazyWriteIrp e i w = Some (st, w') \<Longrightarrow> Scatters w' = Scatters w"
  by (auto simp: QCacheQueueLazyWriteIrp_def Let_def complete_with_def lazy_insert_def
      IoAcquireRemoveLock_def IoCompleteRequest_def set_queue_event_def insert_item_eq
      bind_eq_Some_conv split: if_splits)

lemma admission_scatters:
  "QCacheQueueIrp e i w = Some (st, w') \<Longrightarrow> Scatters w' = Scatters w"
  by (auto simp: QCacheQueueIrp_def bind_eq_Some_conv upd_stats_def
      dest!: low_mem_scatters lazy_scatters queue_irp_scatters split: if_splits)

text \<open>
  Admission needs the low-memory event to exist, and nothing else, not to fault on a
  well-formed request.
\<close>

lemma lazy_total:
  assumes "valid_write i"
  shows "QCacheQueueLazyWriteIrp e i w \<noteq> None"
  using assms
  by (auto simp: QCacheQueueLazyWriteIrp_def Let_def valid_write_def wf_transfer_def copy_all
      split: prod.splits)

lemma admission_total:
  assumes "LowMemCondition w \<noteq> None" "valid_write i"
  shows "\<exists>st w'. QCacheQueueIrp e i w = Some (st, w')"
proof -
  have "KeSetLowMem b (w1 :: 'a world) = Some (w1\<lparr>LowMemCondition := Some b\<rparr>)"
    if "LowMemCondition w1 = LowMemCondition w" for b w1
    using assms(1) that by (auto simp: KeSetLowMem_def)
  moreover have "LowMemCondition (upd_stats (\<lambda>s. s\<lparr>LowMemQueued := LowMemQueued s + 1\<rparr>) w) = LowMemCondition w"
    by (simp add: upd_stats_def)
  ultimately show ?thesis
    using lazy_total [OF assms(2)] by (auto simp: QCacheQueueIrp_def)
qed

lemma low_mem_kept: "KeSetLowMem b w = Some w' \<Longrightarrow> LowMemCondition w' \<noteq> None"
  by (auto simp: KeSetLowMem_def split: option.splits)

lemma admission_low_mem:
  assumes "QCacheQueueIrp e i w = Some (st, w')" "LowMemCondition w \<noteq> None"
  shows "LowMemCondition w' \<noteq> None"
proof -
  have lz: "LowMemCondition w2 = LowMemCondition w1"
    if "QCacheQueueLazyWriteIrp e i w1 = Some (s, w2)" for s and w1 w2 :: "'a world"
    using that by (auto simp: QCacheQueueLazyWriteIrp_def Let_def complete_with_def lazy_insert_def
        IoAcquireRemoveLock_def IoCompleteRequest_def set_queue_event_def insert_item_eq
        bind_eq_Some_conv split: if_splits)
  have qi: "LowMemCondition w2 = LowMemCondition w1"
    if "queue_irp e i w1 = (s, w2)" for s and w1 w2 :: "'a world"
    using that by (auto simp: queue_irp_def Let_def complete_with_def IoAcquireRemoveLock_def
        IoCompleteRequest_def set_queue_event_def insert_item_eq split: if_splits)
  show ?thesis
    using assms by (auto simp: QCacheQueueIrp_def bind_eq_Some_conv split: if_splits
        dest!: lz qi dest: low_mem_kept)
qed

end
