(* ===== verification/QC_Handlers.thy ===== *)
theory QC_Handlers
  imports QC_Write
begin

section \<open>The contract of a request handler\<close>

text \<open>
  What the I/O manager may rely on, whichever request it hands to the driver: the handler
  returns (no fault), the invariant of the device is kept, and the request is afterwards owned
  in exactly one place, next to all requests owned before. The locale \<open>request_handler\<close> states
  this contract for any handler and draws its consequences for sequences of requests; the
  interpretations show that each handler of the driver, and the driver's dispatch on the major
  function code, satisfies it.
\<close>

subsection \<open>Sequences of requests\<close>

fun run_requests :: "('q \<Rightarrow> 's \<Rightarrow> ('r \<times> 's) option) \<Rightarrow> 'q list \<Rightarrow> 's \<Rightarrow> 's option" where
  "run_requests h [] s = Some s"
| "run_requests h (q # qs) s = do { (_, s') \<leftarrow> h q s; run_requests h qs s' }"

locale request_handler =
  fixes handle :: "'q \<Rightarrow> 's \<Rightarrow> ('r \<times> 's) option"
    and ident :: "'q \<Rightarrow> nat"
    and accepts :: "'q \<Rightarrow> bool"
    and good :: "'s \<Rightarrow> bool"
    and mine :: "'s \<Rightarrow> nat multiset"
  assumes handled: "good s \<Longrightarrow> accepts q \<Longrightarrow>
     \<exists>r s'. handle q s = Some (r, s') \<and> good s' \<and> mine s' = add_mset (ident q) (mine s)"
begin

lemma runs:
  "good s \<Longrightarrow> list_all accepts qs \<Longrightarrow>
   \<exists>s'. run_requests handle qs s = Some s' \<and> good s' \<and> mine s' = mine s + mset (map ident qs)"
proof (induction qs arbitrary: s)
  case Nil
  then show ?case by simp
next
  case (Cons q qs)
  then obtain r s1 where s1: "handle q s = Some (r, s1)" "good s1" "mine s1 = add_mset (ident q) (mine s)"
    using handled [of s q] by auto
  from Cons.IH [OF s1(2)] Cons.prems(2) obtain s' where
    "run_requests handle qs s1 = Some s'" "good s'" "mine s' = mine s1 + mset (map ident qs)"
    by auto
  with s1 show ?case by simp
qed

text \<open>No request is duplicated: ids that were distinct stay distinct.\<close>

lemma runs_distinct:
  assumes "good s" "list_all accepts qs" "mine s = {#}" "distinct (map ident qs)"
  shows "\<exists>s'. run_requests handle qs s = Some s' \<and> (\<forall>n. count (mine s') n \<le> 1)"
proof -
  from runs [OF assms(1,2)] obtain s' where
    s': "run_requests handle qs s = Some s'" "mine s' = mset (map ident qs)"
    using assms(3) by auto
  moreover have "count (mset (map ident qs)) n \<le> 1" for n
    using assms(4) distinct_count_atmost_1 [of "map ident qs"] by simp
  ultimately show ?thesis by auto
qed

end

subsection \<open>The handlers\<close>

definition driver_good :: "'d world \<Rightarrow> bool" where
  "driver_good w \<longleftrightarrow> device_ok w \<and> LowMemCondition w \<noteq> None"

type_synonym request = "env \<times> irp"

lemma driver_good_frame [simp]:
  "driver_good (count_write i w) = driver_good w" "driver_good (note_write_size i w) = driver_good w"
  "driver_good (set_cached b w) = driver_good w" "driver_good (IoCompleteRequest i w) = driver_good w"
  by (simp_all add: driver_good_def) (simp add: IoCompleteRequest_def)

lemma admission_handled:
  assumes "driver_good w" "valid_write i"
  shows "\<exists>st w'. QCacheQueueIrp e i w = Some (st, w') \<and> driver_good w' \<and>
     owned w' = add_mset (ir_id i) (owned w)"
proof -
  obtain st w' where q: "QCacheQueueIrp e i w = Some (st, w')"
    using admission_total [OF _ assms(2), of w e] assms(1) by (auto simp: driver_good_def)
  have "queue_inv w'"
    using queue_inv_admission [OF _ assms(2) q] assms(1) by (simp add: driver_good_def device_ok_def)
  moreover have "scatters_ok w'"
    using admission_scatters [OF q] assms(1) by (simp add: driver_good_def device_ok_def scatters_ok_def)
  moreover have "LowMemCondition w' \<noteq> None"
    using admission_low_mem [OF q] assms(1) by (simp add: driver_good_def)
  ultimately show ?thesis
    using q owned_admission [OF q] by (simp add: driver_good_def device_ok_def)
qed

lemma send_handled:
  assumes "driver_good w"
  shows "\<exists>st w'. QCacheSendToNextDriver L i w = (st, w') \<and> driver_good w' \<and>
     owned w' = add_mset (ir_id i) (owned w)"
proof -
  obtain st w' where s: "QCacheSendToNextDriver L i w = (st, w')" by fastforce
  have "LowMemCondition w' = LowMemCondition w"
    using s by (auto simp: QCacheSendToNextDriver_def split: prod.splits)
  with s show ?thesis
    using device_ok_send(1) [OF s] owned_send [OF s] assms by (simp add: driver_good_def)
qed

lemma complete_handled:
  assumes "driver_good w" "ir_id i' = ir_id i"
  shows "\<exists>st w'. complete_with s i' w = (st, w') \<and> driver_good w' \<and>
     owned w' = add_mset (ir_id i) (owned w)"
  using assms by (simp add: complete_with_def)

lemma write_handled:
  assumes "driver_good w" "wf_transfer i"
  shows "\<exists>st w'. QCacheWrite L e i w = Some (st, w') \<and> driver_good w' \<and>
     owned w' = add_mset (ir_id i) (owned w)"
proof -
  consider "Size (stats w) = 0"
    | "Size (stats w) \<noteq> 0" "ir_Length i = 0"
    | "Size (stats w) \<noteq> 0" "ir_Length i \<noteq> 0" "beyond_media (stats (count_write i w)) i"
    | "Size (stats w) \<noteq> 0" "ir_Length i \<noteq> 0" "\<not> beyond_media (stats (count_write i w)) i"
    by blast
  then show ?thesis
  proof cases
    case 1
    with send_handled [OF assms(1), of L i] show ?thesis by (simp add: QCacheWrite_def)
  next
    case 2
    with assms show ?thesis by (simp add: QCacheWrite_def QCacheIgnore_def)
  next
    case 3
    with assms show ?thesis by (simp add: QCacheWrite_def complete_with_def)
  next
    case 4
    have "valid_write i"
      using within_media(1) [OF 4(3)] assms(2) by (simp add: valid_write_def)
    then show ?thesis
      using 4 admission_handled [of "note_write_size i (count_write i w)" i e] assms(1)
      by (simp add: QCacheWrite_def)
  qed
qed

lemma control_handled:
  assumes "driver_good w" "ir_MajorFunction i \<noteq> IRP_MJ_WRITE"
  shows "\<exists>st w'. QCacheDeviceControl L e i w = Some (st, w') \<and> driver_good w' \<and>
     owned w' = add_mset (ir_id i) (owned w)"
proof -
  let ?i = "i\<lparr>ir_Information := 0\<rparr>"
  have vw: "valid_write ?i" using assms(2) by (simp add: valid_write_def)
  have q: "\<exists>st w'. QCacheQueueIrp e ?i w1 = Some (st, w') \<and> driver_good w' \<and>
     owned w' = add_mset (ir_id i) (owned w)" if "driver_good w1" "owned w1 = owned w" for w1
    using admission_handled [OF that(1) vw] that(2) by simp
  have s: "\<exists>st w'. QCacheSendToNextDriver L j w = (st, w') \<and> driver_good w' \<and>
     owned w' = add_mset (ir_id i) (owned w)" if "ir_id j = ir_id i" for j
    using send_handled [OF assms(1), of L j] that by simp
  have c: "\<exists>st w'. complete_with x j w1 = (st, w') \<and> driver_good w' \<and>
     owned w' = add_mset (ir_id i) (owned w)" if "ir_id j = ir_id i" "driver_good w1" "owned w1 = owned w" for x j w1
    using complete_handled [OF that(2,1)] that(3) by simp
  show ?thesis
    unfolding QCacheDeviceControl_def Let_def
    by (auto intro!: q s c simp: assms(1) split: if_split)
qed

text \<open>Reads leave the low-memory event alone.\<close>

lemma gaps_low_mem:
  "read_gaps n L e api bm off ci cb s sc w = Some (s', sc', w') \<Longrightarrow> LowMemCondition w' = LowMemCondition w"
proof (induction n arbitrary: ci cb s sc w)
  case 0
  then show ?case by simp
next
  case (Suc n)
  let ?w1 = "upd_stats (\<lambda>st. st\<lparr>ReadBytesFromOriginal :=
                  ReadBytesFromOriginal st + push_bit 9 (of_nat cb)\<rparr>) w"
  obtain cb' ci' where nx: "RtlFindNextForwardRunClear api bm (ci + cb) = (cb', ci')" by fastforce
  obtain r sc1 where B: "BuildIrp (build_alloc e s) IRP_MJ_READ (lw_flags L) (push_bit 9 (of_nat ci))
      (push_bit 9 (of_nat cb)) (off + push_bit 9 (of_nat ci)) sc = Some (r, sc1)"
    using Suc.prems by (auto simp: bind_eq_Some_conv)
  show ?case
  proof (cases r)
    case None
    with Suc.prems B show ?thesis by simp
  next
    case (Some lo)
    obtain ans d where ad: "lw_read L lo (lower ?w1) = (ans, d)" by fastforce
    have low: "LowMemCondition (?w1\<lparr>lower := d\<rparr>) = LowMemCondition w" by (simp add: upd_stats_def)
    from Suc.prems B Some ad nx obtain sc2 where
      "(if 0 < cb' then read_gaps n L e api bm off ci' cb' (Suc s) sc2 (?w1\<lparr>lower := d\<rparr>)
        else Some (Suc s, sc2, ?w1\<lparr>lower := d\<rparr>)) = Some (s', sc', w')"
      by (auto simp: Let_def bind_eq_Some_conv)
    with Suc.IH low show ?thesis by (cases "0 < cb'") auto
  qed
qed

lemma settle_low_mem: "settle sc w = Some w' \<Longrightarrow> LowMemCondition w' = LowMemCondition w"
  by (auto simp: settle_def scatter_destroy_def qc_simps bind_eq_Some_conv split: if_splits)

lemma mixed_low_mem:
  "read_mixed L e api bm cb ci i w = Some (st, w') \<Longrightarrow> LowMemCondition w' = LowMemCondition w"
  by (auto simp: read_mixed_def SCATTERED_IRP_Create_def Let_def bind_eq_Some_conv qc_simps
      simp del: read_gaps.simps split: option.splits prod.splits if_splits
      dest!: gaps_low_mem settle_low_mem)

lemma low_mem_frame [simp]:
  "LowMemCondition (upd_stats f w) = LowMemCondition w"
  "LowMemCondition (count_read i w) = LowMemCondition w"
  "LowMemCondition (note_read_size i w) = LowMemCondition w"
  "LowMemCondition (IoCompleteRequest i w) = LowMemCondition w"
  by (simp_all add: count_read_def note_read_size_def qc_simps)

lemma send_low_mem: "QCacheSendToNextDriver L i w = (st, w') \<Longrightarrow> LowMemCondition w' = LowMemCondition w"
  by (auto simp: QCacheSendToNextDriver_def split: prod.splits)

lemma cached_low_mem:
  assumes "read_cached L e api i w = Some (st, w')"
  shows "LowMemCondition w' = LowMemCondition w"
proof -
  obtain b where b: "walk_queue i (queue w) (walk_start i w) = Some b"
    using assms by (auto simp: read_cached_def walk_start_def bind_eq_Some_conv)
  obtain cb ci where f: "RtlFindFirstRunClear api (rw_Bitmap b) = (cb, ci)" by fastforce
  show ?thesis
    using assms b f
    by (cases "rw_Any b"; cases "cb = 0")
      (auto simp: read_cached_def Let_def complete_with_def dest!: mixed_low_mem send_low_mem
        simp flip: walk_start_def)
qed

lemma read_low_mem:
  assumes "QCacheRead L e api i w = Some (st, w')"
  shows "LowMemCondition w' = LowMemCondition w"
  by (rule read_exits [of w L e api i])
    (use assms in \<open>auto simp: QCacheIgnore_def complete_with_def dest!: cached_low_mem [OF sym] send_low_mem [OF sym]\<close>)

lemma read_handled:
  assumes "clear_runs api" "answers_fit L" "driver_good w" "wf_buffers e i"
  shows "\<exists>st w'. QCacheRead L e api i w = Some (st, w') \<and> driver_good w' \<and>
     owned w' = add_mset (ir_id i) (owned w)"
proof -
  have "LowMemCondition w' \<noteq> None" if "QCacheRead L e api i w = Some (st, w')" for st w'
    using read_low_mem [OF that] assms(3) by (simp add: driver_good_def)
  then show ?thesis
    using read_safe [OF assms(1,2,4)] assms(3) by (fastforce simp: driver_good_def)
qed

subsection \<open>The dispatch table\<close>

text \<open>
  The table \<open>DriverEntry\<close> fills: everything is passed down unless a handler is registered for
  its major function code. Plug and play requests have a handler of their own, modelled with
  the device object in a later theory.
\<close>

definition driver_dispatch ::
  "'d lower_driver \<Rightarrow> bitmap_api \<Rightarrow> request \<Rightarrow> 'd world \<Rightarrow> (NTSTATUS \<times> 'd world) option" where
  "driver_dispatch L api q w =
     (case q of (e, i) \<Rightarrow>
        let mf = ir_MajorFunction i in
        if mf = IRP_MJ_READ then QCacheRead L e api i w
        else if mf = IRP_MJ_WRITE then QCacheWrite L e i w
        else if mf = IRP_MJ_DEVICE_CONTROL \<or> mf = IRP_MJ_INTERNAL_DEVICE_CONTROL
        then QCacheDeviceControl L e i w
        else if mf = IRP_MJ_SHUTDOWN then QCacheShutdown e i w
        else if mf = IRP_MJ_FLUSH_BUFFERS then QCacheFlushBuffers e i w
        else Some (QCacheSendToNextDriver L i w))"

definition wf_request :: "request \<Rightarrow> bool" where
  "wf_request q \<longleftrightarrow> wf_buffers (fst q) (snd q) \<and> ir_MajorFunction (snd q) \<noteq> IRP_MJ_PNP"

lemma dispatch_handled:
  assumes "clear_runs api" "answers_fit L" "driver_good w" "wf_request q"
  shows "\<exists>st w'. driver_dispatch L api q w = Some (st, w') \<and> driver_good w' \<and>
     owned w' = add_mset (ir_id (snd q)) (owned w)"
proof -
  obtain e i where q: "q = (e, i)" by (cases q)
  have buf: "wf_buffers e i" "wf_transfer i" using assms(4) by (simp_all add: q wf_request_def wf_buffers_def)
  let ?mf = "ir_MajorFunction i"
  consider "?mf = IRP_MJ_READ" | "?mf = IRP_MJ_WRITE"
    | "?mf = IRP_MJ_DEVICE_CONTROL \<or> ?mf = IRP_MJ_INTERNAL_DEVICE_CONTROL"
    | "?mf = IRP_MJ_SHUTDOWN" | "?mf = IRP_MJ_FLUSH_BUFFERS"
    | "?mf \<notin> {IRP_MJ_READ, IRP_MJ_WRITE, IRP_MJ_DEVICE_CONTROL, IRP_MJ_INTERNAL_DEVICE_CONTROL,
        IRP_MJ_SHUTDOWN, IRP_MJ_FLUSH_BUFFERS}"
    by blast
  then show ?thesis
  proof cases
    case 1
    then show ?thesis
      using read_handled [OF assms(1-3) buf(1)] by (simp add: q driver_dispatch_def)
  next
    case 2
    then show ?thesis
      using write_handled [OF assms(3) buf(2)] by (simp add: q driver_dispatch_def)
  next
    case 3
    then show ?thesis
      using control_handled [OF assms(3), of i] by (auto simp: q driver_dispatch_def)
  next
    case 4
    then show ?thesis
      using admission_handled [of "set_cached False w" i e] assms(3)
      by (simp add: q driver_dispatch_def QCacheShutdown_def valid_write_def)
  next
    case 5
    then show ?thesis
      using admission_handled [of w i e] assms(3)
      by (simp add: q driver_dispatch_def QCacheFlushBuffers_def valid_write_def)
  next
    case 6
    then show ?thesis
      using send_handled [OF assms(3)] by (simp add: q driver_dispatch_def)
  qed
qed

interpretation driver: request_handler "driver_dispatch L api" "\<lambda>q. ir_id (snd q)" wf_request
  "\<lambda>w. clear_runs api \<and> answers_fit L \<and> driver_good w" owned
  for L :: "'d lower_driver" and api
  by unfold_locales (use dispatch_handled in blast)

text \<open>The write path alone needs neither the bitmap package nor honest lower reads.\<close>

interpretation writer: request_handler "\<lambda>q w. QCacheWrite L (fst q) (snd q) w" "\<lambda>q. ir_id (snd q)"
  "\<lambda>q. wf_transfer (snd q)" driver_good owned
  for L :: "'d lower_driver"
  by unfold_locales (use write_handled in blast)

end
