(* ===== verification/QC_Pnp.thy ===== *)
theory QC_Pnp
  imports QC_Handlers
begin

section \<open>Attaching, starting and removing a device\<close>

text \<open>
  The device-object side of \<open>src/qcache/mainwdm.cpp\<close>: attaching the filter, reading the size of
  the volume, the plug and play handler with its three special cases, and the shutdown of the
  worker thread. A \<open>filter_device\<close> is the device object with its world; the rest of the stack
  is a parameter (\<open>target_driver\<close>): the lower driver of the other theories and its answer to
  the driver's own synchronous requests. A wait that would not end is \<open>None\<close>.
\<close>

subsection \<open>The device object and the stack below it\<close>

record 'd filter_device =
  fd_world :: "'d world"
  fd_Flags :: ULONG
  fd_Characteristics :: ULONG
  fd_Attached :: bool
  fd_Deleted :: bool

abbreviation fd_ext :: "'d filter_device \<Rightarrow> DEVICE_EXTENSION" where
  "fd_ext D \<equiv> ext (fd_world D)"

text \<open>A request of the driver's own, and its completed status block and output.\<close>

record own_request =
  or_MajorFunction :: UCHAR
  or_IoControlCode :: ULONG
  or_OutputBufferLength :: ULONG

record own_answer =
  oa_Status :: NTSTATUS
  oa_Information :: ULONG_PTR
  oa_Output :: LONGLONG

record 'd target_driver =
  tg_lower :: "'d lower_driver"
  tg_Characteristics :: ULONG
  tg_own :: "own_request \<Rightarrow> 'd \<Rightarrow> own_answer \<times> 'd"

abbreviation (input) FILE_REMOVABLE_MEDIA :: ULONG where "FILE_REMOVABLE_MEDIA \<equiv> 0x1"
abbreviation (input) FILE_READ_ONLY_DEVICE :: ULONG where "FILE_READ_ONLY_DEVICE \<equiv> 0x2"
abbreviation (input) FILE_FLOPPY_DISKETTE :: ULONG where "FILE_FLOPPY_DISKETTE \<equiv> 0x4"
abbreviation (input) FILE_DEVICE_SECURE_OPEN :: ULONG where "FILE_DEVICE_SECURE_OPEN \<equiv> 0x100"
abbreviation (input) IOCTL_DISK_GET_LENGTH_INFO :: ULONG where "IOCTL_DISK_GET_LENGTH_INFO \<equiv> 0x7405C"

subsection \<open>Synchronous requests\<close>

text \<open>
  Both helpers build a request, send it, wait for its completion and return the status of the
  completed request. The first component of the result says what the caller's status block
  holds.
\<close>

definition QCacheSynchronousDeviceControl ::
  "'d target_driver \<Rightarrow> bool \<Rightarrow> UCHAR \<Rightarrow> ULONG \<Rightarrow> ULONG \<Rightarrow> 'd \<Rightarrow> NTSTATUS \<times> own_answer option \<times> 'd" where
  "QCacheSynchronousDeviceControl T irp_ok mf code out_len d =
     (if \<not> irp_ok then (STATUS_INSUFFICIENT_RESOURCES, None, d)
      else case tg_own T \<lparr>or_MajorFunction = mf, or_IoControlCode = code,
                          or_OutputBufferLength = out_len\<rparr> d of
             (a, d') \<Rightarrow> (oa_Status a, Some a, d'))"

definition QCacheSynchronousReadWrite ::
  "'d target_driver \<Rightarrow> bool \<Rightarrow> UCHAR \<Rightarrow> ULONG \<Rightarrow> 'd \<Rightarrow> NTSTATUS \<times> own_answer option \<times> 'd" where
  "QCacheSynchronousReadWrite T irp_ok mf len d =
     (if \<not> irp_ok then (STATUS_INSUFFICIENT_RESOURCES, None, d)
      else case tg_own T \<lparr>or_MajorFunction = mf, or_IoControlCode = 0, or_OutputBufferLength = len\<rparr> d of
             (a, d') \<Rightarrow> (oa_Status a, Some a, d'))"

text \<open>
  \<open>QCacheForwardIrpSynchronous\<close> returns what \<open>IoCallDriver\<close> returned, or the request's own
  status when it was pending.
\<close>

definition QCacheForwardIrpSynchronous ::
  "'d target_driver \<Rightarrow> irp \<Rightarrow> 'd world \<Rightarrow> NTSTATUS \<times> irp \<times> 'd world" where
  "QCacheForwardIrpSynchronous T i w =
     (case lw_forward (tg_lower T) i (lower w) of
        (st, i', d) \<Rightarrow> (if st = STATUS_PENDING then ir_Status i' else st, i', w\<lparr>lower := d\<rparr>))"

subsection \<open>Size of the volume\<close>

definition set_last_error :: "NTSTATUS \<Rightarrow> 'd world \<Rightarrow> 'd world" where
  "set_last_error st w = upd_stats (\<lambda>s. s\<lparr>LastErrorCode := st\<rparr>) w"

definition QCacheInitializeDeviceUnsafe ::
  "'d target_driver \<Rightarrow> bool \<Rightarrow> 'd world \<Rightarrow> NTSTATUS \<times> 'd world" where
  "QCacheInitializeDeviceUnsafe T irp_ok w =
     (if Size (stats w) = 0
      then case QCacheSynchronousDeviceControl T irp_ok IRP_MJ_DEVICE_CONTROL
                  IOCTL_DISK_GET_LENGTH_INFO 8 (lower w) of
             (status, a, d) \<Rightarrow>
               let w1 = w\<lparr>lower := d\<rparr> in
               if \<not> NT_SUCCESS status then (status, set_last_error status w1)
               else (STATUS_SUCCESS, set_last_error STATUS_SUCCESS
                      (upd_stats (\<lambda>s. s\<lparr>Size := (case a of None \<Rightarrow> Size s | Some r \<Rightarrow> oa_Output r)\<rparr>) w1))
      else (STATUS_SUCCESS, set_last_error STATUS_SUCCESS w))"

text \<open>
  The initialization event is a synchronization event: waiting consumes it, so the second
  caller waits until the first has set it again.
\<close>

definition QCacheInitializeDevice ::
  "'d target_driver \<Rightarrow> bool \<Rightarrow> 'd world \<Rightarrow> (NTSTATUS \<times> 'd world) option" where
  "QCacheInitializeDevice T irp_ok w =
     (if \<not> InitializationEvent (ext w) then None
      else
        let w1 = w\<lparr>ext := (ext w)\<lparr>InitializationEvent := False\<rparr>\<rparr>;
            (status, w2) = QCacheInitializeDeviceUnsafe T irp_ok w1
        in Some (status, w2\<lparr>ext := (ext w2)\<lparr>InitializationEvent := True\<rparr>\<rparr>))"

definition QCacheSyncFilterWithTarget :: "'d target_driver \<Rightarrow> 'd filter_device \<Rightarrow> 'd filter_device" where
  "QCacheSyncFilterWithTarget T D =
     D\<lparr>fd_Flags := fd_Flags D OR (lw_flags (tg_lower T) AND 0),
       fd_Characteristics := fd_Characteristics D OR
         (tg_Characteristics T AND
           (FILE_REMOVABLE_MEDIA OR FILE_READ_ONLY_DEVICE OR FILE_FLOPPY_DISKETTE))\<rparr>"

subsection \<open>The worker thread is stopped\<close>

text \<open>
  \<open>QCacheCleanupDevice\<close> asks the worker to stop, wakes it and waits for its exit. The worker
  runs until then; the fuel bounds its iterations. \<open>pe_late\<close> are the answers to the lower requests
  of waiting split reads that still come, in order: the number of the scatter object, its lower
  request and the answer. A removal waits for them.
\<close>

record pnp_env =
  pe_env :: env
  pe_irp_alloc :: bool
  pe_fuel :: nat
  pe_builds :: "nat \<Rightarrow> bool"
  pe_link_status :: NTSTATUS
  pe_late :: "(nat \<times> lower_irp \<times> answer) list"

definition QCacheCleanupDevice :: "'d target_driver \<Rightarrow> pnp_env \<Rightarrow> 'd world \<Rightarrow> 'd world option" where
  "QCacheCleanupDevice T pe w =
     (if WorkerThread (ext w)
      then
        let w1 = w\<lparr>ext := (ext w)\<lparr>ShutdownThread := True\<rparr>\<rparr>;
            w2 = set_queue_event w1
        in case QCacheDeviceWorkerThread (pe_fuel pe) (tg_lower T) (pe_builds pe) (pe_link_status pe) w2 of
             (Exited, w3) \<Rightarrow> Some (w3\<lparr>ext := (ext w3)\<lparr>WorkerThread := False\<rparr>\<rparr>)
           | _ \<Rightarrow> None
      else Some w)"

text \<open>\<open>Flags |= m\<close> and \<open>Flags &= ~m\<close>.\<close>

definition set_flag :: "ULONG \<Rightarrow> ULONG \<Rightarrow> ULONG" where
  "set_flag f m = f OR m"

definition clear_flag :: "ULONG \<Rightarrow> ULONG \<Rightarrow> ULONG" where
  "clear_flag f m = f AND NOT m"

subsection \<open>Attaching\<close>

record attach_env =
  at_create_status :: NTSTATUS
  at_attached :: bool
  at_thread_status :: NTSTATUS

text \<open>The extension as \<open>QCacheAttachDevice\<close> initializes it, and the world around it.\<close>

definition new_extension :: "LONGLONG \<Rightarrow> LONGLONG \<Rightarrow> DEVICE_EXTENSION" where
  "new_extension max_items max_size =
     \<lparr>Statistics = zero_statistics\<lparr>Version := sizeof_DEVICE_STATISTICS, MaxQueueItems := max_items,
                                   MaxQueueSize := max_size\<rparr>,
      WorkerThread = False, ShutdownThread = False, RemoveLock = 0, WriteQueue = [],
      WriteQueueEvent = False, InitializationEvent = True, PagingPathCountEvent = True\<rparr>"

text \<open>The driver's global variables an attachment reads.\<close>

record driver_config =
  QCacheMaxQueueItems :: LONGLONG
  QCacheMaxQueueSize :: LONGLONG
  QCacheLowMemCondition :: "bool option"
  QCacheLinksCreated :: bool

definition new_world :: "driver_config \<Rightarrow> 'd \<Rightarrow> 'd world" where
  "new_world cf d =
     \<lparr>ext = new_extension (QCacheMaxQueueItems cf) (QCacheMaxQueueSize cf), lower = d,
      LowMemCondition = QCacheLowMemCondition cf, Completed = [], SentDown = [], Scatters = [],
      PoolItems = 0, LinksCreated = QCacheLinksCreated cf\<rparr>"

text \<open>
  The result: the status, and what \<open>*FilterDeviceExtension\<close> points to. \<open>None\<close>: the pointer
  was never set. A deleted device: it was set, and points to freed memory. \<open>IoCreateDevice\<close>
  sets \<open>DO_DEVICE_INITIALIZING\<close>.
\<close>

definition QCacheAttachDevice ::
  "'d target_driver \<Rightarrow> pnp_env \<Rightarrow> attach_env \<Rightarrow> driver_config \<Rightarrow> ULONG \<Rightarrow> 'd
   \<Rightarrow> (NTSTATUS \<times> 'd filter_device option) option" where
  "QCacheAttachDevice T pe ae cf pdo_characteristics d =
     (if has_flag pdo_characteristics FILE_READ_ONLY_DEVICE then Some (STATUS_SUCCESS, None)
      else if \<not> NT_SUCCESS (at_create_status ae) then Some (STATUS_SUCCESS, None)
      else
        let w = new_world cf d;
            D = \<lparr>fd_world = w, fd_Flags = DO_DEVICE_INITIALIZING,
                 fd_Characteristics = FILE_DEVICE_SECURE_OPEN, fd_Attached = False, fd_Deleted = False\<rparr>;
            give_up = (\<lambda>st E. do {
              w' \<leftarrow> QCacheCleanupDevice T pe (fd_world E);
              Some (st, Some (E\<lparr>fd_world := w', fd_Attached := False, fd_Deleted := True\<rparr>))
            })
        in if \<not> at_attached ae then give_up STATUS_SUCCESS D
           else
             let D1 = D\<lparr>fd_Attached := True\<rparr> in
             if \<not> has_flag (lw_flags (tg_lower T)) DO_DIRECT_IO then give_up STATUS_SUCCESS D1
             else if \<not> NT_SUCCESS (at_thread_status ae) then give_up (at_thread_status ae) D1
             else
               let w1 = w\<lparr>ext := (ext w)\<lparr>WorkerThread := True\<rparr>\<rparr>;
                   w2 = set_cached True w1
               in Some (STATUS_SUCCESS, Some (D1\<lparr>fd_world := w2,
                    fd_Flags := clear_flag (set_flag (fd_Flags D1) (DO_POWER_PAGABLE OR DO_DIRECT_IO))
                                  DO_DEVICE_INITIALIZING\<rparr>)))"

definition QCacheAddDevice ::
  "'d target_driver \<Rightarrow> pnp_env \<Rightarrow> attach_env \<Rightarrow> driver_config \<Rightarrow> ULONG \<Rightarrow> 'd
   \<Rightarrow> (NTSTATUS \<times> 'd filter_device option) option" where
  "QCacheAddDevice T pe ae cf ch d = QCacheAttachDevice T pe ae cf ch d"

text \<open>
  Attaching by name: the lookup, the attachment, and the initialization of whatever the pointer
  holds on success. An unset or freed pointer is a fault.
\<close>

definition QCacheAttachLegacyDevice ::
  "NTSTATUS \<Rightarrow> 'd target_driver \<Rightarrow> pnp_env \<Rightarrow> attach_env \<Rightarrow> driver_config \<Rightarrow> ULONG \<Rightarrow> 'd
   \<Rightarrow> (NTSTATUS \<times> 'd filter_device option) option" where
  "QCacheAttachLegacyDevice lookup T pe ae cf ch d =
     (if \<not> NT_SUCCESS lookup then Some (lookup, None)
      else do {
        (status, D) \<leftarrow> QCacheAttachDevice T pe ae cf ch d;
        (if NT_SUCCESS status
         then case D of
                None \<Rightarrow> None
              | Some E \<Rightarrow>
                  if fd_Deleted E then None
                  else do {
                    (_, w') \<leftarrow> QCacheInitializeDevice T (pe_irp_alloc pe) (fd_world E);
                    Some (status, Some (E\<lparr>fd_world := w'\<rparr>))
                  }
         else Some (status, D))
      })"

subsection \<open>Plug and play\<close>

datatype usage_type = DeviceUsageTypePaging | DeviceUsageTypeHibernation | DeviceUsageTypeDumpFile
  | OtherUsageType

record pnp_request =
  pn_irp :: irp
  pn_Type :: usage_type
  pn_InPath :: bool

text \<open>
  A result is a status and the device. \<open>on_world\<close> runs an operation on the world of a device.
\<close>

definition on_world ::
  "('d world \<Rightarrow> NTSTATUS \<times> 'd world) \<Rightarrow> 'd filter_device \<Rightarrow> NTSTATUS \<times> 'd filter_device" where
  "on_world f D = (case f (fd_world D) of (st, w) \<Rightarrow> (st, D\<lparr>fd_world := w\<rparr>))"

definition QCacheStartDevice ::
  "'d target_driver \<Rightarrow> pnp_env \<Rightarrow> irp \<Rightarrow> 'd filter_device \<Rightarrow> (NTSTATUS \<times> 'd filter_device) option" where
  "QCacheStartDevice T pe i D =
     (let (status, i', w1) = QCacheForwardIrpSynchronous T i (fd_world D);
          D1 = QCacheSyncFilterWithTarget T (D\<lparr>fd_world := w1\<rparr>)
      in do {
        w2 \<leftarrow> (if IsCached (stats w1) \<and> Size (stats w1) = 0
               then map_option snd (QCacheInitializeDevice T (pe_irp_alloc pe) w1)
               else Some w1);
        Some (status, D1\<lparr>fd_world := IoCompleteRequest (i'\<lparr>ir_Status := status\<rparr>) w2\<rparr>)
      })"

text \<open>
  \<open>IoReleaseRemoveLockAndWait\<close> releases the caller's acquisition and waits while others are left.
  The worker has stopped by then, so what can still be released are the acquisitions of split
  reads, when their last answers come in: the wait ends as soon as no acquisition is left, and
  does not end (\<open>None\<close>) when some are left after the last answer.
\<close>

fun wait_for_release :: "(nat \<times> lower_irp \<times> answer) list \<Rightarrow> 'd world \<Rightarrow> 'd world option" where
  "wait_for_release [] w = (if RemoveLock (ext w) = 0 then Some w else None)"
| "wait_for_release ((n, lo, a) # late) w =
     (if RemoveLock (ext w) = 0 then Some w
      else do {
        w1 \<leftarrow> LowerReadComplete n lo a w;
        wait_for_release late w1
      })"

definition IoReleaseRemoveLockAndWait ::
  "(nat \<times> lower_irp \<times> answer) list \<Rightarrow> 'd world \<Rightarrow> 'd world option" where
  "IoReleaseRemoveLockAndWait late w = wait_for_release late (IoReleaseRemoveLock w)"

definition QCacheRemoveDevice ::
  "'d target_driver \<Rightarrow> pnp_env \<Rightarrow> irp \<Rightarrow> 'd filter_device \<Rightarrow> (NTSTATUS \<times> 'd filter_device) option" where
  "QCacheRemoveDevice T pe i D = do {
     let w1 = set_cached False (fd_world D);
     w2 \<leftarrow> QCacheCleanupDevice T pe w1;
     let (_, _, d) = QCacheSynchronousReadWrite T (pe_irp_alloc pe) IRP_MJ_FLUSH_BUFFERS 0 (lower w2);
     let (status, w3) = QCacheSendToNextDriver (tg_lower T) i (w2\<lparr>lower := d\<rparr>);
     w4 \<leftarrow> IoReleaseRemoveLockAndWait (pe_late pe) w3;
     Some (status, D\<lparr>fd_world := w4, fd_Attached := False, fd_Deleted := True\<rparr>)
   }"

definition IoAdjustPagingPathCount :: "bool \<Rightarrow> 'd world \<Rightarrow> 'd world" where
  "IoAdjustPagingPathCount up w =
     upd_stats (\<lambda>s. s\<lparr>PagingPathCount := (if up then PagingPathCount s + 1 else PagingPathCount s - 1)\<rparr>) w"

definition set_paging_event :: "bool \<Rightarrow> 'd world \<Rightarrow> 'd world" where
  "set_paging_event b w = w\<lparr>ext := (ext w)\<lparr>PagingPathCountEvent := b\<rparr>\<rparr>"

definition QCacheDeviceUsageNotification ::
  "'d target_driver \<Rightarrow> pnp_request \<Rightarrow> 'd filter_device \<Rightarrow> (NTSTATUS \<times> 'd filter_device) option" where
  "QCacheDeviceUsageNotification T r D =
     (if pn_Type r \<noteq> DeviceUsageTypePaging \<and> pn_Type r \<noteq> DeviceUsageTypeHibernation \<and>
         pn_Type r \<noteq> DeviceUsageTypeDumpFile
      then Some (on_world (QCacheSendToNextDriver (tg_lower T) (pn_irp r)) D)
      else if \<not> PagingPathCountEvent (fd_ext D) then None
      else
        let w0 = set_paging_event False (fd_world D);
            last_out = (\<not> pn_InPath r \<and> PagingPathCount (stats w0) = 1);
            set_pagable = (last_out \<and> \<not> has_flag (fd_Flags D) DO_POWER_INRUSH);
            flags1 = (if set_pagable then set_flag (fd_Flags D) DO_POWER_PAGABLE else fd_Flags D);
            (status, i', w1) = QCacheForwardIrpSynchronous T (pn_irp r) w0;
            w2 = (if NT_SUCCESS status then IoAdjustPagingPathCount (pn_InPath r) w1 else w1);
            flags2 = (if NT_SUCCESS status
                      then if pn_InPath r \<and> PagingPathCount (stats w2) = 1
                           then clear_flag flags1 DO_POWER_PAGABLE else flags1
                      else if set_pagable then clear_flag flags1 DO_POWER_PAGABLE else flags1);
            w3 = set_paging_event True w2
        in Some (status, D\<lparr>fd_Flags := flags2, fd_world := IoCompleteRequest i' w3\<rparr>))"

definition QCachePnp ::
  "'d target_driver \<Rightarrow> pnp_env \<Rightarrow> pnp_request \<Rightarrow> 'd filter_device \<Rightarrow> (NTSTATUS \<times> 'd filter_device) option" where
  "QCachePnp T pe r D =
     (let i = pn_irp r; mn = ir_MinorFunction i;
          (status, w1) = IoAcquireRemoveLock (pe_env pe) (fd_world D);
          D1 = D\<lparr>fd_world := w1\<rparr>;
          release = (\<lambda>(st, E). (st, E\<lparr>fd_world := IoReleaseRemoveLock (fd_world E)\<rparr>))
      in if \<not> NT_SUCCESS status then Some (on_world (complete_with status i) D1)
         else if mn = IRP_MN_START_DEVICE then map_option release (QCacheStartDevice T pe i D1)
         else if mn = IRP_MN_REMOVE_DEVICE then QCacheRemoveDevice T pe i D1
         else if mn = IRP_MN_DEVICE_USAGE_NOTIFICATION
         then map_option release (QCacheDeviceUsageNotification T r D1)
         else Some (release (on_world (QCacheSendToNextDriver (tg_lower T) i) D1)))"

text \<open>
  \<open>QCacheCreate\<close> initializes a cached device of unknown size first. \<open>high_irql\<close> is
  \<open>KeGetCurrentIrql() > APC_LEVEL\<close>. No dispatch entry refers to it.
\<close>

definition QCacheCreate ::
  "'d target_driver \<Rightarrow> pnp_env \<Rightarrow> bool \<Rightarrow> irp \<Rightarrow> 'd world \<Rightarrow> (NTSTATUS \<times> 'd world) option" where
  "QCacheCreate T pe high_irql i w =
     (if IsCached (stats w) \<and> Size (stats w) = 0
      then if high_irql
           then Some (complete_with STATUS_DEVICE_NOT_READY (i\<lparr>ir_Information := 0\<rparr>) w)
           else do {
             (_, w1) \<leftarrow> QCacheInitializeDevice T (pe_irp_alloc pe) w;
             Some (QCacheSendToNextDriver (tg_lower T) i w1)
           }
      else Some (QCacheSendToNextDriver (tg_lower T) i w))"

subsection \<open>What an attachment establishes\<close>

lemma new_world_ok:
  assumes "QCacheLowMemCondition cf \<noteq> None"
  shows "driver_good (new_world cf d)"
  using assms
  by (simp add: driver_good_def device_ok_def new_world_def new_extension_def queue_inv_def
      scatters_ok_def zero_statistics_def)

definition attached_state :: "'d target_driver \<Rightarrow> driver_config \<Rightarrow> 'd \<Rightarrow> 'd filter_device \<Rightarrow> bool" where
  "attached_state T cf d D \<longleftrightarrow>
     fd_Attached D \<and> \<not> fd_Deleted D \<and> queue (fd_world D) = [] \<and> Scatters (fd_world D) = [] \<and>
     lower (fd_world D) = d \<and> RemoveLock (fd_ext D) = 0 \<and> owned (fd_world D) = {#} \<and>
     WorkerThread (fd_ext D) \<and> \<not> ShutdownThread (fd_ext D) \<and>
     IsCached (stats (fd_world D)) \<and> Size (stats (fd_world D)) = 0 \<and>
     MaxQueueItems (stats (fd_world D)) = QCacheMaxQueueItems cf \<and>
     MaxQueueSize (stats (fd_world D)) = QCacheMaxQueueSize cf \<and>
     has_flag (lw_flags (tg_lower T)) DO_DIRECT_IO \<and> has_flag (fd_Flags D) DO_DIRECT_IO \<and>
     \<not> has_flag (fd_Flags D) DO_BUFFERED_IO \<and> \<not> has_flag (fd_Flags D) DO_DEVICE_INITIALIZING \<and>
     has_flag (fd_Flags D) DO_POWER_PAGABLE"

lemma attach_result:
  assumes "QCacheAttachDevice T pe ae cf ch d = Some (st, Some D)" "\<not> fd_Deleted D"
  shows "st = STATUS_SUCCESS" "attached_state T cf d D"
    "driver_good (fd_world D) \<longleftrightarrow> QCacheLowMemCondition cf \<noteq> None"
  using assms
  by (auto simp: QCacheAttachDevice_def Let_def bind_eq_Some_conv attached_state_def new_world_def
      new_extension_def zero_statistics_def set_cached_def upd_stats_def has_flag_def set_flag_def clear_flag_def owned_def
      driver_good_def device_ok_def queue_inv_def scatters_ok_def split: if_splits)

text \<open>
  The configuration the read theorems ask for holds on every attached device.
\<close>

lemma attached_direct_io:
  assumes "attached_state T cf d D" "device_flags e = fd_Flags D"
  shows "direct_io (tg_lower T) e"
  using assms by (simp add: attached_state_def direct_io_def)

subsection \<open>The worker drains on shutdown\<close>

lemma worker_drain_exits:
  assumes "ShutdownThread (ext w)" "length (queue w) < n" "\<forall>k. builds k" "\<forall>d. lw_completes L d"
  shows "QCacheDeviceWorkerThread n L builds ls w = (Exited, (drain_one L ^^ length (queue w)) w)"
  using assms(1,2)
proof (induction "length (queue w)" arbitrary: n w)
  case 0
  then show ?case by (cases n) (auto simp: worker_iteration_def)
next
  case (Suc k)
  then obtain it q where q: "queue w = it # q" by (cases "queue w") auto
  from Suc.prems obtain m where n: "n = Suc m" by (cases n) auto
  let ?w = "dispatch_item L True it w"
  have q': "queue ?w = q" using q by (simp add: dispatch_removes_head)
  have "QCacheDeviceWorkerThread m L builds ls ?w = (Exited, (drain_one L ^^ length (queue ?w)) ?w)"
    using Suc.hyps(2) Suc.prems q n by (intro Suc.hyps(1)) (simp_all add: q')
  moreover have "(drain_one L ^^ length (queue w)) w = (drain_one L ^^ length (queue ?w)) ?w"
    using q q' drain_one_cons [OF q, of L] assms(4) by (simp add: funpow_swap1)
  ultimately show ?case using q assms(3,4) by (simp add: n worker_iteration_def dispatch_returns)
qed

text \<open>Draining releases one acquisition of the remove lock per item, and completes lazily.\<close>

lemma drain_one_effect:
  assumes "queue w = it # q" "it_Irp it = None" "\<forall>d. lw_completes L d"
  shows "RemoveLock (ext (drain_one L w)) = RemoveLock (ext w) - 1"
    "Completed (drain_one L w) = Completed w" "SentDown (drain_one L w) = SentDown w"
    "Scatters (drain_one L w) = Scatters w" "queue (drain_one L w) = q"
  using assms
  by (auto simp: drain_one_cons dispatch_item_def dispatch_lower_def dispatch_finish_eq
      Let_def split: prod.splits)

lemma drain_all_effect:
  assumes "lazy_only w" "\<forall>d. lw_completes L d"
  shows "RemoveLock (ext ((drain_one L ^^ length (queue w)) w)) = RemoveLock (ext w) - length (queue w)"
    "Completed ((drain_one L ^^ length (queue w)) w) = Completed w"
    "SentDown ((drain_one L ^^ length (queue w)) w) = SentDown w"
    "Scatters ((drain_one L ^^ length (queue w)) w) = Scatters w"
    "queue ((drain_one L ^^ length (queue w)) w) = []"
proof -
  let ?P = "\<lambda>w w'. RemoveLock (ext w') = RemoveLock (ext w) - length (queue w) \<and>
     Completed w' = Completed w \<and> SentDown w' = SentDown w \<and> Scatters w' = Scatters w \<and> queue w' = []"
  have "?P w ((drain_one L ^^ length (queue w)) w)"
    using assms(1)
  proof (induction "length (queue w)" arbitrary: w)
    case 0
    then show ?case by simp
  next
    case (Suc k)
    then obtain it q where q: "queue w = it # q" by (cases "queue w") auto
    with Suc.prems have none: "it_Irp it = None" "list_all (\<lambda>it. it_Irp it = None) q"
      by (simp_all add: lazy_only_def)
    note e = drain_one_effect [OF q none(1) assms(2)]
    have "?P (drain_one L w) ((drain_one L ^^ length (queue (drain_one L w))) (drain_one L w))"
      using Suc.hyps(2) q none(2) by (intro Suc.hyps(1)) (simp_all add: e lazy_only_def)
    then show ?case using q by (simp add: e funpow_swap1)
  qed
  then show "RemoveLock (ext ((drain_one L ^^ length (queue w)) w)) = RemoveLock (ext w) - length (queue w)"
    "Completed ((drain_one L ^^ length (queue w)) w) = Completed w"
    "SentDown ((drain_one L ^^ length (queue w)) w) = SentDown w"
    "Scatters ((drain_one L ^^ length (queue w)) w) = Scatters w"
    "queue ((drain_one L ^^ length (queue w)) w) = []"
    by simp_all
qed

subsection \<open>Removal\<close>

text \<open>
  The stack below performs the lazy writes and leaves the contents alone when it flushes or gets
  the removal request; the worker can always build its requests and has enough fuel.
\<close>

definition quiet_stack :: "'d target_driver \<Rightarrow> ('d \<Rightarrow> contents) \<Rightarrow> bool" where
  "quiet_stack T C \<longleftrightarrow> all_succeed (tg_lower T) C \<and>
     (\<forall>r d. C (snd (tg_own T r d)) = C d) \<and> (\<forall>i d. C (snd (lw_pass (tg_lower T) i d)) = C d)"

definition can_drain :: "pnp_env \<Rightarrow> 'd world \<Rightarrow> bool" where
  "can_drain pe w \<longleftrightarrow> WorkerThread (ext w) \<and> lazy_only w \<and> length (queue w) < pe_fuel pe \<and>
     pe_builds pe = (\<lambda>_. True)"

lemma cleanup_drains:
  assumes "quiet_stack T C" "can_drain pe w"
  shows "\<exists>w'. QCacheCleanupDevice T pe w = Some w' \<and> queue w' = [] \<and> C (lower w') = view C w \<and>
     RemoveLock (ext w') = RemoveLock (ext w) - length (queue w) \<and> Completed w' = Completed w \<and>
     SentDown w' = SentDown w \<and> Scatters w' = Scatters w \<and> \<not> WorkerThread (ext w')"
proof -
  let ?w = "set_queue_event (w\<lparr>ext := (ext w)\<lparr>ShutdownThread := True\<rparr>\<rparr>)"
  let ?L = "tg_lower T"
  let ?w' = "(drain_one ?L ^^ length (queue ?w)) ?w"
  have same: "queue ?w = queue w" "view C ?w = view C w" "RemoveLock (ext ?w) = RemoveLock (ext w)"
    "Completed ?w = Completed w" "SentDown ?w = SentDown w" "Scatters ?w = Scatters w"
    "ShutdownThread (ext ?w)"
    by (simp_all add: set_queue_event_def view_def)
  have lazy: "lazy_only ?w" using assms(2) same(1) by (simp add: can_drain_def lazy_only_def)
  have run: "QCacheDeviceWorkerThread (pe_fuel pe) ?L (pe_builds pe) (pe_link_status pe) ?w = (Exited, ?w')"
    using assms same
    by (intro worker_drain_exits) (simp_all add: can_drain_def quiet_stack_def all_succeed_def)
  have "C (lower ?w') = view C ?w"
    using cache.drains_to_backing [of ?L C ?w] assms(1) lazy by (simp add: quiet_stack_def)
  moreover have "\<forall>d. lw_completes ?L d" using assms(1) by (simp add: quiet_stack_def all_succeed_def)
  ultimately show ?thesis
    using run drain_all_effect [OF lazy, of ?L] same assms(2)
    by (simp add: QCacheCleanupDevice_def can_drain_def Let_def)
qed

text \<open>
  A late answer reads and changes the scatter objects, the completed requests and the remove
  lock only, so it does the same before and after the queue was written out. The invariant: every
  waiting split read holds an acquisition.
\<close>

fun answer_all :: "(nat \<times> lower_irp \<times> answer) list \<Rightarrow> 'd world \<Rightarrow> 'd world option" where
  "answer_all [] w = Some w"
| "answer_all ((n, lo, a) # late) w = do {
     w1 \<leftarrow> LowerReadComplete n lo a w;
     answer_all late w1
   }"

definition same_reads :: "nat \<Rightarrow> 'd world \<Rightarrow> 'd world \<Rightarrow> bool" where
  "same_reads k w v \<longleftrightarrow> Scatters v = Scatters w \<and> Completed v = Completed w \<and>
     RemoveLock (ext w) = RemoveLock (ext v) + k \<and> length (Scatters v) \<le> RemoveLock (ext v)"

definition apart_from_reads :: "'d world \<Rightarrow> 'd world \<Rightarrow> bool" where
  "apart_from_reads w w' \<longleftrightarrow> queue w' = queue w \<and> lower w' = lower w \<and> SentDown w' = SentDown w"

lemma late_same:
  assumes "same_reads k w v" "LowerReadComplete n lo a w = Some w'"
  shows "\<exists>v'. LowerReadComplete n lo a v = Some v' \<and> same_reads k w' v' \<and> apart_from_reads v v'"
proof (cases "n < length (Scatters w) \<and> lo \<in> set (sc_Outstanding (Scatters w ! n))")
  case False
  with assms show ?thesis by (auto simp: LowerReadComplete_def same_reads_def apart_from_reads_def)
next
  case True
  with assms obtain sc where sc: "lower_done lo a (Scatters w ! n) = Some sc"
    by (auto simp: LowerReadComplete_def bind_eq_Some_conv)
  show ?thesis
  proof (cases "sc_ScatterCount sc = 0")
    case False
    with assms True sc show ?thesis
      by (auto simp: LowerReadComplete_def same_reads_def apart_from_reads_def settle_def)
  next
    case zero: True
    with assms True sc obtain i where "scatter_result sc = Some i"
      by (auto simp: LowerReadComplete_def settle_def scatter_destroy_def bind_eq_Some_conv)
    with zero assms True sc show ?thesis
      by (auto simp: LowerReadComplete_def same_reads_def apart_from_reads_def settle_def scatter_destroy_def
          IoCompleteRequest_def IoReleaseRemoveLock_def)
  qed
qed

lemma answered_same:
  assumes "same_reads k w v" "answer_all late w = Some w'"
  shows "\<exists>v'. answer_all late v = Some v' \<and> same_reads k w' v' \<and> apart_from_reads v v'"
  using assms
proof (induction late arbitrary: w v)
  case Nil
  then show ?case by (simp add: apart_from_reads_def)
next
  case (Cons x late)
  obtain n lo a where x: "x = (n, lo, a)" by (cases x)
  with Cons.prems(2) obtain w1 where w1: "LowerReadComplete n lo a w = Some w1" "answer_all late w1 = Some w'"
    by (auto simp: bind_eq_Some_conv)
  from late_same [OF Cons.prems(1) w1(1)] obtain v1 where
    v1: "LowerReadComplete n lo a v = Some v1" "same_reads k w1 v1" "apart_from_reads v v1" by blast
  from Cons.IH [OF v1(2) w1(2)] v1 show ?case by (auto simp: x apart_from_reads_def)
qed

lemma no_reads_left: "Scatters w = [] \<Longrightarrow> answer_all late w = Some w"
  by (induction late arbitrary: w) (auto simp: LowerReadComplete_def)

lemma answers_handled:
  assumes "scatters_ok w" "\<forall>(n, lo, a) \<in> set late. answer_fits lo a"
  shows "\<exists>w'. answer_all late w = Some w'"
  using assms
proof (induction late arbitrary: w)
  case Nil
  then show ?case by simp
next
  case (Cons x late)
  obtain n lo a where x: "x = (n, lo, a)" by (cases x)
  have "\<exists>w1. LowerReadComplete n lo a w = Some w1 \<and> scatters_ok w1"
  proof (cases "n < length (Scatters w) \<and> lo \<in> set (sc_Outstanding (Scatters w ! n))")
    case True
    with lower_read_complete [of w n lo a] Cons.prems show ?thesis by (auto simp: x)
  next
    case False
    then have "LowerReadComplete n lo a w = Some w" unfolding LowerReadComplete_def by (rule if_not_P)
    with Cons.prems(1) show ?thesis by simp
  qed
  with Cons show ?case by (auto simp: x)
qed

text \<open>The wait ends exactly when the answers that come release every acquisition.\<close>

lemma wait_outcome:
  assumes "answer_all late w = Some w'" "length (Scatters w) \<le> RemoveLock (ext w)"
  shows "wait_for_release late w = (if RemoveLock (ext w') = 0 then Some w' else None)"
  using assms
proof (induction late arbitrary: w)
  case Nil
  then show ?case by simp
next
  case (Cons x late)
  obtain n lo a where x: "x = (n, lo, a)" by (cases x)
  show ?case
  proof (cases "RemoveLock (ext w) = 0")
    case True
    with Cons.prems have "w' = w" using no_reads_left [of w "x # late"] by simp
    with True show ?thesis by (simp add: x)
  next
    case False
    from Cons.prems(1) obtain w1 where w1: "LowerReadComplete n lo a w = Some w1" "answer_all late w1 = Some w'"
      by (auto simp: x bind_eq_Some_conv)
    have "same_reads 0 w w" using Cons.prems(2) by (simp add: same_reads_def)
    from late_same [OF this w1(1)] w1(1) have "length (Scatters w1) \<le> RemoveLock (ext w1)"
      by (auto simp: same_reads_def)
    with Cons.IH [OF w1(2)] False w1(1) show ?thesis by (simp add: x)
  qed
qed

lemma remove_device_result:
  assumes "quiet_stack T C" "can_drain pe (fd_world D)"
  defines "w \<equiv> fd_world D"
  assumes "answer_all (pe_late pe) w = Some w'" "length (queue w) + length (Scatters w) < RemoveLock (ext w)"
  shows "if RemoveLock (ext w') = Suc (length (queue w))
     then \<exists>st D'. QCacheRemoveDevice T pe i D = Some (st, D') \<and> fd_Deleted D' \<and>
            queue (fd_world D') = [] \<and> C (lower (fd_world D')) = view C w \<and>
            Scatters (fd_world D') = [] \<and>
            Completed (fd_world D') = Completed w' \<and> SentDown (fd_world D') = SentDown w @ [i]
     else QCacheRemoveDevice T pe i D = None"
proof -
  have "can_drain pe (set_cached False w)"
    using assms(2) by (simp add: can_drain_def lazy_only_def w_def set_cached_def upd_stats_def)
  from cleanup_drains [OF assms(1) this] obtain w2 where
    w2: "QCacheCleanupDevice T pe (set_cached False w) = Some w2" "queue w2 = []"
    "C (lower w2) = view C w" "RemoveLock (ext w2) = RemoveLock (ext w) - length (queue w)"
    "Completed w2 = Completed w" "SentDown w2 = SentDown w" "Scatters w2 = Scatters w"
    by (auto simp: set_cached_def upd_stats_def view_def)
  obtain s a d where fl: "QCacheSynchronousReadWrite T (pe_irp_alloc pe) IRP_MJ_FLUSH_BUFFERS 0 (lower w2)
      = (s, a, d)"
    by (metis prod_cases3)
  have "C d = C (lower w2)"
  proof (cases "pe_irp_alloc pe")
    case True
    obtain b d2 where o: "tg_own T \<lparr>or_MajorFunction = IRP_MJ_FLUSH_BUFFERS, or_IoControlCode = 0,
        or_OutputBufferLength = 0\<rparr> (lower w2) = (b, d2)" by fastforce
    have "C (snd (tg_own T \<lparr>or_MajorFunction = IRP_MJ_FLUSH_BUFFERS, or_IoControlCode = 0,
        or_OutputBufferLength = 0\<rparr> (lower w2))) = C (lower w2)"
      using assms(1) by (simp add: quiet_stack_def)
    with True o fl show ?thesis by (simp add: QCacheSynchronousReadWrite_def)
  next
    case False
    with fl show ?thesis by (simp add: QCacheSynchronousReadWrite_def)
  qed
  moreover obtain st d3 where p: "lw_pass (tg_lower T) i d = (st, d3)" by fastforce
  moreover have "C (snd (lw_pass (tg_lower T) i d)) = C d"
    using assms(1) by (simp add: quiet_stack_def)
  ultimately have c: "C d3 = view C w" using w2(3) by simp
  let ?w3 = "w2\<lparr>lower := d3, SentDown := SentDown w2 @ [i]\<rparr>"
  let ?w4 = "IoReleaseRemoveLock ?w3"
  have R: "QCacheRemoveDevice T pe i D = do {
      w4 \<leftarrow> wait_for_release (pe_late pe) ?w4;
      Some (st, D\<lparr>fd_world := w4, fd_Attached := False, fd_Deleted := True\<rparr>)}"
    using w2(1) fl p
    by (simp add: QCacheRemoveDevice_def QCacheSendToNextDriver_def IoReleaseRemoveLockAndWait_def w_def)
  have "same_reads (Suc (length (queue w))) w ?w4"
    using assms(5) w2 by (simp add: same_reads_def IoReleaseRemoveLock_def)
  from answered_same [OF this assms(4)] obtain v' where
    v': "answer_all (pe_late pe) ?w4 = Some v'" "same_reads (Suc (length (queue w))) w' v'"
    "apart_from_reads ?w4 v'" by blast
  have "length (Scatters ?w4) \<le> RemoveLock (ext ?w4)"
    using assms(5) w2 by (simp add: IoReleaseRemoveLock_def)
  note wait = wait_outcome [OF v'(1) this]
  have e: "RemoveLock (ext v') = 0 \<longleftrightarrow> RemoveLock (ext w') = Suc (length (queue w))"
    "queue v' = []" "C (lower v') = view C w" "Completed v' = Completed w'" "SentDown v' = SentDown w @ [i]"
    "RemoveLock (ext v') = 0 \<Longrightarrow> Scatters v' = []"
    using v'(2,3) c w2 by (auto simp: same_reads_def apart_from_reads_def IoReleaseRemoveLock_def)
  show ?thesis
  proof (cases "RemoveLock (ext v') = 0")
    case True
    with e have "QCacheRemoveDevice T pe i D =
        Some (st, D\<lparr>fd_world := v', fd_Attached := False, fd_Deleted := True\<rparr>)"
      by (simp add: R wait)
    with True e show ?thesis by simp
  next
    case False
    with e(1) show ?thesis by (simp add: R wait)
  qed
qed

lemma pnp_is_remove:
  assumes "NT_SUCCESS (acquire_status (pe_env pe))" "ir_MinorFunction (pn_irp r) = IRP_MN_REMOVE_DEVICE"
  shows "QCachePnp T pe r D = QCacheRemoveDevice T pe (pn_irp r)
     (D\<lparr>fd_world := (fd_world D)\<lparr>ext := (fd_ext D)\<lparr>RemoveLock := Suc (RemoveLock (fd_ext D))\<rparr>\<rparr>\<rparr>)"
  using assms by (simp add: QCachePnp_def IoAcquireRemoveLock_def Let_def)

text \<open>
  C25: Removing a device with a running worker, lazy items only, requests that can be built,
  and enough loop turns for the queue, over a lower device that completes and performs its
  writes. The removal waits for the remove lock while the split reads under way are answered,
  in any order. If these answers release every acquisition but those of the queue, the removal
  returns, the queue has been written to the lower device, which then holds the logical
  contents, every split read was completed, and the request was passed down. If after them
  anything else still holds the lock (a lower read that is never answered, an acquisition that
  was leaked), it never returns.
\<close>

theorem pnp_remove:
  assumes "NT_SUCCESS (acquire_status (pe_env pe))" "ir_MinorFunction (pn_irp r) = IRP_MN_REMOVE_DEVICE"
    and "quiet_stack T C" "can_drain pe (fd_world D)" "device_ok (fd_world D)"
    and "\<forall>(n, lo, a) \<in> set (pe_late pe). answer_fits lo a"
  shows "\<exists>w'. answer_all (pe_late pe) (fd_world D) = Some w' \<and>
     (if RemoveLock (ext w') = length (queue (fd_world D))
      then \<exists>st D'. QCachePnp T pe r D = Some (st, D') \<and> fd_Deleted D' \<and>
            queue (fd_world D') = [] \<and> C (lower (fd_world D')) = view C (fd_world D) \<and>
            Scatters (fd_world D') = [] \<and> Completed (fd_world D') = Completed w' \<and>
            SentDown (fd_world D') = SentDown (fd_world D) @ [pn_irp r]
      else QCachePnp T pe r D = None)"
proof -
  define w where "w = fd_world D"
  let ?w1 = "w\<lparr>ext := (ext w)\<lparr>RemoveLock := Suc (RemoveLock (ext w))\<rparr>\<rparr>"
  let ?D = "D\<lparr>fd_world := ?w1\<rparr>"
  have P: "QCachePnp T pe r D = QCacheRemoveDevice T pe (pn_irp r) ?D"
    unfolding w_def using assms(1,2) by (rule pnp_is_remove)
  have lock: "length (queue w) + length (Scatters w) \<le> RemoveLock (ext w)"
    using assms(5) by (simp add: w_def device_ok_def queue_inv_def)
  have "scatters_ok ?w1" using assms(5) by (simp add: w_def device_ok_def scatters_ok_def)
  then obtain w1 where w1: "answer_all (pe_late pe) ?w1 = Some w1"
    using answers_handled [of ?w1 "pe_late pe"] assms(6) by blast
  have "same_reads 1 ?w1 w" using lock by (simp add: same_reads_def)
  from answered_same [OF this w1] obtain w' where
    w': "answer_all (pe_late pe) w = Some w'" "same_reads 1 w1 w'" by blast
  have "can_drain pe (fd_world ?D)" using assms(4) by (simp add: can_drain_def lazy_only_def w_def)
  from remove_device_result [OF assms(3) this, of w1 "pn_irp r"] w1 w' lock show ?thesis
    unfolding P w_def [symmetric] by (simp add: view_def same_reads_def cong: if_cong)
qed

text \<open>
  Which lazy writes leave an acquisition behind: those that fail after the remove lock was
  taken.
\<close>

lemma lazy_leak:
  assumes "item_alloc e" "NT_SUCCESS (acquire_status e)" "ir_MajorFunction i = IRP_MJ_WRITE"
    and "\<not> mdl_mapped e \<or> \<not> buffer_alloc e"
  shows "\<exists>w'. QCacheQueueLazyWriteIrp e i w = Some (STATUS_INSUFFICIENT_RESOURCES, w') \<and>
     RemoveLock (ext w') = Suc (RemoveLock (ext w)) \<and> queue w' = queue w \<and>
     PoolItems w' = (if mdl_mapped e then PoolItems w else Suc (PoolItems w)) \<and>
     WorkerThread (ext w') = WorkerThread (ext w) \<and> Scatters w' = Scatters w"
  using assms
  by (auto simp: QCacheQueueLazyWriteIrp_def IoAcquireRemoveLock_def complete_with_def
      IoCompleteRequest_def Let_def)

text \<open>
  An acquisition that neither a queued item nor a split read holds is never given back, whatever
  answers still come.
\<close>

lemma late_release:
  assumes "LowerReadComplete n lo a w = Some w'" "length (Scatters w) + k \<le> RemoveLock (ext w)"
  shows "length (Scatters w') + k \<le> RemoveLock (ext w')"
  using assms
  by (auto simp: LowerReadComplete_def bind_eq_Some_conv settle_def scatter_destroy_def IoCompleteRequest_def
      IoReleaseRemoveLock_def split: if_splits)

lemma lock_kept:
  assumes "answer_all late w = Some w'" "length (Scatters w) + k \<le> RemoveLock (ext w)"
  shows "length (Scatters w') + k \<le> RemoveLock (ext w')"
  using assms
proof (induction late arbitrary: w)
  case Nil
  then show ?case by simp
next
  case (Cons x late)
  then show ?case by (cases x) (auto simp: bind_eq_Some_conv dest: late_release)
qed

lemma held_lock_blocks:
  assumes "NT_SUCCESS (acquire_status (pe_env pe))" "ir_MinorFunction (pn_irp r) = IRP_MN_REMOVE_DEVICE"
    and "quiet_stack T C" "can_drain pe (fd_world D)" "Scatters (fd_world D) = []"
    and "length (queue (fd_world D)) < RemoveLock (fd_ext D)"
  shows "QCachePnp T pe r D = None"
proof -
  let ?D = "D\<lparr>fd_world := (fd_world D)\<lparr>ext := (fd_ext D)\<lparr>RemoveLock := Suc (RemoveLock (fd_ext D))\<rparr>\<rparr>\<rparr>"
  have "can_drain pe (fd_world ?D)" using assms(4) by (simp add: can_drain_def lazy_only_def)
  from remove_device_result [OF assms(3) this, of "fd_world ?D" "pn_irp r"] assms(5,6) show ?thesis
    unfolding pnp_is_remove [OF assms(1,2)] by (simp add: no_reads_left)
qed

text \<open>
  A lower device that never completes the request of the head: the worker never exits, and the
  removal never gets beyond waiting for it.
\<close>

lemma hung_cleanup:
  assumes "WorkerThread (ext w)" "queue w = it # q" "\<forall>k. pe_builds pe k"
    and "dispatch_waits (tg_lower T) True it (lower w)"
  shows "QCacheCleanupDevice T pe w = None"
proof -
  let ?w = "set_queue_event (w\<lparr>ext := (ext w)\<lparr>ShutdownThread := True\<rparr>\<rparr>)"
  have "queue ?w = it # q" "lower ?w = lower w" using assms(2) by (simp_all add: set_queue_event_def)
  with assms(1,3,4) worker_hangs [of ?w it q "pe_builds pe" "tg_lower T" "pe_fuel pe" "pe_link_status pe"]
  show ?thesis by (simp add: QCacheCleanupDevice_def)
qed

text \<open>
  C20: When the lower device does not complete the request of the first queued item, the
  worker waits inside the dispatch of that item, the queue stays as it is, and a removal of
  the device, which waits for the worker, never returns.
\<close>

theorem hung_device_blocks_removal:
  assumes "NT_SUCCESS (acquire_status (pe_env pe))" "ir_MinorFunction (pn_irp r) = IRP_MN_REMOVE_DEVICE"
    and "WorkerThread (fd_ext D)" "queue (fd_world D) = it # q" "\<forall>k. pe_builds pe k"
    and "dispatch_waits (tg_lower T) True it (lower (fd_world D))"
  shows "QCacheDeviceWorkerThread (Suc n) (tg_lower T) (pe_builds pe) ls (fd_world D) = (Hanging, fd_world D) \<and>
     QCachePnp T pe r D = None"
proof -
  have "QCacheCleanupDevice T pe (set_cached False
      ((fd_world D)\<lparr>ext := (fd_ext D)\<lparr>RemoveLock := Suc (RemoveLock (fd_ext D))\<rparr>\<rparr>)) = None"
    using assms(3-6) by (intro hung_cleanup) (simp_all add: set_cached_def upd_stats_def)
  then have "QCachePnp T pe r D = None"
    unfolding pnp_is_remove [OF assms(1,2)] by (simp add: QCacheRemoveDevice_def)
  with worker_hangs [OF assms(4,5,6)] show ?thesis by simp
qed

end
