(* ===== verification/QC_Usage.thy ===== *)
theory QC_Usage
  imports QC_Pnp
begin

section \<open>Paging-path notifications, initialization, and the balance of the remove lock\<close>

text \<open>
  Properties of the plug and play paths other than removal. The power-pagable flag follows the
  paging-path count through every notification, successful or failed; the initialization event
  is always handed back; and every plug and play request but the removal leaves the remove lock
  as it found it and is owned in one place.
\<close>

subsection \<open>Flags as bits\<close>

lemma flag_bits:
  "has_flag f DO_POWER_PAGABLE \<longleftrightarrow> bit f 13" "has_flag f DO_POWER_INRUSH \<longleftrightarrow> bit f 14"
proof -
  have p: "(0x2000 :: ULONG) = 2 ^ 13" "(0x4000 :: ULONG) = 2 ^ 14" by simp_all
  show "has_flag f DO_POWER_PAGABLE \<longleftrightarrow> bit f 13" "has_flag f DO_POWER_INRUSH \<longleftrightarrow> bit f 14"
    unfolding has_flag_def p and_exp_eq_0_iff_not_bit by simp_all
qed

lemma pagable_bits:
  "n < 32 \<Longrightarrow> bit (set_flag f DO_POWER_PAGABLE) n \<longleftrightarrow> bit f n \<or> n = 13"
  "n < 32 \<Longrightarrow> bit (clear_flag f DO_POWER_PAGABLE) n \<longleftrightarrow> bit f n \<and> n \<noteq> 13"
proof -
  have p: "DO_POWER_PAGABLE = set_bit 13 0"
    by (simp add: set_bit_eq_or)
  have b: "bit (set_bit 13 0 :: ULONG) n \<longleftrightarrow> n = 13" for n
    unfolding bit_set_bit_iff by auto
  show "n < 32 \<Longrightarrow> bit (set_flag f DO_POWER_PAGABLE) n \<longleftrightarrow> bit f n \<or> n = 13"
    unfolding set_flag_def p bit_or_iff b ..
  show "n < 32 \<Longrightarrow> bit (clear_flag f DO_POWER_PAGABLE) n \<longleftrightarrow> bit f n \<and> n \<noteq> 13"
    unfolding clear_flag_def p bit_and_iff bit_not_iff b by simp
qed

lemma pagable_undo:
  assumes "\<not> bit f 13"
  shows "clear_flag (set_flag f DO_POWER_PAGABLE) DO_POWER_PAGABLE = f"
proof (rule bit_word_eqI)
  fix n assume "n < LENGTH(32)"
  then show "bit (clear_flag (set_flag f DO_POWER_PAGABLE) DO_POWER_PAGABLE) n = bit f n"
    using assms by (auto simp: pagable_bits)
qed

subsection \<open>The paging-path count and the pagable flag\<close>

definition paging_count :: "'d filter_device \<Rightarrow> int" where
  "paging_count D = sint (PagingPathCount (stats (fd_world D)))"

text \<open>
  A device in a paging path is not pagable; a device in none is, unless it draws inrush power.
\<close>

definition pagable_ok :: "'d filter_device \<Rightarrow> bool" where
  "pagable_ok D \<longleftrightarrow> 0 \<le> paging_count D \<and>
     (0 < paging_count D \<longrightarrow> \<not> has_flag (fd_Flags D) DO_POWER_PAGABLE) \<and>
     (paging_count D = 0 \<and> \<not> has_flag (fd_Flags D) DO_POWER_INRUSH \<longrightarrow>
        has_flag (fd_Flags D) DO_POWER_PAGABLE)"

definition usage_valid :: "pnp_request \<Rightarrow> 'd filter_device \<Rightarrow> bool" where
  "usage_valid r D \<longleftrightarrow> pn_Type r \<noteq> OtherUsageType \<and>
     (if pn_InPath r then paging_count D < 2147483647 else 0 < paging_count D)"

lemma sint32_step:
  "sint (c :: LONG) < 2147483647 \<Longrightarrow> sint (c + 1) = sint c + 1"
  "0 < sint (c :: LONG) \<Longrightarrow> sint (c - 1) = sint c - 1"
proof -
  have r: "- 2147483648 \<le> sint c" "sint c < 2147483648"
    using sint_range_size [of c] by (simp_all add: word_size)
  have id: "signed_take_bit 31 k = k" if "- 2147483648 \<le> k" "k < 2147483648" for k :: int
    using that by (intro signed_take_bit_int_eq_self) simp_all
  show "sint c < 2147483647 \<Longrightarrow> sint (c + 1) = sint c + 1"
    using r by (simp add: sint_word_ariths id)
  show "0 < sint c \<Longrightarrow> sint (c - 1) = sint c - 1"
    using r by (simp add: sint_word_ariths id)
qed

lemma count_is_one: "(c :: LONG) = 1 \<longleftrightarrow> sint c = 1"
proof
  assume "sint c = 1"
  then have "sint c = sint (1 :: LONG)" by simp
  then show "c = 1" by (rule signed_word_eqI)
qed simp

text \<open>
  The flags after a notification: the pagable flag is set early, before the request is sent down,
  and taken back when the lower driver refuses.
\<close>

definition flags_after :: "bool \<Rightarrow> bool \<Rightarrow> LONG \<Rightarrow> LONG \<Rightarrow> ULONG \<Rightarrow> ULONG" where
  "flags_after ok in_path c c2 f =
     (let early = \<not> in_path \<and> c = 1 \<and> \<not> has_flag f DO_POWER_INRUSH;
          f1 = (if early then set_flag f DO_POWER_PAGABLE else f)
      in if ok then if in_path \<and> c2 = 1 then clear_flag f1 DO_POWER_PAGABLE else f1
         else if early then clear_flag f1 DO_POWER_PAGABLE else f1)"

lemma usage_result:
  assumes "PagingPathCountEvent (fd_ext D)" "pn_Type r \<noteq> OtherUsageType"
    and "QCacheForwardIrpSynchronous T (pn_irp r) (set_paging_event False (fd_world D)) = (st, i', w1)"
  defines "w2 \<equiv> if NT_SUCCESS st then IoAdjustPagingPathCount (pn_InPath r) w1 else w1"
  shows "QCacheDeviceUsageNotification T r D = Some (st, D\<lparr>
     fd_Flags := flags_after (NT_SUCCESS st) (pn_InPath r) (PagingPathCount (stats (fd_world D)))
                   (PagingPathCount (stats w2)) (fd_Flags D),
     fd_world := IoCompleteRequest i' (set_paging_event True w2)\<rparr>)"
proof -
  have ty: "(pn_Type r \<noteq> DeviceUsageTypePaging \<and> pn_Type r \<noteq> DeviceUsageTypeHibernation \<and>
      pn_Type r \<noteq> DeviceUsageTypeDumpFile) = False"
    using assms(2) by (cases "pn_Type r") simp_all
  have ev: "stats (set_paging_event False (fd_world D)) = stats (fd_world D)" by (simp add: set_paging_event_def)
  show ?thesis
    unfolding QCacheDeviceUsageNotification_def Let_def assms(3) prod.case ty ev w2_def flags_after_def
    using assms(1) by (simp only: if_False not_True_eq_False conj_assoc)
qed

lemma flags_after_ok:
  assumes "0 < sint c \<Longrightarrow> \<not> bit f 13" "sint c = 0 \<Longrightarrow> \<not> bit f 14 \<Longrightarrow> bit f 13" "0 \<le> sint c"
    and "sint c2 = (if \<not> ok then sint c else if in_path then sint c + 1 else sint c - 1)"
    and "ok \<Longrightarrow> \<not> in_path \<Longrightarrow> 0 < sint c"
  defines "f' \<equiv> flags_after ok in_path c c2 f"
  shows "\<not> ok \<Longrightarrow> f' = f" "0 < sint c2 \<Longrightarrow> \<not> bit f' 13" "sint c2 = 0 \<Longrightarrow> \<not> bit f' 14 \<Longrightarrow> bit f' 13"
proof -
  show u: "f' = f" if "\<not> ok"
    using that assms(1) by (auto simp: f'_def flags_after_def Let_def count_is_one pagable_undo)
  have d: "f' = (if in_path \<and> sint c2 = 1 then clear_flag f DO_POWER_PAGABLE
      else if \<not> in_path \<and> sint c = 1 \<and> \<not> bit f 14 then set_flag f DO_POWER_PAGABLE else f)" if ok
    using that by (auto simp: f'_def flags_after_def Let_def count_is_one flag_bits)
  show "\<not> bit f' 13" if "0 < sint c2"
  proof (cases ok)
    case True
    with that assms(1,3-5) d show ?thesis by (simp add: pagable_bits split: if_splits)
  next
    case False
    with that assms(1,4) u show ?thesis by simp
  qed
  show "bit f' 13" if "sint c2 = 0" "\<not> bit f' 14"
  proof (cases ok)
    case True
    with that assms(2-5) d show ?thesis by (simp add: pagable_bits split: if_splits)
  next
    case False
    with that assms(2,4) u show ?thesis by simp
  qed
qed

text \<open>
  C27: A usage notification keeps the pagable flag in step with the paging-path count (not
  pagable in a paging path, pagable outside one unless the device draws inrush power), counts
  a notification exactly when the lower driver accepted it, and restores the flags when it did
  not.
\<close>

theorem usage_notification:
  assumes "PagingPathCountEvent (fd_ext D)" "pagable_ok D" "usage_valid r D"
  shows "\<exists>st D'. QCacheDeviceUsageNotification T r D = Some (st, D') \<and> pagable_ok D' \<and>
     PagingPathCountEvent (fd_ext D') \<and>
     paging_count D' = (if \<not> NT_SUCCESS st then paging_count D
                        else if pn_InPath r then paging_count D + 1 else paging_count D - 1) \<and>
     (\<not> NT_SUCCESS st \<longrightarrow> fd_Flags D' = fd_Flags D)"
proof -
  obtain st i' w1 where f:
    "QCacheForwardIrpSynchronous T (pn_irp r) (set_paging_event False (fd_world D)) = (st, i', w1)"
    by (metis prod_cases3)
  then have w1: "stats w1 = stats (fd_world D)"
    by (auto simp: QCacheForwardIrpSynchronous_def set_paging_event_def split: prod.splits)
  let ?c = "PagingPathCount (stats (fd_world D))"
  let ?w2 = "if NT_SUCCESS st then IoAdjustPagingPathCount (pn_InPath r) w1 else w1"
  have c2: "sint (PagingPathCount (stats ?w2)) =
      (if \<not> NT_SUCCESS st then sint ?c else if pn_InPath r then sint ?c + 1 else sint ?c - 1)"
    using assms(3)
    by (simp add: IoAdjustPagingPathCount_def upd_stats_def w1 usage_valid_def paging_count_def sint32_step
        split: if_splits)
  have pg: "0 < sint ?c \<Longrightarrow> \<not> bit (fd_Flags D) 13"
    "sint ?c = 0 \<Longrightarrow> \<not> bit (fd_Flags D) 14 \<Longrightarrow> bit (fd_Flags D) 13" "0 \<le> sint ?c"
    and pos: "NT_SUCCESS st \<Longrightarrow> \<not> pn_InPath r \<Longrightarrow> 0 < sint ?c"
    using assms(2,3) by (auto simp: pagable_ok_def usage_valid_def paging_count_def flag_bits)
  note fl = flags_after_ok [OF pg c2 pos]
  have ty: "pn_Type r \<noteq> OtherUsageType" using assms(3) by (simp add: usage_valid_def)
  let ?f = "flags_after (NT_SUCCESS st) (pn_InPath r) ?c (PagingPathCount (stats ?w2)) (fd_Flags D)"
  let ?D = "D\<lparr>fd_Flags := ?f, fd_world := IoCompleteRequest i' (set_paging_event True ?w2)\<rparr>"
  have fin: "paging_count ?D = sint (PagingPathCount (stats ?w2))" "PagingPathCountEvent (fd_ext ?D)"
    "fd_Flags ?D = ?f"
    by (simp_all add: IoCompleteRequest_def set_paging_event_def paging_count_def del: if_split)
  have "0 \<le> paging_count ?D" unfolding fin(1) c2 using pg(3) pos by auto
  then have "pagable_ok ?D" unfolding pagable_ok_def fin(1,3) flag_bits using fl(2,3) by blast
  moreover have "paging_count ?D = (if \<not> NT_SUCCESS st then paging_count D
      else if pn_InPath r then paging_count D + 1 else paging_count D - 1)"
    unfolding fin(1) c2 paging_count_def [of D] ..
  moreover have "\<not> NT_SUCCESS st \<longrightarrow> fd_Flags ?D = fd_Flags D" unfolding fin(3) using fl(1) ..
  ultimately show ?thesis
    using usage_result [OF assms(1) ty f] fin(2) by (intro exI [of _ st] exI [of _ ?D] conjI)
qed

subsection \<open>Initialization\<close>

text \<open>What initialization and forwarding leave alone.\<close>

definition request_frame :: "'d world \<Rightarrow> 'd world \<Rightarrow> bool" where
  "request_frame w w' \<longleftrightarrow> queue w' = queue w \<and> RemoveLock (ext w') = RemoveLock (ext w) \<and>
     Completed w' = Completed w \<and> SentDown w' = SentDown w \<and> Scatters w' = Scatters w \<and>
     IsCached (stats w') = IsCached (stats w)"

lemma request_frame_trans: "request_frame w1 w2 \<Longrightarrow> request_frame w2 w3 \<Longrightarrow> request_frame w1 w3"
  by (simp add: request_frame_def)

lemma request_frame_owned: "request_frame w w' \<Longrightarrow> owned w' = owned w"
  by (simp add: request_frame_def owned_def)

lemma initialize_unsafe:
  assumes "QCacheInitializeDeviceUnsafe T ok w = (st, w')"
  shows "request_frame w w'" "LastErrorCode (stats w') = st"
    "Size (stats w) \<noteq> 0 \<Longrightarrow> Size (stats w') = Size (stats w) \<and> st = STATUS_SUCCESS"
    "\<not> NT_SUCCESS st \<Longrightarrow> Size (stats w') = Size (stats w)"
    "InitializationEvent (ext w') = InitializationEvent (ext w)"
    "PagingPathCountEvent (ext w') = PagingPathCountEvent (ext w)"
  using assms
  by (auto simp: QCacheInitializeDeviceUnsafe_def set_last_error_def upd_stats_def request_frame_def
      Let_def split: if_splits prod.splits)

lemma initialize_device:
  assumes "InitializationEvent (ext w)"
  shows "\<exists>st w'. QCacheInitializeDevice T ok w = Some (st, w') \<and> InitializationEvent (ext w') \<and>
     PagingPathCountEvent (ext w') = PagingPathCountEvent (ext w) \<and>
     request_frame w w' \<and> LastErrorCode (stats w') = st \<and>
     (Size (stats w) \<noteq> 0 \<or> \<not> NT_SUCCESS st \<longrightarrow> Size (stats w') = Size (stats w))"
proof -
  let ?w = "w\<lparr>ext := (ext w)\<lparr>InitializationEvent := False\<rparr>\<rparr>"
  obtain st w2 where u: "QCacheInitializeDeviceUnsafe T ok ?w = (st, w2)" by fastforce
  from initialize_unsafe [OF u] assms u show ?thesis
    by (auto simp: QCacheInitializeDevice_def request_frame_def)
qed

subsection \<open>Balance of the remove lock\<close>

lemma forward_frame:
  assumes "QCacheForwardIrpSynchronous T i w = (st, i', w1)" "same_irp (tg_lower T)"
  shows "request_frame w w1" "ir_id i' = ir_id i" "stats w1 = stats w"
    "InitializationEvent (ext w1) = InitializationEvent (ext w)"
    "PagingPathCountEvent (ext w1) = PagingPathCountEvent (ext w)"
proof -
  obtain s d where l: "lw_forward (tg_lower T) i (lower w) = (s, i', d)" "w1 = w\<lparr>lower := d\<rparr>"
    using assms(1) by (auto simp: QCacheForwardIrpSynchronous_def split: prod.splits)
  have "ir_id (fst (snd (lw_forward (tg_lower T) i (lower w)))) = ir_id i"
    using assms(2) unfolding same_irp_def by blast
  then show "ir_id i' = ir_id i" by (simp add: l(1))
  show "request_frame w w1" "stats w1 = stats w"
    "InitializationEvent (ext w1) = InitializationEvent (ext w)"
    "PagingPathCountEvent (ext w1) = PagingPathCountEvent (ext w)"
    by (simp_all add: l(2) request_frame_def)
qed

text \<open>
  What a handler leaves behind: both events are set, for the next request to consume; lock,
  queue and attachment are as before. A handler of a device returns, owns the request, and keeps
  this.
\<close>

definition pnp_kept :: "'d filter_device \<Rightarrow> 'd filter_device \<Rightarrow> bool" where
  "pnp_kept D D' \<longleftrightarrow> InitializationEvent (fd_ext D') \<and> PagingPathCountEvent (fd_ext D') \<and>
     RemoveLock (fd_ext D') = RemoveLock (fd_ext D) \<and> queue (fd_world D') = queue (fd_world D) \<and>
     fd_Attached D' = fd_Attached D \<and> fd_Deleted D' = fd_Deleted D"

definition pnp_handled :: "irp \<Rightarrow> 'd filter_device \<Rightarrow> (NTSTATUS \<times> 'd filter_device) option \<Rightarrow> bool" where
  "pnp_handled i D r =
     (case r of
        None \<Rightarrow> False
      | Some (_, D') \<Rightarrow> owned (fd_world D') = add_mset (ir_id i) (owned (fd_world D)) \<and> pnp_kept D D')"

lemma start_handled:
  assumes "same_irp (tg_lower T)" "InitializationEvent (fd_ext D)" "PagingPathCountEvent (fd_ext D)"
  shows "pnp_handled i D (QCacheStartDevice T pe i D)"
proof -
  obtain st i' w1 where f: "QCacheForwardIrpSynchronous T i (fd_world D) = (st, i', w1)"
    by (metis prod_cases3)
  note ff = forward_frame [OF f assms(1)]
  have "\<exists>w2. (if IsCached (stats w1) \<and> Size (stats w1) = 0
               then map_option snd (QCacheInitializeDevice T (pe_irp_alloc pe) w1)
               else Some w1) = Some w2 \<and> request_frame (fd_world D) w2 \<and>
             InitializationEvent (ext w2) \<and> PagingPathCountEvent (ext w2)"
  proof (cases "IsCached (stats w1) \<and> Size (stats w1) = 0")
    case True
    have "InitializationEvent (ext w1)" using ff(4) assms(2) by simp
    from initialize_device [OF this, of T "pe_irp_alloc pe"] True ff(1,5) assms(3) show ?thesis
      by (auto dest: request_frame_trans)
  next
    case False
    with ff(1,4,5) assms(2,3) show ?thesis by auto
  qed
  then obtain w2 where w2: "(if IsCached (stats w1) \<and> Size (stats w1) = 0
               then map_option snd (QCacheInitializeDevice T (pe_irp_alloc pe) w1)
               else Some w1) = Some w2" "request_frame (fd_world D) w2"
               "InitializationEvent (ext w2)" "PagingPathCountEvent (ext w2)"
    by blast
  have "QCacheStartDevice T pe i D = Some (st, (QCacheSyncFilterWithTarget T (D\<lparr>fd_world := w1\<rparr>))
      \<lparr>fd_world := IoCompleteRequest (i'\<lparr>ir_Status := st\<rparr>) w2\<rparr>)"
    unfolding QCacheStartDevice_def f Let_def prod.case w2(1) by simp
  then show ?thesis
    using w2(2-4) request_frame_owned [OF w2(2)] ff(2)
    by (simp add: pnp_handled_def pnp_kept_def QCacheSyncFilterWithTarget_def request_frame_def queue_complete)
      (simp add: IoCompleteRequest_def)
qed

lemma on_world_send:
  assumes "InitializationEvent (fd_ext D)" "PagingPathCountEvent (fd_ext D)"
  shows "pnp_handled i D (Some (on_world (QCacheSendToNextDriver L i) D))"
proof -
  obtain st w' where s: "QCacheSendToNextDriver L i (fd_world D) = (st, w')" by fastforce
  have "ext w' = fd_ext D"
    using s by (auto simp: QCacheSendToNextDriver_def split: prod.splits)
  with s owned_send [OF s] device_ok_send(2) [OF s] show ?thesis
    using assms by (simp add: on_world_def pnp_handled_def pnp_kept_def)
qed

lemma usage_handled:
  assumes "same_irp (tg_lower T)" "PagingPathCountEvent (fd_ext D)" "InitializationEvent (fd_ext D)"
  shows "pnp_handled (pn_irp r) D (QCacheDeviceUsageNotification T r D)"
proof (cases "pn_Type r = OtherUsageType")
  case True
  then show ?thesis
    using on_world_send [OF assms(3,2)] by (simp add: QCacheDeviceUsageNotification_def)
next
  case False
  obtain st i' w1 where f:
    "QCacheForwardIrpSynchronous T (pn_irp r) (set_paging_event False (fd_world D)) = (st, i', w1)"
    by (metis prod_cases3)
  note ff = forward_frame [OF f assms(1)]
  let ?w2 = "if NT_SUCCESS st then IoAdjustPagingPathCount (pn_InPath r) w1 else w1"
  have "request_frame (fd_world D) (set_paging_event True ?w2)"
    "InitializationEvent (ext (set_paging_event True ?w2))" "PagingPathCountEvent (ext (set_paging_event True ?w2))"
    using ff(1,4) assms(3) by (simp_all add: request_frame_def set_paging_event_def IoAdjustPagingPathCount_def upd_stats_def)
  moreover from this(1) have "owned (set_paging_event True ?w2) = owned (fd_world D)" by (rule request_frame_owned)
  ultimately show ?thesis
    unfolding usage_result [OF assms(2) False f]
    using ff(2)
    by (cases "NT_SUCCESS st")
      (simp_all add: pnp_handled_def pnp_kept_def request_frame_def queue_complete, simp_all add: IoCompleteRequest_def)
qed

lemma pnp_once:
  assumes "same_irp (tg_lower T)" "InitializationEvent (fd_ext D)" "PagingPathCountEvent (fd_ext D)"
    and "ir_MinorFunction (pn_irp r) \<noteq> IRP_MN_REMOVE_DEVICE"
  shows "pnp_handled (pn_irp r) D (QCachePnp T pe r D)"
proof (cases "NT_SUCCESS (acquire_status (pe_env pe))")
  case False
  then show ?thesis
    using assms(2,3)
    by (simp add: QCachePnp_def IoAcquireRemoveLock_def pnp_handled_def pnp_kept_def on_world_def complete_with_def
        queue_complete) (simp add: IoCompleteRequest_def)
next
  case True
  let ?w = "fd_world D"
  let ?D = "D\<lparr>fd_world := ?w\<lparr>ext := (ext ?w)\<lparr>RemoveLock := Suc (RemoveLock (ext ?w))\<rparr>\<rparr>\<rparr>"
  let ?rel = "\<lambda>(st, E). (st, E\<lparr>fd_world := IoReleaseRemoveLock (fd_world E)\<rparr>)"
  have rel: "pnp_handled i D (map_option ?rel r)" if "pnp_handled i ?D r" for i r
    using that by (auto simp: pnp_handled_def pnp_kept_def IoReleaseRemoveLock_def owned_def split: option.splits)
  have send: "pnp_handled (pn_irp r) D
      (Some (?rel (on_world (QCacheSendToNextDriver (tg_lower T) (pn_irp r)) ?D)))"
    using rel [OF on_world_send [of ?D "pn_irp r" "tg_lower T"]] assms(2,3) by simp
  have "pnp_handled (pn_irp r) D (map_option ?rel (QCacheStartDevice T pe (pn_irp r) ?D))"
    using assms by (intro rel start_handled) simp_all
  moreover have "pnp_handled (pn_irp r) D (map_option ?rel (QCacheDeviceUsageNotification T r ?D))"
    using assms by (intro rel usage_handled) simp_all
  ultimately show ?thesis
    using True assms(4) send by (simp add: QCachePnp_def IoAcquireRemoveLock_def Let_def)
qed

text \<open>So any number of such requests, in any order.\<close>

interpretation plug: request_handler "\<lambda>q. QCachePnp T (fst q) (snd q)" "\<lambda>q. ir_id (pn_irp (snd q))"
  "\<lambda>q. ir_MinorFunction (pn_irp (snd q)) \<noteq> IRP_MN_REMOVE_DEVICE"
  "\<lambda>D. same_irp (tg_lower T) \<and> pnp_kept D0 D" "\<lambda>D. owned (fd_world D)"
  for T :: "'d target_driver" and D0 :: "'d filter_device"
proof (unfold_locales, goal_cases)
  case (1 D q)
  then have "pnp_handled (pn_irp (snd q)) D (QCachePnp T (fst q) (snd q) D)"
    by (intro pnp_once) (simp_all add: pnp_kept_def)
  with 1 show ?case by (auto simp: pnp_handled_def pnp_kept_def split: option.splits)
qed

text \<open>
  C26: Any sequence of plug and play requests other than removals, on a device with its
  initialization and paging events set and a lower driver that completes what is forwarded to
  it: no handler faults or waits for an event that is not set, both events are set again
  afterwards, every request ends in exactly one place, and the remove lock, the queue and the
  attachment are as before.
\<close>

theorem pnp_other_handled:
  assumes "same_irp (tg_lower T)" "InitializationEvent (fd_ext D)" "PagingPathCountEvent (fd_ext D)"
    and "list_all (\<lambda>q. ir_MinorFunction (pn_irp (snd q)) \<noteq> IRP_MN_REMOVE_DEVICE) qs"
  shows "\<exists>D'. run_requests (\<lambda>q. QCachePnp T (fst q) (snd q)) qs D = Some D' \<and>
     InitializationEvent (fd_ext D') \<and> PagingPathCountEvent (fd_ext D') \<and>
     owned (fd_world D') = owned (fd_world D) + mset (map (\<lambda>q. ir_id (pn_irp (snd q))) qs) \<and>
     RemoveLock (fd_ext D') = RemoveLock (fd_ext D) \<and> queue (fd_world D') = queue (fd_world D) \<and>
     fd_Attached D' = fd_Attached D \<and> fd_Deleted D' = fd_Deleted D"
  using plug.runs [of T D D qs] assms by (auto simp: pnp_kept_def)

end
