(* ===== verification/QC_Entry.thy ===== *)
theory QC_Entry
  imports QC_Usage
begin

section \<open>Loading and unloading the driver\<close>

text \<open>
  \<open>DriverEntry\<close> and \<open>QCacheUnload\<close> of \<open>src/qcache/mainwdm.cpp\<close>: the event objects, the path of
  the parameters key, the two queue limits, the dispatch table, and the loop that attaches to
  the devices named in the registry. Memory is a list of words; reading or writing outside it
  is \<open>None\<close>. The results of the kernel's object and registry services are parameters.
\<close>

subsection \<open>Wide strings in memory\<close>

fun wcsnlen :: "WCHAR list \<Rightarrow> nat \<Rightarrow> nat option" where
  "wcsnlen cs 0 = Some 0"
| "wcsnlen [] (Suc n) = None"
| "wcsnlen (c # cs) (Suc n) = (if c = 0 then Some 0 else map_option Suc (wcsnlen cs n))"

lemma wcsnlen_name:
  "0 \<notin> set s \<Longrightarrow> length s < n \<Longrightarrow> wcsnlen (s @ 0 # rest) n = Some (length s)"
proof (induction s arbitrary: n)
  case Nil
  then show ?case by (cases n) auto
next
  case (Cons c s)
  then show ?case by (cases n) auto
qed

lemma wcsnlen_full:
  "0 \<notin> set s \<Longrightarrow> wcsnlen (s @ rest) (length s) = Some (length s)"
  by (induction s) auto

subsection \<open>The path of the parameters key\<close>

text \<open>
  The buffer has \<open>MaximumLength\<close> bytes, a 16-bit sum. \<open>RtlCopyUnicodeString\<close> copies at most
  that many bytes, \<open>RtlAppendUnicodeToString\<close> appends only what fits entirely, and the word
  after the string is then cleared. The suffix is a backslash and the word Parameters.
\<close>

definition parameters_suffix :: "WCHAR list" where
  "parameters_suffix = [0x5C, 0x50, 0x61, 0x72, 0x61, 0x6D, 0x65, 0x74, 0x65, 0x72, 0x73]"

definition key_path_bytes :: "WCHAR list \<Rightarrow> USHORT" where
  "key_path_bytes registry_path = of_nat (2 * length registry_path) + 24"

definition parameters_key_path :: "WCHAR list \<Rightarrow> WCHAR list option" where
  "parameters_key_path registry_path =
     (let max_words = unat (key_path_bytes registry_path) div 2;
          s = take max_words registry_path;
          t = (if length s + length parameters_suffix \<le> max_words then s @ parameters_suffix else s)
      in if length t < max_words then Some t else None)"

lemma key_path_fits:
  assumes "length p < 32756"
  shows "parameters_key_path p = Some (p @ parameters_suffix)"
proof -
  have "key_path_bytes p = of_nat (2 * length p + 24)"
    by (simp add: key_path_bytes_def)
  then have "unat (key_path_bytes p) = 2 * length p + 24"
    using assms unat_of_nat_eq [of "2 * length p + 24", where 'a = 16] by simp
  then show ?thesis
    by (simp add: parameters_key_path_def parameters_suffix_def)
qed

text \<open>
  A longer path makes the 16-bit sum wrap round: the buffer is too small, and the terminating
  zero is written after its end.
\<close>

lemma key_path_overflows:
  assumes "32756 \<le> length p" "length p < 32768"
  shows "parameters_key_path p = None"
proof -
  have "key_path_bytes p = of_nat (2 * length p + 24 - 65536)"
  proof -
    have "key_path_bytes p = of_nat (2 * length p + 24 - 65536 + 65536)"
      using assms(1) by (simp add: key_path_bytes_def)
    also have "\<dots> = of_nat (2 * length p + 24 - 65536) + (of_nat (65536) :: USHORT)"
      by (rule of_nat_add)
    finally show ?thesis by simp
  qed
  then have "unat (key_path_bytes p) = 2 * length p + 24 - 65536"
    using assms unat_of_nat_eq [of "2 * length p + 24 - 65536", where 'a = 16] by simp
  then show ?thesis
    using assms by (simp add: parameters_key_path_def parameters_suffix_def Let_def)
qed

subsection \<open>The queue limits\<close>

text \<open>
  A registry value is a status and, on success, its data bytes. The limit keeps its value when
  the query fails; else it is cleared and the first \<open>min(DataLength, 8)\<close> bytes are copied into
  it (little-endian), whatever the type of the value.
\<close>

definition le_value :: "byte list \<Rightarrow> LONGLONG" where
  "le_value bs = foldr (\<lambda>b acc. push_bit 8 acc OR ucast b) bs 0"

definition read_limit :: "NTSTATUS \<times> byte list \<Rightarrow> LONGLONG \<Rightarrow> LONGLONG" where
  "read_limit v old = (case v of (status, data) \<Rightarrow>
     if NT_SUCCESS status then le_value (take 8 data) else old)"

text \<open>A little-endian value of \<open>n\<close> bytes, as the registry stores \<open>REG_DWORD\<close> and \<open>REG_QWORD\<close>.\<close>

definition le_bytes :: "nat \<Rightarrow> LONGLONG \<Rightarrow> byte list" where
  "le_bytes n v = map (\<lambda>k. ucast (drop_bit (8 * k) v)) [0..<n]"

lemma le_value_bit:
  "n < 64 \<Longrightarrow> bit (le_value bs) n \<longleftrightarrow> n div 8 < length bs \<and> bit (bs ! (n div 8)) (n mod 8)"
proof (induction bs arbitrary: n)
  case Nil
  then show ?case by (simp add: le_value_def)
next
  case (Cons b bs)
  have split: "le_value (b # bs) = push_bit 8 (le_value bs) OR ucast b" by (simp add: le_value_def)
  show ?case
  proof (cases "n < 8")
    case True
    then show ?thesis by (simp add: split bit_or_iff bit_push_bit_iff bit_ucast_iff)
  next
    case False
    then have "bit (ucast b :: LONGLONG) n = False"
      using bit_imp_le_length [of b n] by (auto simp: bit_ucast_iff)
    moreover have "n div 8 = Suc ((n - 8) div 8)" "n mod 8 = (n - 8) mod 8"
      using False by (simp_all add: le_div_geq le_mod_geq)
    ultimately show ?thesis
      using False Cons.prems Cons.IH [of "n - 8"]
      by (simp add: split bit_or_iff bit_push_bit_iff)
  qed
qed

lemma le_round_trip:
  assumes "n \<le> 8"
  shows "le_value (le_bytes n v) = take_bit (8 * n) v"
proof (rule bit_word_eqI)
  fix k assume "k < LENGTH(64)"
  then have k: "k < 64" by simp
  have "k div 8 < n \<longleftrightarrow> k < 8 * n" by (simp add: less_mult_imp_div_less div_less_iff_less_mult mult.commute)
  moreover have "8 * (k div 8) + k mod 8 = k" by simp
  ultimately show "bit (le_value (le_bytes n v)) k = bit (take_bit (8 * n) v) k"
    using k by (auto simp: le_value_bit le_bytes_def bit_take_bit_iff bit_ucast_iff bit_drop_bit_eq)
qed

lemma limit_read:
  "NT_SUCCESS st \<Longrightarrow> read_limit (st, le_bytes 8 v) old = v"
  "NT_SUCCESS st \<Longrightarrow> read_limit (st, le_bytes 4 v) old = take_bit 32 v"
  "\<not> NT_SUCCESS st \<Longrightarrow> read_limit (st, data) old = old"
proof -
  have w: "take_bit 64 v = v" by (rule take_bit_word_eq_self) simp
  have t: "take 8 (le_bytes 8 v) = le_bytes 8 v" "take 8 (le_bytes 4 v) = le_bytes 4 v"
    by (simp_all add: le_bytes_def)
  show "NT_SUCCESS st \<Longrightarrow> read_limit (st, le_bytes 8 v) old = v"
    using le_round_trip [of 8 v] w by (simp add: read_limit_def t)
  show "NT_SUCCESS st \<Longrightarrow> read_limit (st, le_bytes 4 v) old = take_bit 32 v"
    using le_round_trip [of 4 v] by (simp add: read_limit_def t)
qed (simp add: read_limit_def)


subsection \<open>The driver's globals and the kernel's answers\<close>

datatype kernel_event = OutOfMemoryEvent | HighMemoryEvent | HighNonPagedPoolEvent

datatype registry_value = MaxQueueItemsValue | MaxQueueSizeValue | AttachDevicesValue

datatype descriptor = NoDescriptor | NullDescriptor | RawDescriptor | EmptyDescriptor | NullDacl

datatype handler = SendToNextDriver | ReadHandler | WriteHandler | DeviceControlHandler
  | ShutdownHandler | FlushBuffersHandler | PnpHandler

record 'd driver = driver_config +
  dr_ParametersKey :: bool
  dr_HighMemoryCondition :: "bool option"
  dr_HighNonPagedPoolCondition :: "bool option"
  dr_MajorFunction :: "handler list"
  dr_AddDevice :: bool
  dr_DriverUnload :: bool
  dr_Devices :: "'d filter_device list"

record 'd device_stack =
  ds_lookup :: NTSTATUS
  ds_target :: "'d target_driver"
  ds_pnp :: pnp_env
  ds_attach :: attach_env
  ds_characteristics :: ULONG
  ds_lower :: 'd

record 'd entry_env =
  de_descriptor_alloc :: bool
  de_create_descriptor :: NTSTATUS
  de_set_dacl :: NTSTATUS
  de_create_event :: "kernel_event \<Rightarrow> descriptor \<Rightarrow> NTSTATUS"
  de_reference_event :: "kernel_event \<Rightarrow> NTSTATUS \<times> bool"
  de_path_alloc :: bool
  de_open_key :: "WCHAR list \<Rightarrow> NTSTATUS"
  de_limits_alloc :: bool
  de_value :: "registry_value \<Rightarrow> NTSTATUS \<times> byte list"
  de_attach_alloc :: bool
  de_pool :: "byte list"
  de_stack :: "WCHAR list \<Rightarrow> 'd device_stack"

text \<open>The globals before \<open>DriverEntry\<close> runs; the table is the I/O manager's.\<close>

definition initial_driver :: "handler list \<Rightarrow> 'd driver" where
  "initial_driver table =
     \<lparr>QCacheMaxQueueItems = QCACHE_MAX_QUEUE_ITEMS_DEFAULT_VALUE,
      QCacheMaxQueueSize = QCACHE_MAX_QUEUE_SIZE_DEFAULT_VALUE,
      QCacheLowMemCondition = None, QCacheLinksCreated = False,
      dr_ParametersKey = False, dr_HighMemoryCondition = None, dr_HighNonPagedPoolCondition = None,
      dr_MajorFunction = table, dr_AddDevice = False, dr_DriverUnload = False, dr_Devices = []\<rparr>"

subsection \<open>Events\<close>

text \<open>
  The security descriptor of the out-of-memory event: whatever its preparation returns, the
  event is created next and its status overwrites the earlier one.
\<close>

definition event_descriptor :: "'d entry_env \<Rightarrow> descriptor" where
  "event_descriptor e =
     (if \<not> de_descriptor_alloc e then NullDescriptor
      else if \<not> NT_SUCCESS (de_create_descriptor e) then RawDescriptor
      else if \<not> NT_SUCCESS (de_set_dacl e) then EmptyDescriptor else NullDacl)"

definition open_event :: "'d entry_env \<Rightarrow> kernel_event \<Rightarrow> descriptor \<Rightarrow> bool option" where
  "open_event e k sd =
     (if \<not> NT_SUCCESS (de_create_event e k sd) then None
      else case de_reference_event e k of
             (status, signalled) \<Rightarrow> if NT_SUCCESS status then Some signalled else None)"

definition open_events :: "'d entry_env \<Rightarrow> 'd driver \<Rightarrow> 'd driver" where
  "open_events e g =
     (let g1 = g\<lparr>QCacheLowMemCondition := open_event e OutOfMemoryEvent (event_descriptor e)\<rparr>;
          g2 = g1\<lparr>dr_HighMemoryCondition := open_event e HighMemoryEvent NoDescriptor\<rparr>
      in g2\<lparr>dr_HighNonPagedPoolCondition := open_event e HighNonPagedPoolEvent NoDescriptor\<rparr>)"

subsection \<open>Registry queries\<close>

text \<open>\<open>ZwQueryValueKey\<close> with room for \<open>room\<close> bytes of data fails on a longer value.\<close>

definition ZwQueryValueKey :: "'d entry_env \<Rightarrow> registry_value \<Rightarrow> nat \<Rightarrow> NTSTATUS \<times> byte list" where
  "ZwQueryValueKey e v room =
     (case de_value e v of (status, data) \<Rightarrow>
        if NT_SUCCESS status \<and> room < length data then (STATUS_BUFFER_OVERFLOW, []) else (status, data))"

text \<open>
  The data of \<open>KEY_VALUE_PARTIAL_INFORMATION\<close> starts at byte 12 of its 16. With eight bytes
  added, a value of at most twelve bytes fits.
\<close>

definition read_limits :: "'d entry_env \<Rightarrow> 'd driver \<Rightarrow> 'd driver" where
  "read_limits e g =
     (let g1 = g\<lparr>QCacheMaxQueueItems :=
                   read_limit (ZwQueryValueKey e MaxQueueItemsValue 12) (QCacheMaxQueueItems g)\<rparr>
      in g1\<lparr>QCacheMaxQueueSize :=
              read_limit (ZwQueryValueKey e MaxQueueSizeValue 12) (QCacheMaxQueueSize g1)\<rparr>)"

subsection \<open>The dispatch table\<close>

abbreviation (input) IRP_MJ_MAXIMUM_FUNCTION :: nat where "IRP_MJ_MAXIMUM_FUNCTION \<equiv> 0x1B"

definition dispatch_table :: "handler list" where
  "dispatch_table =
     (replicate (Suc IRP_MJ_MAXIMUM_FUNCTION) SendToNextDriver)
       [unat IRP_MJ_READ := ReadHandler, unat IRP_MJ_WRITE := WriteHandler,
        unat IRP_MJ_DEVICE_CONTROL := DeviceControlHandler,
        unat IRP_MJ_INTERNAL_DEVICE_CONTROL := DeviceControlHandler,
        unat IRP_MJ_SHUTDOWN := ShutdownHandler, unat IRP_MJ_FLUSH_BUFFERS := FlushBuffersHandler,
        unat IRP_MJ_PNP := PnpHandler]"

definition set_dispatch :: "'d driver \<Rightarrow> 'd driver" where
  "set_dispatch g = g\<lparr>dr_MajorFunction := dispatch_table, dr_AddDevice := True, dr_DriverUnload := True\<rparr>"

text \<open>What the I/O manager runs for a request, through the table.\<close>

definition run_handler ::
  "'d target_driver \<Rightarrow> bitmap_api \<Rightarrow> handler \<Rightarrow> request \<Rightarrow> 'd world \<Rightarrow> (NTSTATUS \<times> 'd world) option" where
  "run_handler T api h q w =
     (case q of (e, i) \<Rightarrow>
        (case h of
           ReadHandler \<Rightarrow> QCacheRead (tg_lower T) e api i w
         | WriteHandler \<Rightarrow> QCacheWrite (tg_lower T) e i w
         | DeviceControlHandler \<Rightarrow> QCacheDeviceControl (tg_lower T) e i w
         | ShutdownHandler \<Rightarrow> QCacheShutdown e i w
         | FlushBuffersHandler \<Rightarrow> QCacheFlushBuffers e i w
         | _ \<Rightarrow> Some (QCacheSendToNextDriver (tg_lower T) i w)))"

lemma dispatch_table_length: "length dispatch_table = 28"
  by (simp add: dispatch_table_def)

subsection \<open>Unloading\<close>

definition QCacheUnload :: "'d driver \<Rightarrow> 'd driver" where
  "QCacheUnload g =
     (let g1 = (if dr_ParametersKey g then g\<lparr>dr_ParametersKey := False\<rparr> else g)
      in if QCacheLowMemCondition g1 \<noteq> None then g1\<lparr>QCacheLowMemCondition := None\<rparr> else g1)"

subsection \<open>Attaching to the devices of the registry\<close>

text \<open>The data of a value as 16-bit words, and back.\<close>

fun le_words :: "byte list \<Rightarrow> WCHAR list" where
  "le_words (a # b # bs) = (ucast a OR push_bit 8 (ucast b)) # le_words bs"
| "le_words bs = []"

text \<open>
  The buffer has \<open>UNICODE_STRING_MAX_BYTES\<close> = 65534 bytes after the header, so 65538 from the
  data on. \<open>WPoolMem\<close> does not clear its memory: behind the data the buffer holds what the pool
  block held before (\<open>de_pool\<close>).
\<close>

definition attach_memory :: "byte list \<Rightarrow> byte list \<Rightarrow> WCHAR list" where
  "attach_memory pool data = le_words (data @ drop (length data) (take 65538 pool))"

definition attach_named :: "'d entry_env \<Rightarrow> WCHAR list \<Rightarrow> 'd driver \<Rightarrow> (NTSTATUS \<times> 'd driver) option" where
  "attach_named e name g =
     (let s = de_stack e name in do {
        (status, D) \<leftarrow> QCacheAttachLegacyDevice (ds_lookup s) (ds_target s) (ds_pnp s) (ds_attach s)
                          (driver_config.truncate g) (ds_characteristics s) (ds_lower s);
        Some (status, if NT_SUCCESS status
                      then g\<lparr>dr_Devices := dr_Devices g @ (case D of None \<Rightarrow> [] | Some E \<Rightarrow> [E])\<rparr>
                      else g)
      })"

text \<open>
  The loop over the names: \<open>MaximumLength\<close> is 16 bits wide and decreases by the length of the
  name and its terminator. A failed attachment ends it.
\<close>

function attach_loop ::
  "(WCHAR list \<Rightarrow> 's \<Rightarrow> (NTSTATUS \<times> 's) option) \<Rightarrow> WCHAR list \<Rightarrow> USHORT \<Rightarrow> 's \<Rightarrow> (NTSTATUS \<times> 's) option" where
  "attach_loop attach mem m s =
     (if m < 6 then Some (STATUS_SUCCESS, s)
      else case wcsnlen mem (unat m div 2) of
             None \<Rightarrow> None
           | Some len \<Rightarrow>
               (case attach (take len mem) s of
                  None \<Rightarrow> None
                | Some (status, s') \<Rightarrow>
                    if \<not> NT_SUCCESS status then Some (status, s')
                    else attach_loop attach (drop (len + 1) mem) (m - (of_nat (2 * len) + 2)) s'))"
  by pat_completeness auto

termination attach_loop
proof (relation "measure (\<lambda>(_, mem, _, _). length mem)", goal_cases)
  case 1
  then show ?case by simp
next
  case (2 attach mem m s len res status s')
  have "mem \<noteq> []"
  proof
    assume "mem = []"
    moreover have "unat m div 2 \<noteq> 0"
      using 2(1) by (simp add: word_less_nat_alt)
    ultimately show False using 2(2) by (cases "unat m div 2") auto
  qed
  then show ?case by simp
qed

declare attach_loop.simps [simp del]

definition DriverEntry :: "'d entry_env \<Rightarrow> WCHAR list \<Rightarrow> 'd driver \<Rightarrow> (NTSTATUS \<times> 'd driver) option" where
  "DriverEntry e registry_path g0 =
     (let g1 = open_events e g0 in
      if \<not> de_path_alloc e then Some (STATUS_INSUFFICIENT_RESOURCES, QCacheUnload g1)
      else do {
        path \<leftarrow> parameters_key_path registry_path;
        let g2 = g1\<lparr>dr_ParametersKey := NT_SUCCESS (de_open_key e path)\<rparr>;
        (if dr_ParametersKey g2 \<and> \<not> de_limits_alloc e
         then Some (STATUS_INSUFFICIENT_RESOURCES, QCacheUnload g2)
         else
           let g3 = (if dr_ParametersKey g2 then read_limits e g2 else g2);
               g4 = set_dispatch g3
           in if \<not> dr_ParametersKey g4 then Some (STATUS_SUCCESS, g4)
              else if \<not> de_attach_alloc e
              then Some (STATUS_INSUFFICIENT_RESOURCES, QCacheUnload g4)
              else case ZwQueryValueKey e AttachDevicesValue 65538 of
                     (status, data) \<Rightarrow>
                       if \<not> NT_SUCCESS status then Some (STATUS_SUCCESS, g4)
                       else do {
                         (st, g5) \<leftarrow> attach_loop (attach_named e) (attach_memory (de_pool e) data)
                                        (of_nat (min 65535 (length data))) g4;
                         Some (if NT_SUCCESS st then (STATUS_SUCCESS, g5) else (st, QCacheUnload g5))
                       })
      })"


subsection \<open>The loop reads a multi-string\<close>

text \<open>A \<open>REG_MULTI_SZ\<close> value: every name with its terminator, and one more terminator.\<close>

definition multi_sz :: "WCHAR list list \<Rightarrow> WCHAR list" where
  "multi_sz names = concat (map (\<lambda>n. n @ [0]) names) @ [0]"

fun attach_all :: "(WCHAR list \<Rightarrow> 's \<Rightarrow> (NTSTATUS \<times> 's) option) \<Rightarrow> WCHAR list list \<Rightarrow> 's \<Rightarrow> (NTSTATUS \<times> 's) option" where
  "attach_all f [] s = Some (STATUS_SUCCESS, s)"
| "attach_all f (n # ns) s = (case f n s of
     None \<Rightarrow> None
   | Some (status, s') \<Rightarrow> if \<not> NT_SUCCESS status then Some (status, s') else attach_all f ns s')"

definition wf_names :: "WCHAR list list \<Rightarrow> bool" where
  "wf_names names \<longleftrightarrow> list_all (\<lambda>n. n \<noteq> [] \<and> 0 \<notin> set n) names \<and> length (multi_sz names) \<le> 32767"

lemma multi_sz_Cons: "multi_sz (n # ns) = n @ 0 # multi_sz ns"
  by (simp add: multi_sz_def)

lemma short_size: "n \<le> 32767 \<Longrightarrow> unat (of_nat (2 * n) :: USHORT) = 2 * n"
  by (rule unat_of_nat_eq) simp

lemma of_nat_less6: "n \<le> 32767 \<Longrightarrow> (of_nat (2 * n) :: USHORT) < 6 \<longleftrightarrow> 2 * n < 6"
  unfolding word_less_nat_alt short_size by simp

lemma attach_loop_multi_sz:
  "wf_names names \<Longrightarrow>
   attach_loop f (multi_sz names @ rest) (of_nat (2 * length (multi_sz names))) s = attach_all f names s"
proof (induction names arbitrary: s)
  case Nil
  then show ?case by (simp add: multi_sz_def attach_loop.simps word_less_nat_alt)
next
  case (Cons n ns)
  let ?l = "length (multi_sz (n # ns))"
  have wf: "n \<noteq> []" "0 \<notin> set n" "wf_names ns" "?l \<le> 32767"
    using Cons.prems by (simp_all add: wf_names_def multi_sz_Cons)
  have len: "?l = length n + 1 + length (multi_sz ns)" "0 < length (multi_sz ns)" "0 < length n"
    using wf(1) by (simp_all add: multi_sz_Cons) (simp add: multi_sz_def)
  have enough: "\<not> (of_nat (2 * ?l) :: USHORT) < 6"
    unfolding of_nat_less6 [OF wf(4)] using len by linarith
  have half: "unat (of_nat (2 * ?l) :: USHORT) div 2 = ?l"
    unfolding short_size [OF wf(4)] by simp
  have w: "wcsnlen (multi_sz (n # ns) @ rest) ?l = Some (length n)"
    using wcsnlen_name [OF wf(2), of ?l "multi_sz ns @ rest"] len by (simp add: multi_sz_Cons)
  have mem: "take (length n) (multi_sz (n # ns) @ rest) = n"
    "drop (length n + 1) (multi_sz (n # ns) @ rest) = multi_sz ns @ rest"
    by (simp_all add: multi_sz_Cons)
  have "(of_nat (2 * ?l) :: USHORT) = of_nat (2 * length n + 2 + 2 * length (multi_sz ns))"
    using len(1) by (simp only: distrib_left mult_1_right mult.right_neutral)
  also have "\<dots> = of_nat (2 * length n) + 2 + of_nat (2 * length (multi_sz ns))"
    by (simp only: of_nat_add of_nat_numeral)
  finally have m: "(of_nat (2 * ?l) :: USHORT) - (of_nat (2 * length n) + 2) = of_nat (2 * length (multi_sz ns))"
    by simp
  show ?case
    unfolding attach_loop.simps [of f "multi_sz (n # ns) @ rest"] half w attach_all.simps
    by (simp only: enough mem m if_False option.case Cons.IH [OF wf(3)] split: option.split prod.split)
qed

text \<open>
  An unterminated value in the registry: after its name the 16-bit remaining length wraps
  round to 65534, and the loop goes on with the uninitialized memory behind the value.
\<close>

theorem attach_loop_unterminated:
  assumes "0 \<notin> set n" "3 \<le> length n" "length n \<le> 32767"
  shows "attach_loop f (n @ x # rest) (of_nat (2 * length n)) s =
     (case f n s of
        None \<Rightarrow> None
      | Some (status, s') \<Rightarrow>
          if \<not> NT_SUCCESS status then Some (status, s') else attach_loop f rest 0xFFFE s')"
proof -
  have enough: "\<not> (of_nat (2 * length n) :: USHORT) < 6"
    unfolding of_nat_less6 [OF assms(3)] using assms(2) by simp
  have half: "unat (of_nat (2 * length n) :: USHORT) div 2 = length n"
    unfolding short_size [OF assms(3)] by simp
  have w: "wcsnlen (n @ x # rest) (length n) = Some (length n)"
    using assms(1) by (rule wcsnlen_full)
  have m: "(of_nat (2 * length n) :: USHORT) - (of_nat (2 * length n) + 2) = 0xFFFE"
    by simp
  show ?thesis
    unfolding attach_loop.simps [of f "n @ x # rest"] half w
    by (simp only: enough m if_False option.case split: option.split prod.split) simp
qed

subsection \<open>What loading the driver does\<close>

definition words_bytes :: "WCHAR list \<Rightarrow> byte list" where
  "words_bytes ws = concat (map (\<lambda>w. [ucast w, ucast (drop_bit 8 w)]) ws)"

lemma word_halves: "(ucast (ucast w :: byte) OR push_bit 8 (ucast (ucast (drop_bit 8 w) :: byte)) :: WCHAR) = w"
proof (rule bit_word_eqI)
  fix n assume "n < LENGTH(16)"
  then show "bit (ucast (ucast w :: byte) OR push_bit 8 (ucast (ucast (drop_bit 8 w) :: byte)) :: WCHAR) n = bit w n"
    by (auto simp: bit_or_iff bit_push_bit_iff bit_ucast_iff bit_drop_bit_eq)
qed

lemma le_words_bytes: "le_words (words_bytes ws @ bs) = ws @ le_words bs"
  by (induction ws) (simp_all add: words_bytes_def word_halves)

lemma length_words_bytes: "length (words_bytes ws) = 2 * length ws"
  by (induction ws) (simp_all add: words_bytes_def)

lemma attach_memory_words: "\<exists>rest. attach_memory pool (words_bytes ws) = ws @ rest"
  by (simp add: attach_memory_def le_words_bytes)

text \<open>The configuration the attachments see.\<close>

definition entry_config :: "'d entry_env \<Rightarrow> driver_config" where
  "entry_config e =
     \<lparr>QCacheMaxQueueItems =
        read_limit (ZwQueryValueKey e MaxQueueItemsValue 12) QCACHE_MAX_QUEUE_ITEMS_DEFAULT_VALUE,
      QCacheMaxQueueSize =
        read_limit (ZwQueryValueKey e MaxQueueSizeValue 12) QCACHE_MAX_QUEUE_SIZE_DEFAULT_VALUE,
      QCacheLowMemCondition = open_event e OutOfMemoryEvent (event_descriptor e),
      QCacheLinksCreated = False\<rparr>"

definition attaches :: "'d entry_env \<Rightarrow> WCHAR list \<Rightarrow> NTSTATUS \<Rightarrow> 'd filter_device option \<Rightarrow> bool" where
  "attaches e name st D \<longleftrightarrow>
     (let s = de_stack e name in
      QCacheAttachLegacyDevice (ds_lookup s) (ds_target s) (ds_pnp s) (ds_attach s)
        (entry_config e) (ds_characteristics s) (ds_lower s) = Some (st, D))"

lemma attach_all_named:
  assumes "driver_config.truncate g = entry_config e"
    and "list_all (\<lambda>n. attaches e n STATUS_SUCCESS (Some (dev n))) names"
  shows "attach_all (attach_named e) (names @ after) g =
           attach_all (attach_named e) after (g\<lparr>dr_Devices := dr_Devices g @ map dev names\<rparr>)"
  using assms
proof (induction names arbitrary: g)
  case Nil
  then show ?case by simp
next
  case (Cons n ns)
  let ?g = "g\<lparr>dr_Devices := dr_Devices g @ [dev n]\<rparr>"
  have "driver_config.truncate ?g = entry_config e"
    using Cons.prems(1) by (simp add: driver_config.truncate_def)
  moreover have "attach_named e n g = Some (STATUS_SUCCESS, ?g)"
    using Cons.prems by (simp add: attach_named_def attaches_def Let_def)
  ultimately show ?case
    using Cons.IH [of ?g] Cons.prems(2) by simp
qed

text \<open>The steps before the attach loop succeed.\<close>

definition entry_resources :: "'d entry_env \<Rightarrow> WCHAR list \<Rightarrow> bool" where
  "entry_resources e path \<longleftrightarrow> de_path_alloc e \<and> de_limits_alloc e \<and> de_attach_alloc e \<and>
     length path < 32756 \<and> NT_SUCCESS (de_open_key e (path @ parameters_suffix))"

definition attach_value :: "'d entry_env \<Rightarrow> WCHAR list list \<Rightarrow> bool" where
  "attach_value e names \<longleftrightarrow> wf_names names \<and>
     (\<exists>st. NT_SUCCESS st \<and> de_value e AttachDevicesValue = (st, words_bytes (multi_sz names)))"

definition ready_driver :: "'d entry_env \<Rightarrow> 'd driver" where
  "ready_driver e =
     (let g = initial_driver [] in
      set_dispatch (read_limits e ((open_events e g)\<lparr>dr_ParametersKey := True\<rparr>)))"

lemma ready_driver_config: "driver_config.truncate (ready_driver e) = entry_config e"
  by (simp add: ready_driver_def set_dispatch_def read_limits_def open_events_def initial_driver_def
      Let_def driver_config.truncate_def entry_config_def)

lemma ready_driver_sel [simp]:
  "dr_ParametersKey (ready_driver e)" "dr_Devices (ready_driver e) = []"
  "dr_MajorFunction (ready_driver e) = dispatch_table"
  by (simp_all add: ready_driver_def set_dispatch_def read_limits_def open_events_def
      initial_driver_def Let_def)

lemma driver_entry_loop:
  assumes "entry_resources e path" "attach_value e names"
  shows "DriverEntry e path (initial_driver table) =
    map_option (\<lambda>(st, g). if NT_SUCCESS st then (STATUS_SUCCESS, g) else (st, QCacheUnload g))
      (attach_all (attach_named e) names (ready_driver e))"
proof -
  obtain st where q: "NT_SUCCESS st" "de_value e AttachDevicesValue = (st, words_bytes (multi_sz names))"
    and wf: "wf_names names"
    using assms(2) by (auto simp: attach_value_def)
  have len: "length (words_bytes (multi_sz names)) = 2 * length (multi_sz names)"
    "2 * length (multi_sz names) \<le> 65534"
    using wf by (simp_all add: length_words_bytes wf_names_def)
  have zw: "ZwQueryValueKey e AttachDevicesValue 65538 = (st, words_bytes (multi_sz names))"
    using q len by (simp add: ZwQueryValueKey_def)
  obtain rest where rest: "attach_memory (de_pool e) (words_bytes (multi_sz names)) = multi_sz names @ rest"
    using attach_memory_words by blast
  have min: "min 65535 (length (words_bytes (multi_sz names))) = 2 * length (multi_sz names)"
    using len by simp
  have g4: "set_dispatch (read_limits e ((open_events e (initial_driver table))\<lparr>dr_ParametersKey := True\<rparr>))
      = ready_driver e"
    by (simp add: ready_driver_def set_dispatch_def read_limits_def open_events_def initial_driver_def Let_def)
  have key: "parameters_key_path path = Some (path @ parameters_suffix)"
    and res: "de_path_alloc e" "de_limits_alloc e" "de_attach_alloc e"
      "NT_SUCCESS (de_open_key e (path @ parameters_suffix))"
    using assms(1) key_path_fits by (auto simp: entry_resources_def)
  have "DriverEntry e path (initial_driver table) =
      (attach_all (attach_named e) names (ready_driver e) \<bind>
        (\<lambda>(st, g5). Some (if NT_SUCCESS st then (STATUS_SUCCESS, g5) else (st, QCacheUnload g5))))"
    unfolding DriverEntry_def Let_def key
    by (simp add: res zw q(1) g4 rest min attach_loop_multi_sz [OF wf, simplified])
  then show ?thesis
    by (cases "attach_all (attach_named e) names (ready_driver e)") auto
qed

text \<open>
  C29: Loading the driver parses the multi-string of the registry back into its names: when
  the allocations of DriverEntry and the opening of its registry key (path shorter than 32756
  characters) succeed and the attachment to each of the named devices succeeds, it attaches to
  exactly these, in order, with the limits read from the registry, and installs the dispatch
  table.
\<close>

theorem driver_entry_attaches:
  assumes "entry_resources e path" "attach_value e names"
    and "list_all (\<lambda>n. attaches e n STATUS_SUCCESS (Some (dev n))) names"
  shows "\<exists>g. DriverEntry e path (initial_driver table) = Some (STATUS_SUCCESS, g) \<and>
     dr_Devices g = map dev names \<and> dr_MajorFunction g = dispatch_table \<and>
     driver_config.truncate g = entry_config e"
  using driver_entry_loop [OF assms(1,2), of table]
    attach_all_named [OF ready_driver_config assms(3), of "[]"] ready_driver_config [of e]
  by (simp add: driver_config.truncate_def)

text \<open>
  A name of the registry that cannot be attached fails the load with its status: the
  event and the key are released, but the filter devices of the earlier names stay attached.
\<close>

theorem driver_entry_gives_up:
  assumes "entry_resources e path" "attach_value e (names @ bad # after)"
    and "list_all (\<lambda>n. attaches e n STATUS_SUCCESS (Some (dev n))) names"
    and "attaches e bad st D" "\<not> NT_SUCCESS st"
  shows "\<exists>g. DriverEntry e path (initial_driver table) = Some (st, g) \<and>
     dr_Devices g = map dev names \<and> QCacheLowMemCondition g = None \<and> \<not> dr_ParametersKey g"
proof -
  let ?g = "(ready_driver e)\<lparr>dr_Devices := map dev names\<rparr>"
  have "driver_config.truncate ?g = entry_config e"
    using ready_driver_config [of e] by (simp add: driver_config.truncate_def)
  then have "attach_named e bad ?g = Some (st, ?g)"
    using assms(4,5) by (simp add: attach_named_def attaches_def Let_def)
  then have "attach_all (attach_named e) (names @ bad # after) (ready_driver e) = Some (st, ?g)"
    using attach_all_named [OF ready_driver_config assms(3), of "bad # after"] assms(5) by simp
  then show ?thesis
    using driver_entry_loop [OF assms(1,2), of table] assms(5) by (auto simp: QCacheUnload_def Let_def)
qed

text \<open>Without the parameters key the driver loads with its defaults.\<close>

lemma driver_entry_defaults:
  assumes "de_path_alloc e" "length path < 32756" "\<not> NT_SUCCESS (de_open_key e (path @ parameters_suffix))"
  shows "\<exists>g. DriverEntry e path (initial_driver table) = Some (STATUS_SUCCESS, g) \<and>
     QCacheMaxQueueItems g = 10000 \<and> QCacheMaxQueueSize g = 524288000 \<and> dr_Devices g = [] \<and>
     dr_MajorFunction g = dispatch_table"
  using assms key_path_fits [of path]
  by (simp add: DriverEntry_def Let_def set_dispatch_def open_events_def initial_driver_def
      QCACHE_MAX_QUEUE_ITEMS_DEFAULT_VALUE_def QCACHE_MAX_QUEUE_SIZE_DEFAULT_VALUE_def)

text \<open>
  For every major function code of the table other than plug and play, the handler
  DriverEntry stored under that code is the branch of the dispatch function the other theorems
  are about.
\<close>

theorem table_is_dispatch:
  assumes "ir_MajorFunction (snd q) \<le> 0x1B" "ir_MajorFunction (snd q) \<noteq> IRP_MJ_PNP"
  shows "run_handler T api (dispatch_table ! unat (ir_MajorFunction (snd q))) q w =
           driver_dispatch (tg_lower T) api q w"
proof -
  obtain e i where q: "q = (e, i)" by (cases q)
  have m: "unat (ir_MajorFunction i) \<le> 27"
    using assms(1) by (simp add: q word_le_nat_alt)
  have inj: "ir_MajorFunction i = c \<longleftrightarrow> unat (ir_MajorFunction i) = unat c" for c
    by (simp add: word_unat_eq_iff)
  show ?thesis
    using m assms(2)
    by (simp add: q dispatch_table_def run_handler_def driver_dispatch_def inj nth_list_update Let_def)
qed

end
