(* ===== verification/QC_Concurrent.thy ===== *)
theory QC_Concurrent
  imports QC_View
begin

section \<open>Producers and the worker, interleaved\<close>

text \<open>
  The admission path runs in the threads of the requesters while the worker runs in its own.
  Both are cut at the points where another thread may run in between: the section under
  \<open>WriteQueueLock\<close> is one step, the test of the limits, the allocations, the signal and the
  completion are steps of their own. \<open>sy_Inserted\<close> and \<open>sy_Retired\<close> are ghost histories of the
  items that entered and left the queue. Running one request without interruption is
  \<open>QCacheQueueIrp\<close>, and one undisturbed turn of the worker is an iteration of its loop. The step of
  the worker that sends a lower request down is taken when that request has been completed; a
  device that never completes it is a worker that takes no further step.
\<close>

subsection \<open>Producers\<close>

datatype producer = Idle
  | Deciding env irp
  | Preparing bool env irp
  | Inserting bool WRITE_QUEUE_ITEM LONGLONG irp
  | Signalling bool irp
  | Completing irp

definition decide :: "env \<Rightarrow> irp \<Rightarrow> 'd world \<Rightarrow> (producer \<times> 'd world) option" where
  "decide e i w =
     (if IsCached (stats w) \<and>
         (ir_MajorFunction i = IRP_MJ_WRITE \<or> ir_MajorFunction i = IRP_MJ_FLUSH_BUFFERS)
      then if admits e (stats w)
           then map_option (\<lambda>w1. (Preparing True e i, w1)) (KeSetLowMem False w)
           else map_option (\<lambda>w1. (Preparing False e i, w1))
                  (KeSetLowMem True (upd_stats (\<lambda>s. s\<lparr>LowMemQueued := LowMemQueued s + 1\<rparr>) w))
      else Some (Preparing False e i, w))"

definition give_up :: "NTSTATUS \<Rightarrow> irp \<Rightarrow> 'd world \<Rightarrow> (producer \<times> 'd world) option" where
  "give_up st i w = Some (Idle, snd (complete_with st i w))"

definition prepare :: "bool \<Rightarrow> env \<Rightarrow> irp \<Rightarrow> 'd world \<Rightarrow> (producer \<times> 'd world) option" where
  "prepare lazy e i0 w0 =
     (let i = i0\<lparr>ir_Information := 0\<rparr> in
      if \<not> item_alloc e then give_up STATUS_INSUFFICIENT_RESOURCES i w0
      else
        let w1 = w0\<lparr>PoolItems := Suc (PoolItems w0)\<rparr>; (status, w2) = IoAcquireRemoveLock e w1 in
        if \<not> NT_SUCCESS status
        then map_option (\<lambda>(p, w3). (p, w3\<lparr>PoolItems := PoolItems w3 - 1\<rparr>)) (give_up status i w2)
        else if \<not> lazy
        then Some (Inserting False (new_item\<lparr>it_MajorFunction := ir_MajorFunction i, it_Irp := Some i\<rparr>)
                     sizeof_item i, w2)
        else if ir_MajorFunction i = IRP_MJ_WRITE
        then if \<not> mdl_mapped e then give_up STATUS_INSUFFICIENT_RESOURCES i w2
             else if \<not> buffer_alloc e
             then give_up STATUS_INSUFFICIENT_RESOURCES i (w2\<lparr>PoolItems := PoolItems w2 - 1\<rparr>)
             else do {
               buf \<leftarrow> RtlCopyMemory (replicate (unat (ir_Length i)) 0) 0 (ir_Buffer i) 0
                        (unat (ir_Length i));
               Some (Inserting True
                 (new_item\<lparr>it_MajorFunction := ir_MajorFunction i, it_Offset := ir_ByteOffset i,
                           it_Length := ir_Length i, it_Buffer := Some buf\<rparr>)
                 (sizeof_item + ucast (ir_Length i)) i, w2)
             }
        else Some (Inserting True (new_item\<lparr>it_MajorFunction := ir_MajorFunction i\<rparr>) sizeof_item i, w2))"

definition producer_step :: "producer \<Rightarrow> 'd world \<Rightarrow> (producer \<times> 'd world) option" where
  "producer_step p w =
     (case p of
        Idle \<Rightarrow> None
      | Deciding e i \<Rightarrow> decide e i w
      | Preparing lazy e i \<Rightarrow> prepare lazy e i w
      | Inserting lazy it cost i \<Rightarrow> Some (Signalling lazy i, insert_item it cost w)
      | Signalling lazy i \<Rightarrow> Some (if lazy then Completing i else Idle, set_queue_event w)
      | Completing i \<Rightarrow> Some (Idle, IoCompleteRequest (lazy_completion i) w))"

text \<open>Five steps take every request to its end.\<close>

fun produce :: "nat \<Rightarrow> producer \<Rightarrow> 'd world \<Rightarrow> 'd world option" where
  "produce n Idle w = Some w"
| "produce 0 p w = None"
| "produce (Suc n) p w = (case producer_step p w of None \<Rightarrow> None | Some (p', w') \<Rightarrow> produce n p' w')"

lemma produce_Suc [simp]:
  "p \<noteq> Idle \<Longrightarrow>
   produce (Suc n) p w = (case producer_step p w of None \<Rightarrow> None | Some (p', w') \<Rightarrow> produce n p' w')"
  by (cases p) simp_all

lemma producer_step_sel [simp]:
  "producer_step (Deciding e i) w = decide e i w"
  "producer_step (Preparing lazy e i) w = prepare lazy e i w"
  "producer_step (Inserting lazy it cost i) w = Some (Signalling lazy i, insert_item it cost w)"
  "producer_step (Signalling lazy i) w = Some (if lazy then Completing i else Idle, set_queue_event w)"
  "producer_step (Completing i) w = Some (Idle, IoCompleteRequest (lazy_completion i) w)"
  by (simp_all add: producer_step_def)

lemma produce_direct:
  "produce (Suc (Suc (Suc (Suc n)))) (Preparing False e i) w = Some (snd (queue_irp e i w))"
  by (auto simp: prepare_def give_up_def queue_irp_def Let_def numeral_eq_Suc split: prod.splits)

lemma status_information:
  "i\<lparr>ir_Status := s, ir_Information := n\<rparr> = (i :: irp)\<lparr>ir_Information := n, ir_Status := s\<rparr>"
  by (cases i) simp

lemma produce_lazy:
  "produce (Suc (Suc (Suc (Suc n)))) (Preparing True e i) w
     = map_option snd (QCacheQueueLazyWriteIrp e i w)"
proof (cases "item_alloc e \<and> NT_SUCCESS (acquire_status e) \<and> mdl_mapped e \<and> buffer_alloc e")
  case True
  then show ?thesis
    by (cases "ir_MajorFunction i = IRP_MJ_WRITE";
        cases "RtlCopyMemory (replicate (unat (ir_Length i)) 0) 0 (ir_Buffer i) 0 (unat (ir_Length i))")
      (simp_all add: prepare_def give_up_def QCacheQueueLazyWriteIrp_def lazy_insert_def
        lazy_completion_def IoAcquireRemoveLock_def Let_def new_item_def status_information)
next
  case False
  then show ?thesis
    by (auto simp: prepare_def give_up_def QCacheQueueLazyWriteIrp_def lazy_insert_def
        lazy_completion_def IoAcquireRemoveLock_def Let_def new_item_def status_information
        split: prod.splits)
qed

text \<open>
  The interleaved model is cut from the code: running the five steps of one request
  without interruption is the admission routine QCacheQueueIrp, on every path, faults
  included.
\<close>

lemma produce_is_admission:
  "produce 5 (Deciding e i) w = map_option snd (QCacheQueueIrp e i w)"
proof -
  have five: "produce 5 p w = produce (Suc (Suc (Suc (Suc (Suc 0))))) p w" for p and w :: "'a world"
    by (simp add: numeral_eq_Suc)
  have step: "produce (Suc (Suc (Suc (Suc (Suc 0))))) (Deciding e i) w =
      (case decide e i w of None \<Rightarrow> None | Some (p, w') \<Rightarrow> produce (Suc (Suc (Suc (Suc 0)))) p w')"
    by simp
  show ?thesis
    unfolding five step
  proof (cases "IsCached (stats w) \<and> (ir_MajorFunction i = IRP_MJ_WRITE \<or> ir_MajorFunction i = IRP_MJ_FLUSH_BUFFERS)")
    case False
    then have "decide e i w = Some (Preparing False e i, w)" "QCacheQueueIrp e i w = Some (queue_irp e i w)"
      by (auto simp: decide_def QCacheQueueIrp_def)
    then show "(case decide e i w of None \<Rightarrow> None | Some (p, w') \<Rightarrow> produce (Suc (Suc (Suc (Suc 0)))) p w')
        = map_option snd (QCacheQueueIrp e i w)"
      by (simp only: option.case prod.case produce_direct option.map)
  next
    case True
    show "(case decide e i w of None \<Rightarrow> None | Some (p, w') \<Rightarrow> produce (Suc (Suc (Suc (Suc 0)))) p w')
        = map_option snd (QCacheQueueIrp e i w)"
    proof (cases "admits e (stats w)")
      case a: True
      with True have "decide e i w = map_option (\<lambda>w1. (Preparing True e i, w1)) (KeSetLowMem False w)"
        "QCacheQueueIrp e i w = KeSetLowMem False w \<bind> QCacheQueueLazyWriteIrp e i"
        by (auto simp: decide_def QCacheQueueIrp_def)
      then show ?thesis
        by (cases "KeSetLowMem False w")
          (simp_all only: option.case prod.case produce_lazy option.map bind.simps)
    next
      case a: False
      let ?k = "KeSetLowMem True (upd_stats (\<lambda>s. s\<lparr>LowMemQueued := LowMemQueued s + 1\<rparr>) w)"
      from a True have "decide e i w = map_option (\<lambda>w1. (Preparing False e i, w1)) ?k"
        "QCacheQueueIrp e i w = ?k \<bind> (\<lambda>w1. Some (queue_irp e i w1))"
        by (auto simp: decide_def QCacheQueueIrp_def)
      then show ?thesis
        by (cases ?k)
          (simp_all only: option.case prod.case produce_direct option.map bind.simps)
    qed
  qed
qed


subsection \<open>The worker\<close>

text \<open>
  The worker reads the head under the lock; it decides to stop or to wait later. While it
  dispatches, the item stays in the queue; \<open>Item->Irp\<close> is cleared when the request was
  completed, and the item is unlinked, charged back and deleted in the last step.
\<close>

datatype worker = Checking | SawEmpty | Waiting | Dispatching WRITE_QUEUE_ITEM
  | Finishing WRITE_QUEUE_ITEM | Stopped

definition set_head :: "WRITE_QUEUE_ITEM \<Rightarrow> 'd world \<Rightarrow> 'd world" where
  "set_head it w = w\<lparr>ext := (ext w)\<lparr>WriteQueue := it # tl (queue w)\<rparr>\<rparr>"

definition worker_step ::
  "'d lower_driver \<Rightarrow> bool \<Rightarrow> NTSTATUS \<Rightarrow> worker \<Rightarrow> 'd world \<Rightarrow> (worker \<times> 'd world) option" where
  "worker_step L built ls k w =
     (case k of
        Checking \<Rightarrow> Some (case queue w of [] \<Rightarrow> SawEmpty | it # _ \<Rightarrow> Dispatching it, w)
      | SawEmpty \<Rightarrow> Some (if ShutdownThread (ext w) then (Stopped, w) else (Waiting, create_links ls w))
      | Waiting \<Rightarrow> if WriteQueueEvent (ext w) then Some (Checking, consume_event w) else None
      | Dispatching it \<Rightarrow>
          (case dispatch_lower L built it (lower w) of
             None \<Rightarrow> Some (Checking,
               upd_stats (\<lambda>s. s\<lparr>LastErrorCode := STATUS_INSUFFICIENT_RESOURCES\<rparr>) w)
           | Some (io, d) \<Rightarrow>
               let w1 = w\<lparr>lower := d\<rparr>;
                   w2 = (case io of None \<Rightarrow> w1 | Some i \<Rightarrow> IoCompleteRequest i w1);
                   it' = it\<lparr>it_Irp := None\<rparr>
               in Some (Finishing it', set_head it' w2))
      | Finishing it \<Rightarrow> Some (Checking, dispatch_finish it w)
      | Stopped \<Rightarrow> None)"

lemma worker_step_sel [simp]:
  "worker_step L b ls Checking w = Some (case queue w of [] \<Rightarrow> SawEmpty | it # _ \<Rightarrow> Dispatching it, w)"
  "worker_step L b ls SawEmpty w =
     Some (if ShutdownThread (ext w) then (Stopped, w) else (Waiting, create_links ls w))"
  "worker_step L b ls Waiting w = (if WriteQueueEvent (ext w) then Some (Checking, consume_event w) else None)"
  "worker_step L b ls (Finishing it) w = Some (Checking, dispatch_finish it w)"
  "worker_step L b ls Stopped w = None"
  by (simp_all add: worker_step_def)

lemma item_cost_irp: "item_cost (it\<lparr>it_Irp := x\<rparr>) = item_cost it"
  by (simp add: item_cost_def)

text \<open>
  The worker steps that serve the head of the queue, taken together, are
  QCacheDispatchQueuedItem, whether the lower request could be built or not.
\<close>

lemma worker_steps_are_dispatch:
  assumes "queue w = it # q"
  shows "(case worker_step L built ls (Dispatching it) w of
            Some (Finishing it', w1) \<Rightarrow> worker_step L built ls (Finishing it') w1
          | r \<Rightarrow> r) = Some (Checking, dispatch_item L built it w)"
proof (cases "dispatch_lower L built it (lower w)")
  case None
  then show ?thesis by (simp add: worker_step_def dispatch_item_def)
next
  case (Some r)
  obtain io d where r: "r = (io, d)" by (cases r)
  from assms Some r show ?thesis
    by (cases io)
      (simp_all add: worker_step_def dispatch_item_def Let_def dispatch_finish_eq set_head_def
        IoCompleteRequest_def)
qed

subsection \<open>The system\<close>

record 'd system =
  sy_World :: "'d world"
  sy_Producers :: "producer list"
  sy_Worker :: worker
  sy_Inserted :: "WRITE_QUEUE_ITEM list"
  sy_Retired :: "WRITE_QUEUE_ITEM list"

definition plain :: "WRITE_QUEUE_ITEM \<Rightarrow> WRITE_QUEUE_ITEM" where
  "plain it = it\<lparr>it_Irp := None\<rparr>"

definition inserted_by :: "producer \<Rightarrow> WRITE_QUEUE_ITEM list" where
  "inserted_by p = (case p of Inserting lazy it cost i \<Rightarrow> [plain it] | _ \<Rightarrow> [])"

definition retired_by :: "worker \<Rightarrow> WRITE_QUEUE_ITEM list" where
  "retired_by k = (case k of Finishing it \<Rightarrow> [plain it] | _ \<Rightarrow> [])"

text \<open>
  A request arrives at an idle producer, a producer or the worker takes a step, another thread
  switches the cache on or off, and the removal of the device asks the worker to stop in two
  steps, the flag and the signal.
\<close>

inductive step :: "'d lower_driver \<Rightarrow> 'd system \<Rightarrow> 'd system \<Rightarrow> bool" for L where
  arrive: "n < length (sy_Producers s) \<Longrightarrow> sy_Producers s ! n = Idle \<Longrightarrow>
     step L s (s\<lparr>sy_Producers := (sy_Producers s)[n := Deciding e i]\<rparr>)"
| produce: "n < length (sy_Producers s) \<Longrightarrow>
     producer_step (sy_Producers s ! n) (sy_World s) = Some (p, w) \<Longrightarrow>
     step L s (s\<lparr>sy_Producers := (sy_Producers s)[n := p], sy_World := w,
                 sy_Inserted := sy_Inserted s @ inserted_by (sy_Producers s ! n)\<rparr>)"
| work: "worker_step L built ls (sy_Worker s) (sy_World s) = Some (k, w) \<Longrightarrow>
     step L s (s\<lparr>sy_Worker := k, sy_World := w,
                 sy_Retired := sy_Retired s @ retired_by (sy_Worker s)\<rparr>)"
| cached: "step L s (s\<lparr>sy_World := upd_stats (\<lambda>st. st\<lparr>IsCached := b\<rparr>) (sy_World s)\<rparr>)"
| stop: "step L s (s\<lparr>sy_World := (sy_World s)\<lparr>ext := (ext (sy_World s))\<lparr>ShutdownThread := True\<rparr>\<rparr>\<rparr>)"
| wake: "step L s (s\<lparr>sy_World := set_queue_event (sy_World s)\<rparr>)"

definition initial :: "nat \<Rightarrow> 'd world \<Rightarrow> 'd system" where
  "initial n w = \<lparr>sy_World = w, sy_Producers = replicate n Idle, sy_Worker = Checking,
                  sy_Inserted = [], sy_Retired = []\<rparr>"

definition fresh :: "'d world \<Rightarrow> bool" where
  "fresh w \<longleftrightarrow> queue w = [] \<and> Scatters w = [] \<and>
     WriteQueueItems (stats w) = 0 \<and> WriteQueueSize (stats w) = 0"

definition reachable :: "'d lower_driver \<Rightarrow> nat \<Rightarrow> 'd system \<Rightarrow> bool" where
  "reachable L n s \<longleftrightarrow> (\<exists>w. fresh w \<and> (step L)\<^sup>*\<^sup>* (initial n w) s)"

subsection \<open>Invariant\<close>

definition inserting :: "producer \<Rightarrow> bool" where
  "inserting p \<longleftrightarrow> (case p of Inserting _ _ _ _ \<Rightarrow> True | _ \<Rightarrow> False)"

definition signalling :: "producer \<Rightarrow> bool" where
  "signalling p \<longleftrightarrow> (case p of Signalling _ _ \<Rightarrow> True | _ \<Rightarrow> False)"

definition charged :: "producer \<Rightarrow> bool" where
  "charged p \<longleftrightarrow> (case p of Inserting lazy it cost i \<Rightarrow> cost = item_cost it | _ \<Rightarrow> True)"

definition worker_at :: "worker \<Rightarrow> WRITE_QUEUE_ITEM list \<Rightarrow> bool" where
  "worker_at k q \<longleftrightarrow>
     (case k of Dispatching it \<Rightarrow> q \<noteq> [] \<and> hd q = it
      | Finishing it \<Rightarrow> q \<noteq> [] \<and> hd q = it | _ \<Rightarrow> True)"

definition asleep :: "worker \<Rightarrow> bool" where
  "asleep k \<longleftrightarrow> k = SawEmpty \<or> k = Waiting"

text \<open>
  The counters are exact, and every queued item and the \<open>n\<close> items about to be inserted are covered,
  beside \<open>m\<close> acquisitions of the remove lock that others hold.
\<close>

definition counts_exact :: "nat \<Rightarrow> nat \<Rightarrow> 'd world \<Rightarrow> bool" where
  "counts_exact m n w \<longleftrightarrow>
     WriteQueueItems (stats w) = of_nat (length (queue w)) \<and>
     WriteQueueSize (stats w) = sum_list (map item_cost (queue w)) \<and>
     length (queue w) + n + m \<le> RemoveLock (ext w) \<and> length (queue w) + n \<le> PoolItems w"

definition system_inv_beside :: "nat \<Rightarrow> 'd system \<Rightarrow> bool" where
  "system_inv_beside m s \<longleftrightarrow>
     counts_exact m (length (filter inserting (sy_Producers s))) (sy_World s) \<and>
     list_all charged (sy_Producers s) \<and> worker_at (sy_Worker s) (queue (sy_World s)) \<and>
     sy_Inserted s = sy_Retired s @ map plain (queue (sy_World s)) \<and>
     (asleep (sy_Worker s) \<and> queue (sy_World s) \<noteq> [] \<longrightarrow>
        WriteQueueEvent (ext (sy_World s)) \<or> list_ex signalling (sy_Producers s))"

abbreviation system_inv :: "'d system \<Rightarrow> bool" where
  "system_inv \<equiv> system_inv_beside 0"

subsection \<open>One producer step\<close>

definition adds :: "producer \<Rightarrow> WRITE_QUEUE_ITEM list" where
  "adds p = (case p of Inserting lazy it cost i \<Rightarrow> [it] | _ \<Rightarrow> [])"

lemma inserted_by_adds: "inserted_by p = map plain (adds p)"
  by (cases p) (simp_all add: inserted_by_def adds_def)

text \<open>The parts of the world the invariant reads; \<open>same_queue\<close> says a step left them alone.\<close>

definition same_queue :: "'d world \<Rightarrow> 'd world \<Rightarrow> bool" where
  "same_queue w w' \<longleftrightarrow> queue w' = queue w \<and> WriteQueueEvent (ext w') = WriteQueueEvent (ext w) \<and>
     WriteQueueItems (stats w') = WriteQueueItems (stats w) \<and>
     WriteQueueSize (stats w') = WriteQueueSize (stats w) \<and>
     MaxQueueItems (stats w') = MaxQueueItems (stats w)"

definition producer_effect :: "producer \<Rightarrow> 'd world \<Rightarrow> producer \<Rightarrow> 'd world \<Rightarrow> bool" where
  "producer_effect p w p' w' \<longleftrightarrow>
     (\<forall>m n. counts_exact m (n + of_bool (inserting p)) w \<longrightarrow> counts_exact m (n + of_bool (inserting p')) w') \<and>
     charged p' \<and> queue w' = queue w @ adds p \<and>
     (WriteQueueEvent (ext w) \<longrightarrow> WriteQueueEvent (ext w')) \<and>
     (signalling p \<longrightarrow> WriteQueueEvent (ext w')) \<and> (inserting p \<longrightarrow> signalling p') \<and>
     MaxQueueItems (stats w') = MaxQueueItems (stats w)"

lemma counts_exact_complete: "counts_exact m n (IoCompleteRequest i w) = counts_exact m n w"
  by (simp add: counts_exact_def IoCompleteRequest_def)

lemma low_mem_same_queue:
  "KeSetLowMem b w = Some w' \<Longrightarrow> same_queue w w' \<and> RemoveLock (ext w') = RemoveLock (ext w) \<and> PoolItems w' = PoolItems w"
  by (auto simp: KeSetLowMem_def same_queue_def split: option.splits)

lemma decide_effect:
  assumes "decide e i w = Some (p', w')"
  shows "producer_effect (Deciding e i) w p' w' \<and> \<not> inserting p'"
proof -
  have low: "same_queue w w1 \<and> RemoveLock (ext w1) = RemoveLock (ext w) \<and> PoolItems w1 = PoolItems w"
    if "KeSetLowMem b (upd_stats (\<lambda>s. s\<lparr>LowMemQueued := x s\<rparr>) w) = Some w1" for b w1 x
    using low_mem_same_queue [OF that] by (simp add: same_queue_def upd_stats_def)
  have k: "same_queue w w' \<and> RemoveLock (ext w') = RemoveLock (ext w) \<and> PoolItems w' = PoolItems w \<and>
      (\<exists>b. p' = Preparing b e i)"
    using assms
    by (auto simp: decide_def dest!: low low_mem_same_queue [of False] split: if_splits)
      (simp_all add: same_queue_def)
  then show ?thesis
    by (auto simp: producer_effect_def counts_exact_def same_queue_def adds_def inserting_def signalling_def charged_def)
qed

lemma prepare_effect:
  assumes "prepare lazy e i w = Some (p', w')"
  shows "producer_effect (Preparing lazy e i) w p' w'"
proof -
  have c: "WriteQueueItems (stats w') = WriteQueueItems (stats w) \<and> WriteQueueSize (stats w') = WriteQueueSize (stats w) \<and>
      MaxQueueItems (stats w') = MaxQueueItems (stats w) \<and>
      queue w' = queue w \<and> WriteQueueEvent (ext w') = WriteQueueEvent (ext w) \<and> charged p' \<and>
      RemoveLock (ext w) + of_bool (inserting p') \<le> RemoveLock (ext w') \<and>
      PoolItems w + of_bool (inserting p') \<le> PoolItems w'"
    using assms
    by (auto simp: prepare_def give_up_def IoAcquireRemoveLock_def complete_with_def IoCompleteRequest_def
        Let_def inserting_def charged_def item_cost_def new_item_def bind_eq_Some_conv
        split: if_splits)
  then show ?thesis
    by (auto simp: producer_effect_def counts_exact_def adds_def inserting_def [of "Preparing _ _ _"]
        signalling_def [of "Preparing _ _ _"])
qed

lemma producer_step_effect:
  assumes "producer_step p w = Some (p', w')" "charged p"
  shows "producer_effect p w p' w'"
proof (cases p)
  case Idle
  with assms show ?thesis by (simp add: producer_step_def)
next
  case (Deciding e i)
  with assms(1) show ?thesis using decide_effect [of e i w p' w'] by simp
next
  case (Preparing lazy e i)
  with assms(1) show ?thesis using prepare_effect [of lazy e i w p' w'] by simp
next
  case (Inserting lazy it cost i)
  with assms have s: "p' = Signalling lazy i" "w' = insert_item it cost w" "cost = item_cost it"
    by (simp_all add: charged_def)
  show ?thesis
    by (simp add: s Inserting producer_effect_def counts_exact_def insert_item_eq adds_def
        inserting_def signalling_def charged_def)
next
  case (Signalling lazy i)
  with assms have s: "p' = (if lazy then Completing i else Idle)" "w' = set_queue_event w"
    by simp_all
  then show ?thesis
    by (cases lazy) (simp_all add: s Signalling producer_effect_def counts_exact_def set_queue_event_def adds_def
        inserting_def signalling_def charged_def)
next
  case (Completing i)
  with assms have s: "p' = Idle" "w' = IoCompleteRequest (lazy_completion i) w" by simp_all
  show ?thesis
    by (simp add: s Completing producer_effect_def counts_exact_complete adds_def
        inserting_def signalling_def charged_def)
      (simp add: IoCompleteRequest_def)
qed

subsection \<open>One worker step\<close>

definition worker_effect :: "worker \<Rightarrow> 'd world \<Rightarrow> worker \<Rightarrow> 'd world \<Rightarrow> bool" where
  "worker_effect k w k' w' \<longleftrightarrow>
     (\<forall>m n. counts_exact m n w \<longrightarrow> counts_exact m n w') \<and> worker_at k' (queue w') \<and>
     map plain (queue w) = retired_by k @ map plain (queue w') \<and>
     (asleep k' \<and> queue w' \<noteq> [] \<longrightarrow> asleep k \<and> queue w \<noteq> [] \<and> WriteQueueEvent (ext w') = WriteQueueEvent (ext w)) \<and>
     MaxQueueItems (stats w') = MaxQueueItems (stats w) \<and>
     length (queue w') \<le> length (queue w)"

lemma worker_step_effect:
  assumes "worker_step L built ls k w = Some (k', w')" "worker_at k (queue w)"
  shows "worker_effect k w k' w'"
proof (cases k)
  case Checking
  with assms show ?thesis
    by (auto simp: worker_effect_def worker_at_def asleep_def retired_by_def split: list.splits)
next
  case SawEmpty
  with assms show ?thesis
    by (auto simp: worker_effect_def worker_at_def asleep_def retired_by_def counts_exact_def split: if_splits)
next
  case Waiting
  with assms show ?thesis
    by (auto simp: worker_effect_def worker_at_def asleep_def retired_by_def counts_exact_def split: if_splits)
next
  case (Dispatching it)
  with assms(2) obtain q where q: "queue w = it # q"
    by (cases "queue w") (auto simp: worker_at_def)
  show ?thesis
  proof (cases "dispatch_lower L built it (lower w)")
    case None
    with assms Dispatching have "k' = Checking"
      "w' = upd_stats (\<lambda>s. s\<lparr>LastErrorCode := STATUS_INSUFFICIENT_RESOURCES\<rparr>) w"
      by (auto simp: worker_step_def)
    then show ?thesis
      by (simp add: Dispatching worker_effect_def worker_at_def asleep_def retired_by_def counts_exact_def upd_stats_def)
  next
    case (Some r)
    obtain io d where r: "r = (io, d)" by (cases r)
    from assms(1) Some r Dispatching q show ?thesis
      by (cases io)
        (auto simp: worker_step_def Let_def worker_effect_def worker_at_def asleep_def retired_by_def
          counts_exact_def set_head_def IoCompleteRequest_def plain_def item_cost_irp)
  qed
next
  case (Finishing it)
  with assms(2) obtain q where q: "queue w = it # q"
    by (cases "queue w") (auto simp: worker_at_def)
  from assms(1) Finishing have k: "k' = Checking" "w' = dispatch_finish it w" by simp_all
  have "counts_exact m n w'" if "counts_exact m n w" for m n
    using that q by (auto simp: k counts_exact_def dispatch_finish_eq item_cost_def)
  then show ?thesis
    using q by (simp add: k Finishing worker_effect_def worker_at_def asleep_def retired_by_def dispatch_finish_eq)
next
  case Stopped
  with assms show ?thesis by simp
qed


subsection \<open>Every reachable state satisfies the invariant\<close>

lemma filter_update:
  "n < length xs \<Longrightarrow>
   length (filter P (xs[n := y])) + of_bool (P (xs ! n)) = length (filter P xs) + of_bool (P y)"
proof (induction xs arbitrary: n)
  case Nil
  then show ?case by simp
next
  case (Cons x xs)
  then show ?case by (cases n) auto
qed

lemma list_ex_update:
  assumes "n < length xs" "list_ex P xs" "\<not> P (xs ! n)"
  shows "list_ex P (xs[n := y])"
proof -
  from assms(2) obtain k where k: "k < length xs" "P (xs ! k)" by (auto simp: list_ex_length)
  with assms(3) have "k \<noteq> n" by auto
  with k show ?thesis by (auto simp: list_ex_length intro!: exI [of _ k])
qed

lemma list_ex_updated: "n < length xs \<Longrightarrow> P y \<Longrightarrow> list_ex P (xs[n := y])"
  by (auto simp: list_ex_length intro!: exI [of _ n])

lemma list_all_update: "list_all P xs \<Longrightarrow> P y \<Longrightarrow> list_all P (xs[n := y])"
  by (auto simp: list_all_iff dest!: subsetD [OF set_update_subset_insert])

lemma system_inv_produce:
  assumes "system_inv_beside b s" "n < length (sy_Producers s)"
    and "producer_step (sy_Producers s ! n) (sy_World s) = Some (p, w)"
  shows "system_inv_beside b (s\<lparr>sy_Producers := (sy_Producers s)[n := p], sy_World := w,
                 sy_Inserted := sy_Inserted s @ inserted_by (sy_Producers s ! n)\<rparr>)"
proof -
  let ?p = "sy_Producers s ! n" and ?ps = "sy_Producers s"
  have "charged ?p" using assms(1,2) by (auto simp: system_inv_beside_def list_all_length)
  from producer_step_effect [OF assms(3) this] have e: "producer_effect ?p (sy_World s) p w" .
  have cnt: "length (filter inserting (?ps[n := p])) + of_bool (inserting ?p)
      = length (filter inserting ?ps) + of_bool (inserting p)"
    by (rule filter_update [OF assms(2)])
  obtain m where m: "length (filter inserting ?ps) = m + of_bool (inserting ?p)"
  proof (cases "inserting ?p")
    case True
    then have "filter inserting ?ps \<noteq> []"
      using assms(2) by (auto simp: filter_empty_conv)
    then obtain k where "length (filter inserting ?ps) = Suc k"
      by (cases "filter inserting ?ps") auto
    with True that [of k] show ?thesis by simp
  next
    case False
    with that [of "length (filter inserting ?ps)"] show ?thesis by simp
  qed
  with cnt have m': "length (filter inserting (?ps[n := p])) = m + of_bool (inserting p)" by simp
  have "counts_exact b (length (filter inserting (?ps[n := p]))) w"
    using e assms(1) unfolding m' producer_effect_def system_inv_beside_def m by blast
  moreover have "list_all charged (?ps[n := p])"
    using e assms(1) by (simp add: list_all_update producer_effect_def system_inv_beside_def)
  moreover have "worker_at (sy_Worker s) (queue w)"
    using e assms(1) by (auto simp: producer_effect_def system_inv_beside_def worker_at_def split: worker.splits)
  moreover have "sy_Inserted s @ inserted_by ?p = sy_Retired s @ map plain (queue w)"
    using e assms(1) by (simp add: producer_effect_def system_inv_beside_def inserted_by_adds)
  moreover have "WriteQueueEvent (ext w) \<or> list_ex signalling (?ps[n := p])"
    if "asleep (sy_Worker s)" "queue w \<noteq> []"
  proof (cases "inserting ?p")
    case True
    with e have "signalling p" by (simp add: producer_effect_def)
    with assms(2) show ?thesis by (simp add: list_ex_updated)
  next
    case False
    then have "queue w = queue (sy_World s)"
      using e by (cases ?p) (simp_all add: producer_effect_def adds_def inserting_def)
    with that assms(1) have "WriteQueueEvent (ext (sy_World s)) \<or> list_ex signalling ?ps"
      by (simp add: system_inv_beside_def)
    with e assms(2) show ?thesis
      by (cases "signalling ?p") (auto simp: producer_effect_def intro: list_ex_update)
  qed
  ultimately show ?thesis by (simp add: system_inv_beside_def)
qed

lemma system_inv_work:
  assumes "system_inv_beside b s" "worker_step L built ls (sy_Worker s) (sy_World s) = Some (k, w)"
  shows "system_inv_beside b (s\<lparr>sy_Worker := k, sy_World := w, sy_Retired := sy_Retired s @ retired_by (sy_Worker s)\<rparr>)"
proof -
  have "worker_effect (sy_Worker s) (sy_World s) k w"
    using assms by (intro worker_step_effect) (simp_all add: system_inv_beside_def)
  with assms(1) show ?thesis by (auto simp: system_inv_beside_def worker_effect_def)
qed

lemma system_inv_step: "step L s s' \<Longrightarrow> system_inv_beside b s \<Longrightarrow> system_inv_beside b s'"
proof (induction rule: step.induct)
  case (arrive n s e i)
  have "length (filter inserting ((sy_Producers s)[n := Deciding e i])) = length (filter inserting (sy_Producers s))"
    using filter_update [OF arrive(1), of inserting "Deciding e i"] arrive(2) by (simp add: inserting_def)
  moreover have "list_ex signalling ((sy_Producers s)[n := Deciding e i])" if "list_ex signalling (sy_Producers s)"
    using that arrive(1,2) by (intro list_ex_update) (simp_all add: signalling_def)
  ultimately show ?case
    using arrive(3) by (auto simp: system_inv_beside_def list_all_update charged_def)
next
  case (produce n s p w)
  then show ?case by (simp add: system_inv_produce)
next
  case (work built ls s k w)
  then show ?case by (simp add: system_inv_work)
next
  case (cached s b)
  then show ?case by (simp add: system_inv_beside_def counts_exact_def upd_stats_def)
next
  case (stop s)
  then show ?case by (simp add: system_inv_beside_def counts_exact_def)
next
  case (wake s)
  then show ?case by (simp add: system_inv_beside_def counts_exact_def set_queue_event_def)
qed

lemma initial_inv: "fresh w \<Longrightarrow> system_inv (initial n w)"
  by (simp add: system_inv_beside_def initial_def fresh_def counts_exact_def worker_at_def asleep_def
      charged_def list_all_iff inserting_def)

lemma reachable_inv: "reachable L n s \<Longrightarrow> system_inv s"
proof -
  have "system_inv s" if "(step L)\<^sup>*\<^sup>* a s" "system_inv a" for a
    using that by (induction rule: rtranclp_induct) (auto intro: system_inv_step)
  then show "reachable L n s \<Longrightarrow> system_inv s"
    by (auto simp: reachable_def intro: initial_inv)
qed

subsection \<open>Consequences\<close>

text \<open>
  C13: In every reachable state with a queued item and a worker that has not stopped, the
  worker can take a step or some producer still has its signal to give: the wait on the queue
  event loses no wake-up. (Executing the head, with the wait for the lower device, is one
  step, taken when the device completes the request.)
\<close>

theorem no_lost_wakeup:
  assumes "reachable L n s" "queue (sy_World s) \<noteq> []" "sy_Worker s \<noteq> Stopped"
  shows "(\<exists>k w. worker_step L built ls (sy_Worker s) (sy_World s) = Some (k, w)) \<or>
     list_ex signalling (sy_Producers s)"
proof (cases "sy_Worker s")
  case Waiting
  then have "asleep (sy_Worker s)" by (simp add: asleep_def)
  with assms reachable_inv [OF assms(1)] Waiting show ?thesis by (auto simp: system_inv_beside_def)
next
  case (Dispatching it)
  then show ?thesis by (auto simp: worker_step_def Let_def split: option.splits)
qed (use assms in \<open>simp_all\<close>)

text \<open>
  In every reachable state the items that ever entered the queue are those the worker
  retired followed by those still queued, in order: items are served first in, first out, each
  once.
\<close>

theorem served_in_order:
  "reachable L n s \<Longrightarrow> sy_Inserted s = sy_Retired s @ map plain (queue (sy_World s))"
  using reachable_inv [of L n s] by (simp add: system_inv_beside_def)

text \<open>
  In every state that interleaved producers, the worker and the control threads can
  reach, the item count and the byte count of the statistics are exactly those of the queue,
  and every queued item holds an acquisition of the remove lock.
\<close>

theorem counts_exact_reachable:
  assumes "reachable L n s"
  shows "WriteQueueItems (stats (sy_World s)) = of_nat (length (queue (sy_World s))) \<and>
     WriteQueueSize (stats (sy_World s)) = sum_list (map item_cost (queue (sy_World s))) \<and>
     length (queue (sy_World s)) \<le> RemoveLock (ext (sy_World s))"
  using reachable_inv [OF assms] by (simp_all add: system_inv_beside_def counts_exact_def)

text \<open>Once the worker has stopped nothing leaves the queue any more.\<close>

definition nothing_lost :: "'d system \<Rightarrow> 'd system \<Rightarrow> bool" where
  "nothing_lost s s' \<longleftrightarrow> sy_Worker s' = Stopped \<and> sy_Retired s' = sy_Retired s \<and>
     (\<exists>new. queue (sy_World s') = queue (sy_World s) @ new)"

lemma stopped_step:
  assumes "step L s s'" "system_inv s" "sy_Worker s = Stopped"
  shows "nothing_lost s s'"
  using assms(1)
proof (cases rule: step.cases)
  case (produce n p w)
  have "charged (sy_Producers s ! n)" using produce assms(2) by (auto simp: system_inv_beside_def list_all_length)
  with producer_step_effect [OF produce(3)] have "queue w = queue (sy_World s) @ adds (sy_Producers s ! n)"
    by (simp add: producer_effect_def)
  with produce assms(3) show ?thesis by (simp add: nothing_lost_def)
qed (use assms(3) in \<open>simp_all add: nothing_lost_def upd_stats_def set_queue_event_def\<close>)

lemma stopped_forever:
  assumes "(step L)\<^sup>*\<^sup>* s s'" "system_inv s" "sy_Worker s = Stopped"
  shows "nothing_lost s s' \<and> system_inv s'"
  using assms(1)
proof (induction rule: rtranclp_induct)
  case base
  with assms(2,3) show ?case by (simp add: nothing_lost_def)
next
  case (step y z)
  then have "nothing_lost y z" using stopped_step [of L y z] by (simp add: nothing_lost_def)
  with step assms show ?case using system_inv_step [of L y z] by (auto simp: nothing_lost_def)
qed

subsection \<open>A write acknowledged after the worker stopped\<close>

lemma step_produceI:
  assumes "producer_step (sy_Producers s ! n) (sy_World s) = Some (p, w)" "n < length (sy_Producers s)"
    and "s' = s\<lparr>sy_Producers := (sy_Producers s)[n := p], sy_World := w,
                sy_Inserted := sy_Inserted s @ inserted_by (sy_Producers s ! n)\<rparr>"
  shows "step L s s'"
  using step.produce [OF assms(2,1)] by (simp add: assms(3))

lemma step_workI:
  assumes "worker_step L built ls (sy_Worker s) (sy_World s) = Some (k, w)"
    and "s' = s\<lparr>sy_Worker := k, sy_World := w, sy_Retired := sy_Retired s @ retired_by (sy_Worker s)\<rparr>"
  shows "step L s s'"
  using step.work [OF assms(1)] by (simp add: assms(2))

lemma step_then: "step L a b \<Longrightarrow> (step L)\<^sup>*\<^sup>* b c \<Longrightarrow> (step L)\<^sup>*\<^sup>* a c"
  by (rule converse_rtranclp_into_rtranclp)

text \<open>
  Before that: a state in which a write was inserted and its producer has yet to signal. The
  only request that arrives on the way is the write.
\<close>

definition brings :: "'d lower_driver \<Rightarrow> irp \<Rightarrow> 'd system \<Rightarrow> 'd system \<Rightarrow> bool" where
  "brings L i s s' \<longleftrightarrow> step L s s' \<and>
     list_all (\<lambda>p. case p of Deciding e j \<Rightarrow> j = i | _ \<Rightarrow> True) (sy_Producers s')"

lemma brings_then: "brings L i a b \<Longrightarrow> (brings L i)\<^sup>*\<^sup>* b c \<Longrightarrow> (brings L i)\<^sup>*\<^sup>* a c"
  by (rule converse_rtranclp_into_rtranclp)

lemma inserted_write_by:
  fixes w :: "'d world" and L :: "'d lower_driver"
  assumes "fresh w" "IsCached (stats w)" "admits e (stats w)" "LowMemCondition w \<noteq> None"
    and "lazy_resources e i" "wf_transfer i" "ir_MajorFunction i = IRP_MJ_WRITE"
  shows "\<exists>s. (brings L i)\<^sup>*\<^sup>* (initial 1 w) s \<and> sy_Worker s = Checking \<and>
     queue (sy_World s) = [lazy_item i] \<and> lower (sy_World s) = lower w \<and>
     Size (stats (sy_World s)) = Size (stats w)"
proof -
  let ?i = "i\<lparr>ir_Information := 0\<rparr>" and ?c = "sizeof_item + ucast (ir_Length i)"
  let ?s0 = "initial 1 w"
  let ?s1 = "?s0\<lparr>sy_Producers := [Deciding e i]\<rparr>"
  let ?w2 = "w\<lparr>LowMemCondition := Some False\<rparr>"
  let ?s2 = "?s0\<lparr>sy_Producers := [Preparing True e i], sy_World := ?w2\<rparr>"
  let ?w3 = "?w2\<lparr>PoolItems := Suc (PoolItems w), ext := (ext ?w2)\<lparr>RemoveLock := Suc (RemoveLock (ext w))\<rparr>\<rparr>"
  let ?s3 = "?s2\<lparr>sy_Producers := [Inserting True (lazy_item i) ?c ?i], sy_World := ?w3\<rparr>"
  let ?s4 = "?s3\<lparr>sy_Producers := [Signalling True ?i], sy_World := insert_item (lazy_item i) ?c ?w3,
                 sy_Inserted := [plain (lazy_item i)]\<rparr>"
  have q: "queue w = []" using assms(1) by (simp add: fresh_def)
  obtain b where b: "LowMemCondition w = Some b" using assms(4) by auto
  have li: "lazy_item i = new_item\<lparr>it_MajorFunction := IRP_MJ_WRITE, it_Offset := ir_ByteOffset i,
      it_Length := ir_Length i, it_Buffer := Some (ir_Buffer i)\<rparr>"
    using assms(7) by (simp add: lazy_item_def)
  have copy: "RtlCopyMemory (replicate (unat (ir_Length i)) 0) 0 (ir_Buffer i) 0 (unat (ir_Length i)) = Some (ir_Buffer i)"
    using assms(6) by (simp add: wf_transfer_def copy_all)
  have 1: "step L ?s0 ?s1"
    using step.arrive [of 0 ?s0 L e i] by (simp add: initial_def)
  have 2: "step L ?s1 ?s2"
    by (rule step_produceI [of _ 0 "Preparing True e i" ?w2])
      (use assms(2,3,7) b in \<open>simp_all add: initial_def decide_def KeSetLowMem_def inserted_by_def\<close>)
  have 3: "step L ?s2 ?s3"
    by (rule step_produceI [of _ 0 "Inserting True (lazy_item i) ?c ?i" ?w3])
      (use assms(5,7) copy in \<open>simp_all add: initial_def prepare_def lazy_resources_def Let_def
         IoAcquireRemoveLock_def li inserted_by_def\<close>)
  have 4: "step L ?s3 ?s4"
    by (rule step_produceI [of _ 0 "Signalling True ?i" "insert_item (lazy_item i) ?c ?w3"])
      (simp_all add: initial_def inserted_by_def)
  have "brings L i ?s0 ?s1" "brings L i ?s1 ?s2" "brings L i ?s2 ?s3" "brings L i ?s3 ?s4"
    using 1 2 3 4 by (simp_all add: brings_def)
  then have "(brings L i)\<^sup>*\<^sup>* ?s0 ?s4"
    by (meson brings_then r_into_rtranclp)
  then show ?thesis
    by (intro exI [of _ ?s4] conjI) (simp_all add: initial_def insert_item_eq q)
qed

lemma inserted_write:
  fixes w :: "'d world" and L :: "'d lower_driver"
  assumes "fresh w" "IsCached (stats w)" "admits e (stats w)" "LowMemCondition w \<noteq> None"
    and "lazy_resources e i" "wf_transfer i" "ir_MajorFunction i = IRP_MJ_WRITE"
  shows "\<exists>s. reachable L 1 s \<and> sy_Worker s = Checking \<and> queue (sy_World s) = [lazy_item i]"
proof -
  have "(step L)\<^sup>*\<^sup>* a b" if "(brings L i)\<^sup>*\<^sup>* a b" for a b
    by (rule rtranclp_mono [THEN predicate2D, OF _ that]) (simp add: le_fun_def brings_def)
  with inserted_write_by [OF assms, of L] assms(1) show ?thesis by (fastforce simp: reachable_def)
qed

lemma stranded_write:
  fixes w :: "'d world"
  assumes "fresh w" "IsCached (stats w)" "admits e (stats w)" "LowMemCondition w \<noteq> None"
    and "lazy_resources e i" "wf_transfer i" "ir_MajorFunction i = IRP_MJ_WRITE"
  shows "\<exists>s. (step L)\<^sup>*\<^sup>* (initial 1 w) s \<and> sy_Worker s = Stopped \<and> sy_Producers s = [Idle] \<and>
     queue (sy_World s) = [lazy_item i] \<and>
     Completed (sy_World s) = Completed w @ [lazy_completion i]"
proof -
  let ?i = "i\<lparr>ir_Information := 0\<rparr>" and ?c = "sizeof_item + ucast (ir_Length i)"
  let ?s0 = "initial 1 w"
  let ?s1 = "?s0\<lparr>sy_Producers := [Deciding e i]\<rparr>"
  let ?w2 = "w\<lparr>LowMemCondition := Some False\<rparr>"
  let ?s2 = "?s0\<lparr>sy_Producers := [Preparing True e i], sy_World := ?w2\<rparr>"
  let ?s3 = "?s2\<lparr>sy_Worker := SawEmpty\<rparr>"
  let ?w4 = "?w2\<lparr>ext := (ext ?w2)\<lparr>ShutdownThread := True\<rparr>\<rparr>"
  let ?s4 = "?s3\<lparr>sy_World := ?w4\<rparr>"
  let ?s5 = "?s4\<lparr>sy_Worker := Stopped\<rparr>"
  let ?w6 = "?w4\<lparr>PoolItems := Suc (PoolItems w), ext := (ext ?w4)\<lparr>RemoveLock := Suc (RemoveLock (ext w))\<rparr>\<rparr>"
  let ?s6 = "?s5\<lparr>sy_Producers := [Inserting True (lazy_item i) ?c ?i], sy_World := ?w6\<rparr>"
  let ?s7 = "?s6\<lparr>sy_Producers := [Signalling True ?i], sy_World := insert_item (lazy_item i) ?c ?w6,
                 sy_Inserted := [plain (lazy_item i)]\<rparr>"
  let ?s8 = "?s7\<lparr>sy_Producers := [Completing ?i], sy_World := set_queue_event (sy_World ?s7)\<rparr>"
  let ?s9 = "?s8\<lparr>sy_Producers := [Idle], sy_World := IoCompleteRequest (lazy_completion i) (sy_World ?s8)\<rparr>"
  have q: "queue w = []" using assms(1) by (simp add: fresh_def)
  obtain b where b: "LowMemCondition w = Some b" using assms(4) by auto
  have li: "lazy_item i = new_item\<lparr>it_MajorFunction := IRP_MJ_WRITE, it_Offset := ir_ByteOffset i,
      it_Length := ir_Length i, it_Buffer := Some (ir_Buffer i)\<rparr>"
    using assms(7) by (simp add: lazy_item_def)
  have copy: "RtlCopyMemory (replicate (unat (ir_Length i)) 0) 0 (ir_Buffer i) 0 (unat (ir_Length i)) = Some (ir_Buffer i)"
    using assms(6) by (simp add: wf_transfer_def copy_all)
  have lc: "lazy_completion ?i = lazy_completion i" by (simp add: lazy_completion_def status_information)
  have 1: "step L ?s0 ?s1"
    using step.arrive [of 0 ?s0 L e i] by (simp add: initial_def)
  have 2: "step L ?s1 ?s2"
    by (rule step_produceI [of _ 0 "Preparing True e i" ?w2])
      (use assms(2,3,7) b in \<open>simp_all add: initial_def decide_def KeSetLowMem_def inserted_by_def\<close>)
  have 3: "step L ?s2 ?s3"
    by (rule step_workI [of L True 0 _ SawEmpty ?w2]) (simp_all add: initial_def q retired_by_def)
  have 4: "step L ?s3 ?s4"
    using step.stop [of L ?s3] by simp
  have 5: "step L ?s4 ?s5"
    by (rule step_workI [of L True 0 _ Stopped ?w4]) (simp_all add: initial_def retired_by_def)
  have 6: "step L ?s5 ?s6"
    by (rule step_produceI [of _ 0 "Inserting True (lazy_item i) ?c ?i" ?w6])
      (use assms(5,7) copy in \<open>simp_all add: initial_def prepare_def lazy_resources_def Let_def
         IoAcquireRemoveLock_def li inserted_by_def\<close>)
  have 7: "step L ?s6 ?s7"
    by (rule step_produceI [of _ 0 "Signalling True ?i" "insert_item (lazy_item i) ?c ?w6"])
      (simp_all add: initial_def inserted_by_def)
  have 8: "step L ?s7 ?s8"
    by (rule step_produceI [of _ 0 "Completing ?i" "set_queue_event (sy_World ?s7)"])
      (simp_all add: inserted_by_def)
  have 9: "step L ?s8 ?s9"
    by (rule step_produceI [of _ 0 Idle "IoCompleteRequest (lazy_completion i) (sy_World ?s8)"])
      (simp_all add: inserted_by_def lc)
  have "(step L)\<^sup>*\<^sup>* ?s0 ?s9"
    by (rule step_then [OF 1 step_then [OF 2 step_then [OF 3 step_then [OF 4 step_then [OF 5
          step_then [OF 6 step_then [OF 7 step_then [OF 8 r_into_rtranclp [of "step L", OF 9]]]]]]]]])
  moreover have "queue (sy_World ?s9) = [lazy_item i]"
    by (simp add: insert_item_eq set_queue_event_def IoCompleteRequest_def q)
  moreover have "Completed (sy_World ?s9) = Completed w @ [lazy_completion i]"
    by (simp add: insert_item_eq set_queue_event_def IoCompleteRequest_def)
  ultimately show ?thesis by (intro exI [of _ ?s9] conjI) simp_all
qed

end
