(* ===== verification/QC_Mem.thy ===== *)
theory QC_Mem
  imports QC_Prelude
begin

section \<open>Pool memory and handles\<close>

text \<open>
  \<open>src/qcache/wkmem.hpp\<close>: the filling \<open>operator new\<close> and its \<open>operator delete\<close>, the owning
  pointer \<open>WPoolMem\<close> with its byte count, and the owning handle \<open>WHandle\<close>. The pool is a map
  from block numbers to the bytes of the live blocks; freeing a block that is not live, and
  writing past the end of one, is a fault (\<open>None\<close>). What an allocation returns, a failure or a
  block with some old contents, is the kernel's answer.
\<close>

subsection \<open>The pool\<close>

record pool =
  po_Blocks :: "nat \<rightharpoonup> byte list"
  po_Next :: nat

definition pool_wf :: "pool \<Rightarrow> bool" where
  "pool_wf P \<longleftrightarrow> (\<forall>k. po_Next P \<le> k \<longrightarrow> po_Blocks P k = None)"

definition old_contents :: "byte list \<Rightarrow> nat \<Rightarrow> byte list" where
  "old_contents c n = take n c @ replicate (n - length c) 0"

definition ExAllocatePoolWithTag :: "byte list option \<Rightarrow> nat \<Rightarrow> pool \<Rightarrow> nat option \<times> pool" where
  "ExAllocatePoolWithTag a n P =
     (case a of
        None \<Rightarrow> (None, P)
      | Some c \<Rightarrow> (Some (po_Next P),
          P\<lparr>po_Blocks := (po_Blocks P)(po_Next P \<mapsto> old_contents c n), po_Next := Suc (po_Next P)\<rparr>))"

definition ExFreePoolWithTag :: "nat \<Rightarrow> pool \<Rightarrow> pool option" where
  "ExFreePoolWithTag p P =
     (if po_Blocks P p = None then None else Some (P\<lparr>po_Blocks := (po_Blocks P)(p := None)\<rparr>))"

definition RtlFillMemory :: "nat \<Rightarrow> nat \<Rightarrow> byte \<Rightarrow> pool \<Rightarrow> pool option" where
  "RtlFillMemory p n b P =
     (case po_Blocks P p of
        None \<Rightarrow> None
      | Some c \<Rightarrow>
          if n \<le> length c
          then Some (P\<lparr>po_Blocks := (po_Blocks P)(p \<mapsto> replicate n b @ drop n c)\<rparr>) else None)"

subsection \<open>operator new and operator delete\<close>

definition operator_new :: "byte list option \<Rightarrow> nat \<Rightarrow> byte \<Rightarrow> pool \<Rightarrow> (nat option \<times> pool) option" where
  "operator_new a n fill P =
     (case ExAllocatePoolWithTag a n P of
        (None, P') \<Rightarrow> Some (None, P')
      | (Some p, P') \<Rightarrow> map_option (\<lambda>Q. (Some p, Q)) (RtlFillMemory p n fill P'))"

definition operator_delete :: "nat option \<Rightarrow> pool \<Rightarrow> pool option" where
  "operator_delete p P = (case p of None \<Rightarrow> Some P | Some q \<Rightarrow> ExFreePoolWithTag q P)"

lemma length_old_contents [simp]: "length (old_contents c n) = n"
  by (simp add: old_contents_def)

lemma operator_new_fills:
  "operator_new (Some c) n fill P =
     Some (Some (po_Next P),
       P\<lparr>po_Blocks := (po_Blocks P)(po_Next P \<mapsto> replicate n fill), po_Next := Suc (po_Next P)\<rparr>)"
  "operator_new None n fill P = Some (None, P)"
  by (simp_all add: operator_new_def ExAllocatePoolWithTag_def RtlFillMemory_def)

lemma new_delete:
  assumes "pool_wf P" "operator_new a n fill P = Some (p, P')"
  shows "map_option po_Blocks (operator_delete p P') = Some (po_Blocks P)" "pool_wf P'"
proof -
  have "(po_Blocks P)(po_Next P := None) = po_Blocks P"
    using assms(1) by (auto simp: pool_wf_def)
  then show "map_option po_Blocks (operator_delete p P') = Some (po_Blocks P)" "pool_wf P'"
    using assms
    by (cases a; auto simp: operator_new_fills operator_delete_def ExFreePoolWithTag_def pool_wf_def)+
qed

subsection \<open>WPoolMem\<close>

record WPoolMem =
  wp_ptr :: "nat option"
  wp_bytecount :: nat

definition WPoolMem_Empty :: WPoolMem where
  "WPoolMem_Empty = \<lparr>wp_ptr = None, wp_bytecount = 0\<rparr>"

definition Initialize :: "byte list option \<Rightarrow> nat \<Rightarrow> WPoolMem \<times> pool \<Rightarrow> WPoolMem \<times> pool" where
  "Initialize a n s = (case s of (m, P) \<Rightarrow>
     (case ExAllocatePoolWithTag a n P of (p, P') \<Rightarrow> (m\<lparr>wp_ptr := p, wp_bytecount := n\<rparr>, P')))"

definition Free :: "WPoolMem \<times> pool \<Rightarrow> (WPoolMem \<times> pool) option" where
  "Free s = (case s of (m, P) \<Rightarrow>
     (case wp_ptr m of
        None \<Rightarrow> Some (m, P)
      | Some p \<Rightarrow> map_option (\<lambda>P'. (m\<lparr>wp_ptr := None\<rparr>, P')) (ExFreePoolWithTag p P)))"

definition Alloc :: "byte list option \<Rightarrow> nat \<Rightarrow> WPoolMem \<times> pool \<Rightarrow> (WPoolMem \<times> pool) option" where
  "Alloc a n s = map_option (Initialize a n) (Free s)"

definition Clear :: "WPoolMem \<times> pool \<Rightarrow> (WPoolMem \<times> pool) option" where
  "Clear s = (case s of (m, P) \<Rightarrow>
     (case wp_ptr m of
        None \<Rightarrow> Some (m, P)
      | Some p \<Rightarrow> if 0 < wp_bytecount m
                  then map_option (Pair m) (RtlFillMemory p (wp_bytecount m) 0 P) else Some (m, P)))"

definition Abandon :: "WPoolMem \<times> pool \<Rightarrow> nat option \<times> WPoolMem \<times> pool" where
  "Abandon s = (case s of (m, P) \<Rightarrow> (wp_ptr m, m\<lparr>wp_ptr := None, wp_bytecount := 0\<rparr>, P))"

text \<open>\<open>operator =\<close> frees the block and takes another one over; the byte count stays.\<close>

definition Assign :: "nat option \<Rightarrow> WPoolMem \<times> pool \<Rightarrow> (WPoolMem \<times> pool) option" where
  "Assign p s = map_option (\<lambda>(m, P). (m\<lparr>wp_ptr := p\<rparr>, P)) (Free s)"

definition GetSize :: "WPoolMem \<Rightarrow> nat" where
  "GetSize m = (if wp_ptr m \<noteq> None then wp_bytecount m else 0)"

definition Count :: "nat \<Rightarrow> WPoolMem \<Rightarrow> nat" where
  "Count sizeof_T m = GetSize m div sizeof_T"

text \<open>The destructor.\<close>

definition WPoolMem_Destroy :: "WPoolMem \<times> pool \<Rightarrow> pool option" where
  "WPoolMem_Destroy s = map_option snd (Free s)"

subsection \<open>Owned memory is freed exactly once\<close>

datatype pool_call = CallAlloc "byte list option" nat | CallFree | CallClear | CallAbandon

text \<open>A use of one object; the blocks it gave away with \<open>Abandon\<close> are collected.\<close>

fun use_block :: "pool_call list \<Rightarrow> nat set \<Rightarrow> WPoolMem \<times> pool \<Rightarrow> (nat set \<times> WPoolMem \<times> pool) option" where
  "use_block [] A s = Some (A, s)"
| "use_block (CallAlloc a n # cs) A s = do { s' \<leftarrow> Alloc a n s; use_block cs A s' }"
| "use_block (CallFree # cs) A s = do { s' \<leftarrow> Free s; use_block cs A s' }"
| "use_block (CallClear # cs) A s = do { s' \<leftarrow> Clear s; use_block cs A s' }"
| "use_block (CallAbandon # cs) A s =
     (case Abandon s of (p, s') \<Rightarrow> use_block cs (A \<union> set_option p) s')"

definition holds_block :: "nat set \<Rightarrow> nat set \<Rightarrow> WPoolMem \<times> pool \<Rightarrow> bool" where
  "holds_block others A s = (case s of (m, P) \<Rightarrow>
     pool_wf P \<and> dom (po_Blocks P) = others \<union> A \<union> set_option (wp_ptr m) \<and>
     set_option (wp_ptr m) \<inter> (others \<union> A) = {} \<and>
     (case wp_ptr m of None \<Rightarrow> True | Some p \<Rightarrow> map_option length (po_Blocks P p) = Some (wp_bytecount m)))"

lemma free_block:
  assumes "holds_block others A s"
  shows "\<exists>s'. Free s = Some s' \<and> holds_block others A s' \<and> wp_ptr (fst s') = None"
proof -
  obtain m P where s: "s = (m, P)" by (cases s)
  show ?thesis
  proof (cases "wp_ptr m")
    case None
    with assms show ?thesis by (simp add: s Free_def)
  next
    case (Some p)
    with assms show ?thesis
      by (auto simp: s Free_def holds_block_def ExFreePoolWithTag_def pool_wf_def)
  qed
qed

lemma initialize_block:
  assumes "holds_block others A s" "wp_ptr (fst s) = None"
  shows "holds_block others A (Initialize a n s)"
proof -
  obtain m P where s: "s = (m, P)" by (cases s)
  have new: "po_Next P \<notin> dom (po_Blocks P)" using assms(1) by (auto simp: s holds_block_def pool_wf_def)
  show ?thesis
    using assms new
    by (cases a) (auto simp: s holds_block_def Initialize_def ExAllocatePoolWithTag_def pool_wf_def)
qed

lemma clear_block:
  assumes "holds_block others A s"
  shows "\<exists>s'. Clear s = Some s' \<and> holds_block others A s'"
proof -
  obtain m P where s: "s = (m, P)" by (cases s)
  show ?thesis
  proof (cases "wp_ptr m")
    case None
    with assms show ?thesis by (simp add: s Clear_def)
  next
    case (Some p)
    with assms obtain c where "po_Blocks P p = Some c" "length c = wp_bytecount m"
      by (auto simp: s holds_block_def)
    with assms Some show ?thesis
      by (auto simp: s Clear_def holds_block_def RtlFillMemory_def pool_wf_def)
  qed
qed

lemma abandon_block:
  assumes "holds_block others A s" "Abandon s = (p, s')"
  shows "holds_block others (A \<union> set_option p) s'"
proof -
  obtain m P where s: "s = (m, P)" by (cases s)
  with assms(2) have "p = wp_ptr m" "s' = (m\<lparr>wp_ptr := None, wp_bytecount := 0\<rparr>, P)"
    by (simp_all add: Abandon_def)
  moreover have "dom (po_Blocks P) = others \<union> A \<union> set_option (wp_ptr m)" "pool_wf P"
    using assms(1) by (simp_all add: s holds_block_def)
  ultimately show ?thesis by (simp add: holds_block_def Un_assoc)
qed

lemma use_block_safe:
  "holds_block others A s \<Longrightarrow>
   \<exists>A' s'. use_block cs A s = Some (A', s') \<and> holds_block others A' s' \<and> A \<subseteq> A'"
proof (induction cs A s rule: use_block.induct)
  case (1 A s)
  then show ?case by (intro exI [of _ A] exI [of _ s]) simp
next
  case (2 a n cs A s)
  from free_block [OF 2(2)] obtain s1 where s1: "Free s = Some s1" "holds_block others A s1" "wp_ptr (fst s1) = None"
    by blast
  then have "Alloc a n s = Some (Initialize a n s1)" by (simp add: Alloc_def)
  with 2(1) [OF _ initialize_block [OF s1(2,3)]] show ?case by simp
next
  case (3 cs A s)
  from free_block [OF 3(2)] obtain s1 where "Free s = Some s1" "holds_block others A s1" by blast
  with 3(1) [of s1] show ?case by simp
next
  case (4 cs A s)
  from clear_block [OF 4(2)] obtain s1 where "Clear s = Some s1" "holds_block others A s1" by blast
  with 4(1) [of s1] show ?case by simp
next
  case (5 cs A s)
  obtain p s' where a: "Abandon s = (p, s')" by (cases "Abandon s")
  obtain A' s2 where "use_block cs (A \<union> set_option p) s' = Some (A', s2)" "holds_block others A' s2"
      "A \<union> set_option p \<subseteq> A'"
    using 5(1) [OF a [symmetric] abandon_block [OF 5(2) a]] by blast
  then show ?case by (simp add: a)
qed

text \<open>
  C40: However an owning pool pointer is used (allocating, freeing, clearing, giving its block
  away), nothing is freed twice or written out of bounds, and after its destructor exactly the
  blocks given away remain.
\<close>

theorem pool_mem_balanced:
  assumes "pool_wf P"
  shows "\<exists>A s P'. use_block cs {} (WPoolMem_Empty, P) = Some (A, s) \<and>
     WPoolMem_Destroy s = Some P' \<and> dom (po_Blocks P') = dom (po_Blocks P) \<union> A"
proof -
  have "holds_block (dom (po_Blocks P)) {} (WPoolMem_Empty, P)"
    using assms by (simp add: holds_block_def WPoolMem_Empty_def)
  from use_block_safe [OF this, of cs] obtain A s where
    u: "use_block cs {} (WPoolMem_Empty, P) = Some (A, s)" "holds_block (dom (po_Blocks P)) A s"
    by blast
  from free_block [OF u(2)] obtain s' where
    "Free s = Some s'" "holds_block (dom (po_Blocks P)) A s'" "wp_ptr (fst s') = None" by blast
  then have "WPoolMem_Destroy s = Some (snd s')" "dom (po_Blocks (snd s')) = dom (po_Blocks P) \<union> A"
    by (auto simp: WPoolMem_Destroy_def holds_block_def split: prod.splits)
  with u(1) show ?thesis by blast
qed

text \<open>
  The byte count is the size of the block as long as the block came from \<open>Alloc\<close>; after
  \<open>operator =\<close> it is the size of the block given up, and \<open>Clear\<close> may write past the end.
\<close>

lemma assigned_clear_overflows:
  assumes "po_Blocks P p = Some old" "po_Blocks P q = Some c" "p \<noteq> q" "length c < length old"
  shows "Assign (Some q) (\<lparr>wp_ptr = Some p, wp_bytecount = length old\<rparr>, P) \<bind> Clear = None"
  using assms by (auto simp: Assign_def Free_def ExFreePoolWithTag_def Clear_def RtlFillMemory_def)

subsection \<open>WHandle\<close>

text \<open>Handles are numbers; closing one that is not open is a fault.\<close>

definition ZwClose :: "nat \<Rightarrow> nat set \<Rightarrow> nat set option" where
  "ZwClose h H = (if h \<in> H then Some (H - {h}) else None)"

definition Close :: "nat option \<times> nat set \<Rightarrow> (nat option \<times> nat set) option" where
  "Close s = (case s of (h, H) \<Rightarrow>
     (case h of None \<Rightarrow> Some (h, H) | Some k \<Rightarrow> map_option (Pair None) (ZwClose k H)))"

definition WHandle_Destroy :: "nat option \<times> nat set \<Rightarrow> nat set option" where
  "WHandle_Destroy s = map_option snd (Close s)"

text \<open>Closing early and destroying later closes the handle once.\<close>

lemma handle_closed_once:
  assumes "h \<in> H"
  shows "Close (Some h, H) \<bind> WHandle_Destroy = Some (H - {h})"
    and "WHandle_Destroy (Some h, H) = Some (H - {h})"
  using assms by (simp_all add: Close_def WHandle_Destroy_def ZwClose_def)

end
