(* ===== verification/QC_Example.thy ===== *)
theory QC_Example
  imports QC_Entry QC_Concurrent QC_Mem
begin

section \<open>A concrete device\<close>

text \<open>
  A lower device that stores bytes as documented, a small volume filtered by the driver, and
  requests to it. They show that the hypotheses of the properties can hold together, and the
  witnesses of the properties are stated on them.
\<close>

subsection \<open>The lower device\<close>

text \<open>Its state is its contents; it answers every read at once.\<close>

definition disk_answer :: "lower_irp \<Rightarrow> contents \<Rightarrow> answer" where
  "disk_answer lo d =
     \<lparr>an_Status = STATUS_SUCCESS, an_Information = ucast (lo_Length lo),
      an_Data = map (\<lambda>j. d (sint (lo_ByteOffset lo) + int j)) [0..<unat (lo_Length lo)]\<rparr>"

definition disk :: "contents lower_driver" where
  "disk =
     \<lparr>lw_flags = DO_DIRECT_IO,
      lw_pass = (\<lambda>i d. (STATUS_SUCCESS, d)),
      lw_forward = (\<lambda>i d. (STATUS_SUCCESS, i\<lparr>ir_Status := STATUS_SUCCESS\<rparr>, d)),
      lw_built = (\<lambda>r d. (STATUS_SUCCESS,
        if bi_MajorFunction r = IRP_MJ_WRITE
        then (case bi_Buffer r of None \<Rightarrow> d | Some b \<Rightarrow> write_bytes (bi_StartingOffset r) b d) else d)),
      lw_read = (\<lambda>lo d. (Some (disk_answer lo d), d)),
      lw_completes = (\<lambda>d. True)\<rparr>"

text \<open>A device that fails every write built for a queue item and stores nothing.\<close>

definition broken_disk :: "contents lower_driver" where
  "broken_disk = disk\<lparr>lw_built := (\<lambda>r d. (0xC0000185, d))\<rparr>"

text \<open>A device that hangs: it never completes what the worker sends.\<close>

definition hung_disk :: "contents lower_driver" where
  "hung_disk = disk\<lparr>lw_completes := (\<lambda>_. False)\<rparr>"

definition disk_stack :: "contents target_driver" where
  "disk_stack =
     \<lparr>tg_lower = disk, tg_Characteristics = 0,
      tg_own = (\<lambda>r d. (\<lparr>oa_Status = STATUS_SUCCESS, oa_Information = 8, oa_Output = 4096\<rparr>, d))\<rparr>"

lemma disk_flags [simp]: "lw_flags disk = DO_DIRECT_IO"
  by (simp add: disk_def)

lemma disk_completes [simp]: "lw_completes disk d" "lw_completes broken_disk d" "\<not> lw_completes hung_disk d"
  by (simp_all add: disk_def broken_disk_def hung_disk_def)

lemma disk_same_irp [simp]: "same_irp disk"
  by (simp add: same_irp_def disk_def)

lemma disk_answers_now [simp]: "fst (lw_read disk lo d) = Some (disk_answer lo d)"
  by (simp add: disk_def)

lemma disk_honest: "honest d lo (disk_answer lo d)"
  by (simp add: honest_def disk_answer_def)

lemma disk_reads_back [simp]: "reads_back disk id" "reads_back disk (\<lambda>d. d)"
  by (simp_all add: reads_back_def disk_def disk_honest)

lemma disk_answers_fit [simp]: "answers_fit disk"
  by (simp add: answers_fit_def disk_def answer_fits_def disk_answer_def unat_ucast_length)

lemma disk_all_succeed [simp]: "all_succeed disk id" "all_succeed disk (\<lambda>d. d)"
  by (auto simp: all_succeed_def writes_through_def disk_def split: option.splits)

lemma disk_quiet [simp]: "quiet_stack disk_stack id" "quiet_stack disk_stack (\<lambda>d. d)"
  by (simp_all add: quiet_stack_def disk_stack_def) (simp_all add: disk_def)

lemma linear_runs [simp]: "clear_runs linear_bitmap_api"
  by (rule linear.clear_runs_axioms)

subsection \<open>Environments\<close>

text \<open>Every resource is there.\<close>

definition good_build :: build_env where
  "good_build = \<lparr>irp_alloc = True, partial_mdl_alloc = True, high_priority_mapping = True,
                 copy_buffer_alloc = True\<rparr>"

definition good_env :: env where
  "good_env =
     \<lparr>HighNonPagedPoolCondition = None, HighMemoryCondition = Some True, item_alloc = True,
      buffer_alloc = True, mdl_mapped = True, acquire_status = STATUS_SUCCESS, bitmap_alloc = True,
      scatter_alloc = True, build_alloc = (\<lambda>_. good_build), device_flags = DO_DIRECT_IO\<rparr>"

definition good_pnp :: pnp_env where
  "good_pnp =
     \<lparr>pe_env = good_env, pe_irp_alloc = True, pe_fuel = 100, pe_builds = (\<lambda>_. True),
      pe_link_status = STATUS_SUCCESS, pe_late = []\<rparr>"

lemma good_env_sel [simp]:
  "item_alloc good_env" "buffer_alloc good_env" "mdl_mapped good_env" "acquire_status good_env = STATUS_SUCCESS"
  "bitmap_alloc good_env" "scatter_alloc good_env" "device_flags good_env = DO_DIRECT_IO"
  "pe_env good_pnp = good_env" "pe_irp_alloc good_pnp" "pe_fuel good_pnp = 100" "pe_builds good_pnp = (\<lambda>_. True)"
  "pe_late good_pnp = []"
  by (simp_all add: good_env_def good_pnp_def)

lemma good_resources [simp]: "read_resources good_env" "lazy_resources good_env i"
  by (simp_all add: read_resources_def builds_ok_def lazy_resources_def)
    (simp_all add: good_env_def good_build_def)

lemma good_direct_io [simp]: "direct_io disk good_env"
  by (simp add: direct_io_def has_flag_def)

subsection \<open>Requests\<close>

definition request :: "nat \<Rightarrow> UCHAR \<Rightarrow> LONGLONG \<Rightarrow> ULONG \<Rightarrow> byte \<Rightarrow> irp" where
  "request n mf off len b =
     \<lparr>ir_id = n, ir_MajorFunction = mf, ir_MinorFunction = 0, ir_ByteOffset = off, ir_Length = len,
      ir_IoControlCode = 0, ir_OutputBufferLength = 0, ir_Buffer = replicate (unat len) b,
      ir_SystemBuffer = [], ir_Output = None, ir_Status = 0, ir_Information = 0\<rparr>"

text \<open>A write of the second sector, a read of the first two, a flush.\<close>

definition sector_write :: irp where
  "sector_write = request 1 IRP_MJ_WRITE 512 512 7"

definition two_sector_read :: irp where
  "two_sector_read = request 2 IRP_MJ_READ 0 1024 0"

definition flush_request :: irp where
  "flush_request = request 3 IRP_MJ_FLUSH_BUFFERS 0 0 0"

lemma request_sel [simp]:
  "ir_id (request n mf off len b) = n" "ir_MajorFunction (request n mf off len b) = mf"
  "ir_ByteOffset (request n mf off len b) = off" "ir_Length (request n mf off len b) = len"
  "ir_Buffer (request n mf off len b) = replicate (unat len) b"
  "ir_IoControlCode (request n mf off len b) = 0" "ir_MinorFunction (request n mf off len b) = 0"
  by (simp_all add: request_def)

lemma request_wf [simp]: "wf_transfer (request n mf off len b)"
  by (simp add: wf_transfer_def)

lemma request_buffers [simp]: "wf_buffers good_env (request n mf off len b)"
  by (simp add: wf_buffers_def has_flag_def)

subsection \<open>The filtered volume\<close>

definition volume_config :: driver_config where
  "volume_config = \<lparr>QCacheMaxQueueItems = 10000, QCacheMaxQueueSize = 524288000,
                    QCacheLowMemCondition = Some False, QCacheLinksCreated = False\<rparr>"

text \<open>
  A cached volume of 4096 bytes with an empty queue and a running worker, and the same after the
  sector write.
\<close>

definition volume :: "contents world" where
  "volume =
     (let w = upd_stats (\<lambda>s. s\<lparr>Size := 4096, IsCached := True\<rparr>) (new_world volume_config (\<lambda>p. of_int p))
      in w\<lparr>ext := (ext w)\<lparr>WorkerThread := True\<rparr>\<rparr>)"

definition written_volume :: "contents world" where
  "written_volume = accepted sector_write volume"

lemma volume_good: "driver_good volume" "device_ok volume" "queue_inv volume"
proof -
  have "driver_good (new_world volume_config (\<lambda>p. of_int p :: byte))"
    by (intro new_world_ok) (simp add: volume_config_def)
  then show "driver_good volume"
    by (simp add: driver_good_def device_ok_def queue_inv_def volume_def scatters_ok_def upd_stats_def)
  then show "device_ok volume" "queue_inv volume" by (simp_all add: driver_good_def device_ok_def)
qed

lemma volume_sel [simp]:
  "stats volume = zero_statistics\<lparr>Version := 184, MaxQueueItems := 10000, MaxQueueSize := 524288000,
     Size := 4096, IsCached := True\<rparr>"
  "queue volume = []" "LowMemCondition volume = Some False" "Scatters volume = []"
  "lower volume = (\<lambda>p. of_int p)" "RemoveLock (ext volume) = 0" "Completed volume = []" "SentDown volume = []"
  "WorkerThread (ext volume)" "owned volume = {#}"
  "\<not> ShutdownThread (ext volume)" "InitializationEvent (ext volume)" "PagingPathCountEvent (ext volume)"
  by (simp_all add: volume_def upd_stats_def new_world_def new_extension_def volume_config_def
      sizeof_DEVICE_STATISTICS_def owned_def)

lemma sector_write_valid: "valid_write sector_write" "ir_MajorFunction sector_write = IRP_MJ_WRITE"
  "wf_transfer sector_write"
  by (simp_all add: sector_write_def valid_write_def wf_extent_def)

lemma written_queue: "queue written_volume = [lazy_item sector_write]"
  by (simp add: written_volume_def accepted_def Let_def insert_item_eq qc_simps)

lemma written_ok: "device_ok written_volume"
proof -
  have "queue_inv written_volume"
    unfolding written_volume_def using volume_good(3) sector_write_valid(1) by (rule queue_inv_accepted)
  moreover have "Scatters written_volume = []"
    by (simp add: written_volume_def accepted_def Let_def insert_item_eq qc_simps)
  ultimately show ?thesis by (simp add: device_ok_def scatters_ok_def)
qed

lemma written_size [simp]: "Size (stats written_volume) = 4096"
  by (simp add: written_volume_def accepted_def Let_def insert_item_eq qc_simps)

lemma sector_and [simp]: "(512 :: ULONG) AND 0x1FF = 0" "(1024 :: ULONG) AND 0x1FF = 0"
  "(512 :: LONGLONG) AND 0x1FF = 0" "(1024 :: LONGLONG) AND 0x1FF = 0"
  by (simp_all add: and_sector_mask)

lemma written_sectors: "list_all sector_item (queue written_volume)"
  by (simp add: written_queue sector_item_def lazy_item_def sector_write_def whole_sectors_def)

lemma two_sector_valid: "valid_read written_volume two_sector_read" "valid_read volume two_sector_read"
  using written_sectors
  by (simp_all add: valid_read_def misaligned_def beyond_media_def two_sector_read_def word_sle_eq
      word_sless_alt)

lemma gap_of_two_sectors: "gap_sectors (queue written_volume) two_sector_read = [0]"
proof -
  have "[0..<unat (1024 :: ULONG) div 512] = [0, 1]" by (simp add: upt_rec)
  then show ?thesis
    by (simp add: gap_sectors_def written_queue two_sector_read_def covered_def covers_def is_write_def
        lazy_item_def sector_write_def new_item_def)
qed

lemma volume_admits [simp]: "admits good_env (stats volume)" "admits good_env (stats written_volume)"
  by (simp_all add: admits_def condition_good_def good_env_def zero_statistics_def written_volume_def
      accepted_def Let_def insert_item_eq qc_simps sizeof_item_def lazy_item_def sector_write_def
      word_sless_alt)

lemma written_sel [simp]:
  "LowMemCondition written_volume = Some False" "IsCached (stats written_volume)"
  "Scatters written_volume = []" "WorkerThread (ext written_volume)" "RemoveLock (ext written_volume) = 1"
  "InitializationEvent (ext written_volume)" "PagingPathCountEvent (ext written_volume)"
  by (simp_all add: written_volume_def accepted_def Let_def insert_item_eq qc_simps)

lemma written_lazy [simp]: "lazy_only written_volume" "it_Irp (lazy_item sector_write) = None"
  "can_drain good_pnp written_volume" "can_drain good_pnp volume"
  by (simp_all add: lazy_only_def written_queue lazy_item_def new_item_def can_drain_def)

lemma volume_fresh [simp]: "fresh volume"
  by (simp add: fresh_def zero_statistics_def)

definition filtered :: "contents world \<Rightarrow> contents filter_device" where
  "filtered w = \<lparr>fd_world = w, fd_Flags = DO_DIRECT_IO OR DO_POWER_PAGABLE, fd_Characteristics = 0,
                 fd_Attached = True, fd_Deleted = False\<rparr>"

lemma filtered_world [simp]: "fd_world (filtered w) = w"
  by (simp add: filtered_def)

definition pnp :: "UCHAR \<Rightarrow> pnp_request" where
  "pnp mn = \<lparr>pn_irp = (request 4 IRP_MJ_PNP 0 0 0)\<lparr>ir_MinorFunction := mn\<rparr>,
             pn_Type = DeviceUsageTypePaging, pn_InPath = True\<rparr>"

subsection \<open>A split read that waits\<close>

text \<open>One byte at offset 5 is still to come.\<close>

definition late_request :: lower_irp where
  "late_request = \<lparr>lo_MajorFunction = IRP_MJ_READ, lo_ByteOffset = 5, lo_Length = 1,
                   lo_Target = OriginalMdl 0, lo_Flags = 0\<rparr>"

definition waiting_scatter :: SCATTERED_IRP where
  "waiting_scatter =
     \<lparr>sc_OriginalIrp = request 9 IRP_MJ_READ 5 1 0, sc_OriginalFlags = DO_DIRECT_IO, sc_ScatterCount = 1,
      sc_LastFailedStatus = 0, sc_BytesCompleted = 0, sc_SystemBuffer = NoBuffer,
      sc_AllocatedBuffer = None, sc_CopyBack = False, sc_Outstanding = [late_request]\<rparr>"

definition waiting_volume :: "contents world" where
  "waiting_volume = volume\<lparr>Scatters := [waiting_scatter], ext := (ext volume)\<lparr>RemoveLock := 1\<rparr>\<rparr>"

lemma waiting_wf: "scatter_wf 0 waiting_scatter"
  by (simp add: scatter_wf_def waiting_scatter_def late_request_def fits_def scatter_buffers_def claimed_def
      has_flag_def)

lemma late_answer: "answer_fits late_request (disk_answer late_request d)"
  "honest d late_request (disk_answer late_request d)"
  by (simp add: answer_fits_def disk_answer_def late_request_def) (rule disk_honest)

subsection \<open>A registry with two devices to attach to\<close>

definition good_stack :: "contents device_stack" where
  "good_stack =
     \<lparr>ds_lookup = STATUS_SUCCESS, ds_target = disk_stack, ds_pnp = good_pnp,
      ds_attach = \<lparr>at_create_status = STATUS_SUCCESS, at_attached = True, at_thread_status = STATUS_SUCCESS\<rparr>,
      ds_characteristics = 0, ds_lower = (\<lambda>_. 0)\<rparr>"

definition device_names :: "WCHAR list list" where
  "device_names = [[0x43, 0x3A], [0x44, 0x3A]]"

text \<open>The second name of the list cannot be looked up when \<open>ok\<close> is false.\<close>

definition registry :: "bool \<Rightarrow> contents entry_env" where
  "registry ok =
     \<lparr>de_descriptor_alloc = True, de_create_descriptor = STATUS_SUCCESS, de_set_dacl = STATUS_SUCCESS,
      de_create_event = (\<lambda>_ _. STATUS_SUCCESS), de_reference_event = (\<lambda>_. (STATUS_SUCCESS, False)),
      de_path_alloc = True, de_open_key = (\<lambda>_. STATUS_SUCCESS), de_limits_alloc = True,
      de_value = (\<lambda>v. case v of
                    AttachDevicesValue \<Rightarrow> (STATUS_SUCCESS, words_bytes (multi_sz device_names))
                  | _ \<Rightarrow> (0xC0000034, [])),
      de_attach_alloc = True, de_pool = replicate 65538 0,
      de_stack = (\<lambda>n. if n = [0x44, 0x3A] \<and> \<not> ok then good_stack\<lparr>ds_lookup := 0xC0000034\<rparr>
                      else good_stack)\<rparr>"

lemma nt_success_more [simp]: "\<not> NT_SUCCESS 0xC0000034" "\<not> NT_SUCCESS 0xC0000022"
  by (simp_all add: NT_SUCCESS_def word_sle_eq)

lemma registry_config: "entry_config (registry ok) = volume_config"
  by (simp add: entry_config_def registry_def ZwQueryValueKey_def read_limit_def volume_config_def
      open_event_def QCACHE_MAX_QUEUE_ITEMS_DEFAULT_VALUE_def QCACHE_MAX_QUEUE_SIZE_DEFAULT_VALUE_def)

lemma registry_ok: "entry_resources (registry ok) []" "attach_value (registry ok) device_names"
  by (simp_all add: entry_resources_def registry_def attach_value_def)
    (simp add: wf_names_def device_names_def multi_sz_def)

lemma registry_stack: "de_stack (registry True) n = good_stack" "de_stack (registry False) [0x43, 0x3A] = good_stack"
  "de_stack (registry False) [0x44, 0x3A] = good_stack\<lparr>ds_lookup := 0xC0000034\<rparr>"
  by (simp_all add: registry_def)

text \<open>What attaching to a good stack gives.\<close>

definition attached_device :: "contents filter_device" where
  "attached_device =
     (case QCacheAttachLegacyDevice 0 disk_stack good_pnp (ds_attach good_stack) volume_config 0 (\<lambda>_. 0) of
        Some (_, Some E) \<Rightarrow> E | _ \<Rightarrow> undefined)"

lemma good_attach:
  "QCacheAttachLegacyDevice 0 disk_stack good_pnp (ds_attach good_stack) volume_config 0 (\<lambda>_. 0)
     = Some (STATUS_SUCCESS, Some attached_device)"
  by (simp add: attached_device_def QCacheAttachLegacyDevice_def QCacheAttachDevice_def good_stack_def Let_def
      has_flag_def QCacheInitializeDevice_def new_world_def new_extension_def set_cached_def upd_stats_def
      split: option.split prod.split)
    (simp add: disk_stack_def)

lemma registry_attaches:
  "attaches (registry True) n STATUS_SUCCESS (Some attached_device)"
  "attaches (registry False) [0x43, 0x3A] STATUS_SUCCESS (Some attached_device)"
  "attaches (registry False) [0x44, 0x3A] 0xC0000034 None"
  using good_attach
  by (simp_all add: attaches_def registry_config registry_stack Let_def)
    (simp_all add: good_stack_def QCacheAttachLegacyDevice_def)

end
