(* ===== verification/QC_Sync.thy ===== *)
theory QC_Sync
  imports QC_Coherence
begin

section \<open>Reads of a lower device that answers at once\<close>

text \<open>
  When the lower device completes every read before \<open>IoCallDriver\<close> returns, a read that mixes
  cached and uncached sectors is completed before \<open>QCacheRead\<close> returns. The byte count it reports
  is the number of bytes that came from the device, not the number of bytes in the buffer.
\<close>

definition answers_now :: "'d lower_driver \<Rightarrow> bool" where
  "answers_now L \<longleftrightarrow> (\<forall>lo d. fst (lw_read L lo d) \<noteq> None)"

lemma deliver_outstanding:
  "deliver t data sc = Some sc' \<Longrightarrow> sc_Outstanding sc' = sc_Outstanding sc"
  by (auto simp: deliver_def Let_def bind_eq_Some_conv split: target.splits system_buffer.splits option.splits)

lemma lower_done_outstanding:
  "lower_done lo a sc = Some sc' \<Longrightarrow> sc_Outstanding sc' = remove1 lo (sc_Outstanding sc)"
  by (auto simp: lower_done_def bind_eq_Some_conv drop_count_def IrpCompletionRoutine_def Let_def
      dest!: deliver_outstanding split: if_splits)

lemma build_outstanding:
  "BuildIrp b mf flags off bytes loff sc = Some (r, sc') \<Longrightarrow>
   sc_Outstanding sc' = sc_Outstanding sc @ (case r of None \<Rightarrow> [] | Some lo \<Rightarrow> [lo])"
  by (auto simp: BuildIrp_def build_failed_def build_done_def map_system_buffer_def Let_def bind_eq_Some_conv
      split: if_splits)

text \<open>Answered requests leave nothing outstanding, and the loop completes and passes down nothing.\<close>

lemma gaps_now:
  assumes "answers_now L"
  shows "read_gaps n L e api bm off ci cb s sc w = Some (s', sc', w') \<Longrightarrow> sc_Outstanding sc = [] \<Longrightarrow>
    sc_Outstanding sc' = [] \<and> SentDown w' = SentDown w \<and> Scatters w' = Scatters w"
proof (induction n arbitrary: ci cb s sc w)
  case 0
  then show ?case by simp
next
  case (Suc n)
  let ?w1 = "upd_stats (\<lambda>st. st\<lparr>ReadBytesFromOriginal :=
                  ReadBytesFromOriginal st + push_bit 9 (of_nat cb)\<rparr>) w"
  obtain cb' ci' where nx: "RtlFindNextForwardRunClear api bm (ci + cb) = (cb', ci')" by fastforce
  obtain r sc1 where B: "BuildIrp (build_alloc e s) IRP_MJ_READ (lw_flags L) (push_bit 9 (of_nat ci))
      (push_bit 9 (of_nat cb)) (off + push_bit 9 (of_nat ci)) sc = Some (r, sc1)"
    using Suc.prems by (auto simp: bind_eq_Some_conv)
  show ?case
  proof (cases r)
    case None
    with Suc.prems B build_outstanding [OF B] show ?thesis by simp
  next
    case (Some lo)
    have "fst (lw_read L lo (lower ?w1)) \<noteq> None" using assms unfolding answers_now_def by blast
    then obtain a d where ad: "lw_read L lo (lower ?w1) = (Some a, d)"
      by (cases "lw_read L lo (lower ?w1)") auto
    from Suc.prems B Some ad nx obtain sc2 where ld: "lower_done lo a sc1 = Some sc2" and
      rest: "(if 0 < cb' then read_gaps n L e api bm off ci' cb' (Suc s) sc2 (?w1\<lparr>lower := d\<rparr>)
        else Some (Suc s, sc2, ?w1\<lparr>lower := d\<rparr>)) = Some (s', sc', w')"
      by (auto simp: Let_def bind_eq_Some_conv split: if_splits)
    have o: "sc_Outstanding sc2 = []"
      using lower_done_outstanding [OF ld] build_outstanding [OF B] Some Suc.prems(2) by simp
    have fr: "SentDown (?w1\<lparr>lower := d\<rparr>) = SentDown w" "Scatters (?w1\<lparr>lower := d\<rparr>) = Scatters w"
      by (simp_all add: upd_stats_def)
    show ?thesis
    proof (cases "0 < cb'")
      case True
      with rest have "read_gaps n L e api bm off ci' cb' (Suc s) sc2 (?w1\<lparr>lower := d\<rparr>) = Some (s', sc', w')"
        by simp
      from Suc.IH [OF this o] show ?thesis using fr by simp
    next
      case False
      with rest o fr show ?thesis by auto
    qed
  qed
qed

definition settled :: "'d world \<Rightarrow> 'd world \<Rightarrow> bool" where
  "settled w w' \<longleftrightarrow> SentDown w' = SentDown w \<and>
     (Scatters w' = Scatters w \<or> (\<exists>sc. Scatters w' = Scatters w @ [sc] \<and> sc_Outstanding sc = []))"

lemma mixed_now:
  assumes "answers_now L" "read_mixed L e api bm cb ci i w = Some (st, w')"
  shows "settled w w'"
proof -
  let ?c = "SCATTERED_IRP_Create e (device_flags e) i
             (if has_flag (device_flags e) DO_BUFFERED_IO then AssociatedBuffer else NoBuffer) w"
  obtain s sco w1 where c: "?c = (s, sco, w1)" by (metis prod_cases3)
  have w1: "SentDown w1 = SentDown w" "Scatters w1 = Scatters w"
    using c by (auto simp: SCATTERED_IRP_Create_def Let_def qc_simps split: if_splits)
  show ?thesis
  proof (cases sco)
    case None
    with assms(2) c w1 show ?thesis
      by (auto simp: read_mixed_def settled_def complete_with_def IoCompleteRequest_def)
  next
    case (Some sc)
    have o: "sc_Outstanding sc = []"
      using c Some by (auto simp: SCATTERED_IRP_Create_def Let_def split: if_splits prod.splits)
    from assms(2) c Some obtain n sc2 w2 where
      g: "read_gaps (Suc (length bm)) L e api bm (ir_ByteOffset i) ci cb 0 sc w1 = Some (n, sc2, w2)" and
      s: "settle (drop_count sc2) (if 1 < n then upd_stats (\<lambda>s. s\<lparr>SplitReads := SplitReads s + of_nat n\<rparr>) w2 else w2)
          = Some w'"
      by (auto simp: read_mixed_def bind_eq_Some_conv Let_def simp del: read_gaps.simps)
    from gaps_now [OF assms(1) g o] s w1 show ?thesis
      by (auto simp: settle_def scatter_destroy_def settled_def qc_simps drop_count_def bind_eq_Some_conv
          split: if_splits)
  qed
qed

text \<open>A read with a cached sector is neither passed down nor left waiting.\<close>

lemma cached_now:
  assumes "answers_now L" "read_cached L e api i w = Some (st, w')"
    and "wf_read i" "list_all wf_item (queue w)" "list_ex (overlaps i) (queue w)"
  shows "settled w w'"
proof -
  have "wf_walk i (walk_start i w)" using assms(3) by (intro walk_start_wf) (simp add: wf_read_def)
  from walk_overlay [OF assms(3,4) this] obtain b where
    b: "walk_queue i (queue w) (walk_start i w) = Some b" "rw_Any b"
    using assms(5) by auto
  obtain cb ci where f: "RtlFindFirstRunClear api (rw_Bitmap b) = (cb, ci)" by fastforce
  let ?w1 = "upd_stats (\<lambda>_. rw_Stats b) w" and ?i = "i\<lparr>ir_Buffer := rw_Buffer b\<rparr>"
  have r: "read_cached L e api i w =
     (if cb = 0 then Some (complete_with STATUS_SUCCESS (?i\<lparr>ir_Information := ucast (ir_Length i)\<rparr>) ?w1)
      else read_mixed L e api (rw_Bitmap b) cb ci ?i ?w1)"
    using b f by (simp add: read_cached_def Let_def flip: walk_start_def)
  show ?thesis
  proof (cases "cb = 0")
    case True
    with assms(2) r show ?thesis
      by (auto simp: settled_def complete_with_def IoCompleteRequest_def upd_stats_def)
  next
    case False
    with assms(2) r have "read_mixed L e api (rw_Bitmap b) cb ci ?i ?w1 = Some (st, w')" by simp
    from mixed_now [OF assms(1) this] show ?thesis by (simp add: settled_def upd_stats_def)
  qed
qed

lemma few_gaps_overlap:
  assumes "wf_read i" "list_all wf_item q" "length (gap_sectors q i) < unat (ir_Length i) div 512"
  shows "list_ex (overlaps i) q"
proof (rule ccontr)
  assume n: "\<not> list_ex (overlaps i) q"
  have "\<not> covered q (sint (ir_ByteOffset i) + 512 * int j)" if "j < unat (ir_Length i) div 512" for j
  proof -
    have "512 * j < unat (ir_Length i)" using that by linarith
    from no_overlap_uncovered [OF assms(1,2) n this] show ?thesis by simp
  qed
  then have "gap_sectors q i = [0..<unat (ir_Length i) div 512]"
    by (auto simp: gap_sectors_def intro!: filter_True)
  with assms(3) show False by simp
qed

lemma butlast_shorter: "butlast xs = xs \<longleftrightarrow> xs = []"
  by (cases xs rule: rev_cases) auto

text \<open>
  C34: A read of cached and uncached sectors on a device that answers at once is completed
  with all the bytes of the logical contents, but the byte count it reports is that of the
  uncached sectors only, which is less than the length of the request.
\<close>

theorem mixed_read_information:
  assumes "clear_runs api" "reads_back L C" "answers_now L" "direct_io L e" "read_resources e"
    and "device_ok w" "wf_buffers e i" "valid_read w i"
    and "gap_sectors (queue w) i \<noteq> []" "length (gap_sectors (queue w) i) < unat (ir_Length i) div 512"
  shows "\<exists>st w'. QCacheRead L e api i w = Some (st, w') \<and>
     read_completed i (view_bytes (view C w) i) w w' \<and>
     unat (ir_Information (last (Completed w'))) = 512 * length (gap_sectors (queue w) i) \<and>
     unat (ir_Information (last (Completed w'))) < unat (ir_Length i)"
proof -
  let ?n = "length (gap_sectors (queue w) i)" and ?i = "i\<lparr>ir_Information := 0\<rparr>"
  let ?w = "note_read_size ?i (count_read ?i w)"
  have v: "Size (stats w) \<noteq> 0" "ir_Length i \<noteq> 0" "\<not> misaligned i" "\<not> beyond_media (stats w) i"
    using assms(8) by (simp_all add: valid_read_def)
  have wf: "wf_read ?i" "list_all wf_item (queue w)"
    using assms(6,7) within_media(1) [OF v(4)]
    by (simp_all add: wf_read_def wf_buffers_def wf_transfer_def device_ok_def queue_inv_def)
  have ov: "list_ex (overlaps ?i) (queue w)"
    by (rule few_gaps_overlap [OF wf]) (use assms(10) in \<open>simp add: gap_sectors_def\<close>)
  obtain st w' where r: "QCacheRead L e api i w = Some (st, w')" and
    c: "read_completed i (view_bytes (view C w) i) w w' \<and>
        ir_Information (last (Completed w')) = (if 512 * ?n = 0 then ucast (ir_Length i) else of_nat (512 * ?n)) \<or>
      read_passed ?i w w' \<and> view_bytes (C (lower w)) i = view_bytes (view C w) i \<or>
      read_waiting (C (lower w)) i (view_bytes (view C w) i) (512 * ?n) w w'"
    using QCacheRead_coherent [OF assms(1,2,4-8)] by auto
  have "QCacheRead L e api i w = read_cached L e api ?i ?w"
    using v assms(5)
    by (simp add: QCacheRead_def Let_def misaligned_def beyond_media_def read_resources_def count_read_def
        note_read_size_def upd_stats_def)
  with r have "read_cached L e api ?i ?w = Some (st, w')" by simp
  from cached_now [OF assms(3) this wf(1)] wf(2) ov have s: "settled w w'"
    by (simp add: settled_def)
  have "\<not> read_passed ?i w w'" using s by (auto simp: read_passed_def settled_def)
  moreover have "\<not> read_waiting (C (lower w)) i (view_bytes (view C w) i) (512 * ?n) w w'"
    using s by (auto simp: read_waiting_def settled_def Let_def butlast_shorter)
  ultimately have fin: "read_completed i (view_bytes (view C w) i) w w'"
    "ir_Information (last (Completed w')) = of_nat (512 * ?n)"
    using c assms(9) by auto
  have lt: "512 * ?n < unat (ir_Length i)" using assms(10) by linarith
  then have "512 * ?n < 2 ^ 64" using unat_range32 [of "ir_Length i"] by simp
  then have "unat (of_nat (512 * ?n) :: ULONG_PTR) = 512 * ?n" by (intro unat_of_nat_eq) simp
  with r fin lt show ?thesis by simp
qed

subsection \<open>Queued writes of less than a sector\<close>

text \<open>
  The walk marks as many sectors as the common part has whole sectors. A part of less than 512
  bytes marks none, so its bytes, copied by the walk, are read again from the lower device.
\<close>

definition short_overlaps :: "irp \<Rightarrow> WRITE_QUEUE_ITEM list \<Rightarrow> bool" where
  "short_overlaps i q \<longleftrightarrow> list_all (\<lambda>it. overlaps i it \<longrightarrow> part_length i it < 512) q"

lemma walk_short:
  assumes "wf_read i" "list_all wf_item q" "short_overlaps i q" "wf_walk i a" "walk_queue i q a = Some b"
    and "j < unat (ir_Length i) div 512"
  shows "rw_Bitmap b ! j = rw_Bitmap a ! j"
  using assms(2-5)
proof (induction q arbitrary: a)
  case Nil
  then show ?case by simp
next
  case (Cons it q)
  have q: "list_all wf_item q" "short_overlaps i q" using Cons.prems(1,2) by (simp_all add: short_overlaps_def)
  show ?case
  proof (cases "overlaps i it")
    case True
    have wf: "wf_item it" using Cons.prems(1) by simp
    obtain a1 where a1: "copy_item i it a = Some a1" "wf_walk i a1"
      and bits: "\<And>j. j < unat (ir_Length i) div 512 \<Longrightarrow>
           rw_Bitmap a1 ! j = (nat (part_start i it) div 512 \<le> j \<and>
             j < nat (part_start i it) div 512 + nat (part_length i it) div 512 \<or> rw_Bitmap a ! j)"
      by (rule copy_item_effect [OF assms(1) wf True Cons.prems(3)]) blast
    have "part_length i it < 512" using True Cons.prems(2) by (simp add: short_overlaps_def)
    then have "nat (part_length i it) div 512 = 0" by (intro div_less) linarith
    then have "rw_Bitmap a1 ! j = rw_Bitmap a ! j" using bits [OF assms(6)] by auto
    moreover have "walk_queue i q a1 = Some b" using Cons.prems(4) True a1(1) by simp
    ultimately show ?thesis using Cons.IH [OF q a1(2)] by simp
  next
    case False
    with Cons.IH [OF q Cons.prems(3)] Cons.prems(4) show ?thesis by simp
  qed
qed

lemma read_cached_mixed:
  assumes "walk_queue i (queue w) (walk_start i w) = Some b" "rw_Any b"
    and "RtlFindFirstRunClear api (rw_Bitmap b) = (cb, ci)" "0 < cb"
  shows "read_cached L e api i w =
    read_mixed L e api (rw_Bitmap b) cb ci (i\<lparr>ir_Buffer := rw_Buffer b\<rparr>) (upd_stats (\<lambda>_. rw_Stats b) w)"
  using assms by (simp add: read_cached_def Let_def flip: walk_start_def)

lemma clear_below_all:
  assumes "\<And>j. j < length bm \<Longrightarrow> \<not> bm ! j"
  shows "clear_below bm (length bm) = length bm"
  using clear_below_run [of 0 "length bm" bm] assms by (simp add: clear_below_def)

text \<open>
  C16: The read path works on sectors while the write path accepts any length: a queued write
  whose common part with a read is shorter than a sector is copied into the buffer by the walk
  but marks no sector, and the bytes read from the lower device replace it. A read all of
  whose overlapping queued writes are so short returns the old contents of the lower device,
  as if these acknowledged writes did not exist; the witness is a write of 100 bytes that the
  read of its sector does not see. Same resources and direct I/O as in C1.
\<close>

theorem short_writes_not_seen:
  assumes "clear_runs api" "reads_back L C" "direct_io L e" "read_resources e"
    and "device_ok w" "wf_buffers e i"
    and "Size (stats w) \<noteq> 0" "ir_Length i \<noteq> 0" "\<not> misaligned i" "\<not> beyond_media (stats w) i"
    and "list_ex (overlaps i) (queue w)" "short_overlaps i (queue w)"
  shows "\<exists>st w'. QCacheRead L e api i w = Some (st, w') \<and>
     (read_completed i (view_bytes (C (lower w)) i) w w' \<or>
      read_waiting (C (lower w)) i (view_bytes (C (lower w)) i) (unat (ir_Length i)) w w')"
proof -
  let ?i = "i\<lparr>ir_Information := 0\<rparr>" and ?want = "view_bytes (C (lower w)) i"
  let ?w = "note_read_size ?i (count_read ?i w)"
  have "beyond_media (stats ?w) ?i = beyond_media (stats w) i" "misaligned ?i = misaligned i"
    by (simp_all add: beyond_media_def misaligned_def)
  then have R: "QCacheRead L e api i w = read_cached L e api ?i ?w"
    using assms(4,7-10) unfolding QCacheRead_def Let_def by (simp add: read_resources_def)
  have wf: "wf_read ?i" "list_all wf_item (queue w)" "wf_buffers e ?i"
    using assms(5,6) within_media(1) [OF assms(10)]
    by (simp_all add: wf_read_def wf_buffers_def wf_transfer_def device_ok_def queue_inv_def)
  have ww: "wf_walk ?i (walk_start ?i ?w)" using wf(1) by (intro walk_start_wf) (simp add: wf_read_def)
  have ov: "overlaps ?i = overlaps i" "short_overlaps ?i (queue w) = short_overlaps i (queue w)"
    by (simp_all add: fun_eq_iff overlaps_def short_overlaps_def part_length_def)
  from walk_overlay [OF wf(1,2) ww] obtain b where
    b: "walk_queue ?i (queue w) (walk_start ?i ?w) = Some b" "wf_walk ?i b" "rw_Any b"
    using assms(11) ov(1) by auto
  let ?bm = "rw_Bitmap b"
  have n: "unat (ir_Length i) = 512 * length ?bm"
    using sector_length [OF not_misaligned(2) [OF assms(9)]] b(2) by (simp add: wf_walk_def)
  have clr: "\<not> ?bm ! j" if "j < length ?bm" for j
    using walk_short [OF wf(1,2) _ ww b(1), of j] that assms(12) ov(2) b(2)
    by (simp add: wf_walk_def walk_start_def bitmap_bits_eq)
  have len: "0 < length ?bm" using assms(8) n by (metis gr0I mult_0_right unat_eq_zero)
  obtain cb ci where f: "RtlFindFirstRunClear api ?bm = (cb, ci)" by fastforce
  have run: "clear_run_at ?bm 0 cb ci" using assms(1) f by (rule clear_runs.first_run)
  have cb: "0 < cb"
  proof (rule ccontr)
    assume "\<not> 0 < cb"
    then have "?bm ! 0" using clear_runs.first_none [OF assms(1) _ len] f by simp
    with clr [OF len] show False by simp
  qed
  let ?i1 = "?i\<lparr>ir_Buffer := rw_Buffer b\<rparr>" and ?w1 = "upd_stats (\<lambda>_. rw_Stats b) ?w"
  have low: "C (lower ?w1) = C (lower w)" by (simp add: upd_stats_def count_read_def note_read_size_def)
  have tot: "512 * clear_below ?bm (length ?bm) = unat (ir_Length i)"
    by (simp only: clear_below_all [OF clr] n)
  have M: "\<exists>w'. read_mixed L e api ?bm cb ci ?i1 ?w1 = Some (STATUS_PENDING, w') \<and>
     (read_completed ?i1 ?want ?w1 w' \<and>
        unat (ir_Information (last (Completed w'))) = 512 * clear_below ?bm (length ?bm) \<or>
      read_waiting (C (lower ?w1)) ?i1 ?want (512 * clear_below ?bm (length ?bm)) ?w1 w')"
  proof (rule read_mixed_coherent [OF assms(1-4) _ _ _ _ _ _ run cb])
    show "wf_extent (ir_ByteOffset ?i1) (ir_Length ?i1)" using wf(1) by (simp add: wf_read_def)
    show "wf_buffers e ?i1" using wf(3) b(2) by (simp add: wf_buffers_def wf_transfer_def wf_walk_def)
    show "unat (ir_Length ?i1) = 512 * length ?bm" "length ?want = 512 * length ?bm" using n by simp_all
    fix k assume k: "k < length ?want"
    then show "C (lower ?w1) (sint (ir_ByteOffset ?i1) + int k) = ?want ! k" using low by simp
    assume "?bm ! (k div 512)"
    moreover have "k div 512 < length ?bm" using k n by simp
    ultimately show "ir_Buffer ?i1 ! k = ?want ! k" using clr by blast
  qed
  obtain w' where w': "read_mixed L e api ?bm cb ci ?i1 ?w1 = Some (STATUS_PENDING, w')"
    "read_completed ?i1 ?want ?w1 w' \<or> read_waiting (C (lower w)) ?i1 ?want (unat (ir_Length i)) ?w1 w'"
    by (rule exE [OF M [unfolded low tot]]) (elim conjE disjE; blast)
  have "Completed ?w1 = Completed w" "SentDown ?w1 = SentDown w" "Scatters ?w1 = Scatters w"
    by (simp_all add: upd_stats_def count_read_def note_read_size_def)
  then have "read_completed ?i1 v ?w1 w' = read_completed i v w w'"
    "read_waiting c ?i1 v m ?w1 w' = read_waiting c i v m w w'" for c v m
    unfolding read_completed_def read_waiting_def by simp_all
  moreover have "QCacheRead L e api i w = Some (STATUS_PENDING, w')"
    using R read_cached_mixed [of ?i ?w b api cb ci L e] b(1,3) f cb w'(1) by simp
  ultimately show ?thesis using w'(2) by blast
qed

end
