(* ===== verification/QC_Limits.thy ===== *)
theory QC_Limits
  imports QC_Concurrent
begin

section \<open>The limits of the queue and concurrent requests\<close>

text \<open>
  The admission test reads the counters before the request is added to them, outside the lock.
  So the limit on the number of items does not bound the cached writes by itself: every thread
  that is between its test and its insertion may add one more. This theory gives the exact
  bound, and the run that reaches it. \<open>calm\<close> is a step after which fewer than \<open>2 ^ 63\<close> items are
  queued, so that the signed counter is their number.
\<close>

definition calm :: "'d lower_driver \<Rightarrow> 'd system \<Rightarrow> 'd system \<Rightarrow> bool" where
  "calm L s s' \<longleftrightarrow> step L s s' \<and> length (queue (sy_World s')) < 2 ^ 63"

definition payloads :: "'d world \<Rightarrow> nat" where
  "payloads w = length (filter (\<lambda>it. it_Buffer it \<noteq> None) (queue w))"

definition admitted :: "producer \<Rightarrow> bool" where
  "admitted p \<longleftrightarrow>
     (case p of Preparing lazy e i \<Rightarrow> lazy | Inserting lazy it cost i \<Rightarrow> lazy \<or> it_Buffer it \<noteq> None | _ \<Rightarrow> False)"

definition most_payloads :: "int \<Rightarrow> nat \<Rightarrow> int" where
  "most_payloads limit n = (if 0 < limit then limit + int n - 1 else 0)"

definition limit_inv :: "int \<Rightarrow> nat \<Rightarrow> 'd system \<Rightarrow> bool" where
  "limit_inv limit n s \<longleftrightarrow>
     length (sy_Producers s) = n \<and> sint (MaxQueueItems (stats (sy_World s))) = limit \<and>
     length (queue (sy_World s)) < 2 ^ 63 \<and>
     int (payloads (sy_World s)) + int (length (filter admitted (sy_Producers s))) \<le> most_payloads limit n"

lemma payloads_le: "payloads w \<le> length (queue w)"
  by (simp add: payloads_def)

subsection \<open>Steps\<close>

lemma decide_payloads:
  assumes "decide e i w = Some (p', w')"
  shows "queue w' = queue w \<and> (admitted p' \<longrightarrow> admits e (stats w))"
proof (cases "admits e (stats w)")
  case True
  with assms show ?thesis
    by (auto simp: decide_def KeSetLowMem_def admitted_def split: if_splits option.splits)
next
  case False
  with assms show ?thesis
    by (auto simp: decide_def KeSetLowMem_def admitted_def upd_stats_def split: if_splits option.splits)
qed

lemma prepare_payloads:
  assumes "prepare lazy e i w = Some (p', w')"
  shows "queue w' = queue w \<and> (admitted p' \<longrightarrow> lazy)"
  using assms
  by (auto simp: prepare_def give_up_def IoAcquireRemoveLock_def complete_with_def IoCompleteRequest_def
      Let_def admitted_def new_item_def bind_eq_Some_conv split: if_splits)

lemma producer_payloads:
  assumes "producer_step p w = Some (p', w')"
  shows "payloads w' + of_bool (admitted p') \<le> payloads w + of_bool (admitted p) \<or>
     (\<exists>e. admits e (stats w) \<and> payloads w' = payloads w)"
proof (cases p)
  case Idle
  with assms show ?thesis by (simp add: producer_step_def)
next
  case (Deciding e i)
  with assms decide_payloads [of e i w p' w'] show ?thesis
    by (cases "admits e (stats w)") (auto simp: payloads_def)
next
  case (Preparing lazy e i)
  with assms prepare_payloads [of lazy e i w p' w'] show ?thesis
    by (cases "admitted p'") (auto simp: payloads_def admitted_def)
next
  case (Inserting lazy it cost i)
  with assms show ?thesis
    by (auto simp: payloads_def insert_item_eq admitted_def)
next
  case (Signalling lazy i)
  with assms show ?thesis
    by (cases lazy) (auto simp: payloads_def set_queue_event_def admitted_def)
next
  case (Completing i)
  with assms show ?thesis
    by (auto simp: payloads_def IoCompleteRequest_def admitted_def)
qed

lemma worker_payloads:
  assumes "worker_step L built ls k w = Some (k', w')" "worker_at k (queue w)"
  shows "payloads w' \<le> payloads w"
proof (cases k)
  case (Dispatching it)
  with assms(2) obtain q where q: "queue w = it # q" by (cases "queue w") (auto simp: worker_at_def)
  from assms(1) Dispatching q show ?thesis
    by (auto simp: worker_step_def payloads_def Let_def set_head_def IoCompleteRequest_def upd_stats_def
        split: option.splits)
next
  case (Finishing it)
  with assms(2) obtain q where q: "queue w = it # q" by (cases "queue w") (auto simp: worker_at_def)
  from assms(1) Finishing q show ?thesis by (auto simp: payloads_def dispatch_finish_eq)
qed (use assms in \<open>auto simp: payloads_def split: if_splits\<close>)

lemma admits_room:
  assumes "admits e (stats w)" "WriteQueueItems (stats w) = of_nat (length (queue w))" "length (queue w) < 2 ^ 63"
  shows "int (length (queue w)) < sint (MaxQueueItems (stats w))"
proof -
  have "sint (WriteQueueItems (stats w)) = int (length (queue w))"
    unfolding assms(2) using assms(3) by (simp add: signed_of_nat signed_take_bit_int_eq_self)
  then show ?thesis using assms(1) by (simp add: admits_def word_sless_alt)
qed

lemma limit_inv_calm:
  assumes "calm L s s'" "system_inv s" "limit_inv M n s"
  shows "limit_inv M n s'"
proof -
  have q: "length (queue (sy_World s')) < 2 ^ 63" and st: "step L s s'" using assms(1) by (simp_all add: calm_def)
  note inv = assms(3) [unfolded limit_inv_def]
  from st show ?thesis
  proof (cases rule: step.cases)
    case (arrive k e i)
    with inv filter_update [OF arrive(2), of admitted "Deciding e i"] show ?thesis
      by (simp add: limit_inv_def admitted_def)
  next
    case (produce k p w)
    let ?ps = "sy_Producers s" and ?w = "sy_World s"
    have "charged (?ps ! k)" using produce(2) assms(2) by (auto simp: system_inv_beside_def list_all_length)
    from producer_step_effect [OF produce(3) this] have m: "MaxQueueItems (stats w) = MaxQueueItems (stats ?w)"
      by (simp add: producer_effect_def)
    have cnt: "length (filter admitted (?ps[k := p])) + of_bool (admitted (?ps ! k))
        = length (filter admitted ?ps) + of_bool (admitted p)"
      by (rule filter_update [OF produce(2)])
    from producer_payloads [OF produce(3)]
    have "int (payloads w) + int (length (filter admitted (?ps[k := p]))) \<le> most_payloads M n"
    proof
      assume "payloads w + of_bool (admitted p) \<le> payloads ?w + of_bool (admitted (?ps ! k))"
      with cnt inv show ?thesis by linarith
    next
      assume "\<exists>e. admits e (stats ?w) \<and> payloads w = payloads ?w"
      then obtain e where e: "admits e (stats ?w)" "payloads w = payloads ?w" by blast
      have "int (length (queue ?w)) < M"
        using admits_room [OF e(1)] assms(2) inv by (simp add: system_inv_beside_def counts_exact_def)
      moreover have "length (filter admitted (?ps[k := p])) \<le> n"
        using inv length_filter_le [of admitted "?ps[k := p]"] by simp
      ultimately show ?thesis using e(2) payloads_le [of ?w] by (simp add: most_payloads_def)
    qed
    with produce q m inv show ?thesis by (simp add: limit_inv_def)
  next
    case (work built ls k w)
    have "worker_at (sy_Worker s) (queue (sy_World s))" using assms(2) by (simp add: system_inv_beside_def)
    from worker_payloads [OF work(2) this] worker_step_effect [OF work(2) this]
    have "payloads w \<le> payloads (sy_World s)" "MaxQueueItems (stats w) = MaxQueueItems (stats (sy_World s))"
      by (simp_all add: worker_effect_def)
    with work q inv show ?thesis by (simp add: limit_inv_def)
  qed (use inv q in \<open>simp_all add: limit_inv_def payloads_def upd_stats_def set_queue_event_def\<close>)
qed

lemma calm_reaches:
  assumes "(calm L)\<^sup>*\<^sup>* (initial n w) s" "fresh w"
  shows "limit_inv (sint (MaxQueueItems (stats w))) n s \<and> system_inv s"
  using assms(1)
proof (induction rule: rtranclp_induct)
  case base
  then show ?case
    using assms(2) initial_inv [OF assms(2), of n]
    by (simp add: limit_inv_def initial_def fresh_def payloads_def admitted_def most_payloads_def)
next
  case (step y z)
  then show ?case using limit_inv_calm [of L y z] system_inv_step [of L y z] by (auto simp: calm_def)
qed

text \<open>
  C19: The test of the limits is made before a request is counted and outside the lock: with
  any number of interleaved requesters, the cached writes in the queue never exceed the limit
  on items plus the number of requesters minus one (and there are none when the limit is not
  positive), in every state reached with fewer than 2^63 queued items.
\<close>

theorem cached_writes_bounded:
  assumes "fresh w" "(calm L)\<^sup>*\<^sup>* (initial n w) s"
  shows "int (payloads (sy_World s)) \<le>
     (if 0 < sint (MaxQueueItems (stats w)) then sint (MaxQueueItems (stats w)) + int n - 1 else 0)"
  using calm_reaches [OF assms(2,1)] by (simp add: limit_inv_def most_payloads_def)

subsection \<open>The bound is reached\<close>

text \<open>
  All requesters pass the test before the first of them inserts its item. With a limit of one,
  \<open>n\<close> requesters queue \<open>n\<close> cached writes, which is the bound.
\<close>

lemma calm_produceI:
  assumes "producer_step (sy_Producers s ! k) (sy_World s) = Some (p, w)" "k < length (sy_Producers s)"
    and "length (queue w) < 2 ^ 63"
  shows "calm L s (s\<lparr>sy_Producers := (sy_Producers s)[k := p], sy_World := w,
                     sy_Inserted := sy_Inserted s @ inserted_by (sy_Producers s ! k)\<rparr>)"
  using step.produce [OF assms(2,1)] assms(3) by (simp add: calm_def)

lemma replicate_next:
  "(replicate k x @ replicate (Suc m) y)[k := z] = replicate k x @ z # replicate m y"
  "(replicate k x @ z # replicate m y)[k := u] = replicate k x @ u # replicate m y"
  "replicate k x @ x # ys = replicate (Suc k) x @ ys"
  "(replicate k x @ z # ys) ! k = z"
  by (simp_all add: list_update_append replicate_app_Cons_same nth_append)

lemma all_pass_the_test:
  assumes "fresh w" "IsCached (stats w)" "admits e (stats w)" "LowMemCondition w \<noteq> None"
    and "ir_MajorFunction i = IRP_MJ_WRITE"
  shows "k \<le> n \<Longrightarrow> \<exists>s. (calm L)\<^sup>*\<^sup>* (initial n w) s \<and>
     sy_Producers s = replicate k (Preparing True e i) @ replicate (n - k) Idle \<and>
     queue (sy_World s) = [] \<and> stats (sy_World s) = stats w \<and> LowMemCondition (sy_World s) \<noteq> None"
proof (induction k)
  case 0
  then show ?case using assms(1,4) by (intro exI [of _ "initial n w"]) (simp add: initial_def fresh_def)
next
  case (Suc k)
  then obtain s where s: "(calm L)\<^sup>*\<^sup>* (initial n w) s"
    "sy_Producers s = replicate k (Preparing True e i) @ replicate (n - k) Idle"
    "queue (sy_World s) = []" "stats (sy_World s) = stats w" "LowMemCondition (sy_World s) \<noteq> None"
    by auto
  obtain m where m: "n - k = Suc m" "n - Suc k = m" using Suc.prems by (metis Suc_diff_Suc Suc_le_lessD)
  let ?s1 = "s\<lparr>sy_Producers := replicate k (Preparing True e i) @ Deciding e i # replicate m Idle\<rparr>"
  let ?w2 = "(sy_World s)\<lparr>LowMemCondition := Some False\<rparr>"
  have "step L s (s\<lparr>sy_Producers := (sy_Producers s)[k := Deciding e i]\<rparr>)"
    by (rule step.arrive) (simp_all add: s m replicate_next(4))
  then have 1: "calm L s ?s1"
    using s(3) by (simp add: calm_def s(2) m(1) replicate_next del: replicate.simps)
  have d: "producer_step (sy_Producers ?s1 ! k) (sy_World ?s1) = Some (Preparing True e i, ?w2)"
    using assms(2,3,5) s(4,5) by (auto simp: replicate_next decide_def KeSetLowMem_def)
  have "calm L ?s1 (?s1\<lparr>sy_Producers := (sy_Producers ?s1)[k := Preparing True e i], sy_World := ?w2,
      sy_Inserted := sy_Inserted ?s1 @ inserted_by (sy_Producers ?s1 ! k)\<rparr>)" (is "calm L _ ?s2")
    by (rule calm_produceI [OF d]) (simp_all add: s(3))
  with s(1) 1 have "(calm L)\<^sup>*\<^sup>* (initial n w) ?s2" by (meson rtranclp.rtrancl_into_rtrancl)
  then show ?case
    by (intro exI [of _ ?s2] conjI) (simp_all add: s replicate_next m(2) del: replicate.simps)
qed

lemma all_insert:
  assumes "lazy_resources e i" "wf_transfer i" "ir_MajorFunction i = IRP_MJ_WRITE" "n < 2 ^ 63"
    and "sy_Producers s0 = replicate n (Preparing True e i)" "queue (sy_World s0) = []"
  shows "k \<le> n \<Longrightarrow> \<exists>s. (calm L)\<^sup>*\<^sup>* s0 s \<and>
     sy_Producers s = replicate k (Signalling True (i\<lparr>ir_Information := 0\<rparr>)) @
       replicate (n - k) (Preparing True e i) \<and>
     length (queue (sy_World s)) = k \<and> payloads (sy_World s) = k"
proof (induction k)
  case 0
  then show ?case using assms(5,6) by (intro exI [of _ s0]) (simp add: payloads_def)
next
  case (Suc k)
  let ?i = "i\<lparr>ir_Information := 0\<rparr>" and ?c = "sizeof_item + ucast (ir_Length i)"
  obtain s where s: "(calm L)\<^sup>*\<^sup>* s0 s"
    "sy_Producers s = replicate k (Signalling True ?i) @ replicate (n - k) (Preparing True e i)"
    "length (queue (sy_World s)) = k" "payloads (sy_World s) = k"
    using Suc by auto
  obtain m where m: "n - k = Suc m" "n - Suc k = m" using Suc.prems by (metis Suc_diff_Suc Suc_le_lessD)
  let ?w = "sy_World s"
  let ?w1 = "?w\<lparr>PoolItems := Suc (PoolItems ?w), ext := (ext ?w)\<lparr>RemoveLock := Suc (RemoveLock (ext ?w))\<rparr>\<rparr>"
  have copy: "RtlCopyMemory (replicate (unat (ir_Length i)) 0) 0 (ir_Buffer i) 0 (unat (ir_Length i)) = Some (ir_Buffer i)"
    using assms(2) by (simp add: wf_transfer_def copy_all)
  have ps: "sy_Producers s ! k = Preparing True e i"
    by (simp add: s(2) m(1) replicate_next(4))
  have p1: "producer_step (sy_Producers s ! k) ?w = Some (Inserting True (lazy_item i) ?c ?i, ?w1)"
    unfolding ps using assms(1,3) copy
    by (simp add: prepare_def lazy_resources_def Let_def IoAcquireRemoveLock_def lazy_item_def)
  have "calm L s (s\<lparr>sy_Producers := (sy_Producers s)[k := Inserting True (lazy_item i) ?c ?i], sy_World := ?w1,
      sy_Inserted := sy_Inserted s @ inserted_by (sy_Producers s ! k)\<rparr>)" (is "calm L _ ?s1")
    by (rule calm_produceI [OF p1]) (use s(3) Suc.prems assms(4) in \<open>simp_all add: s(2) m(1)\<close>)
  moreover have p2: "producer_step (sy_Producers ?s1 ! k) ?w1 = Some (Signalling True ?i, insert_item (lazy_item i) ?c ?w1)"
    by (simp add: s(2) m(1) replicate_next del: replicate.simps)
  have "calm L ?s1 (?s1\<lparr>sy_Producers := (sy_Producers ?s1)[k := Signalling True ?i],
      sy_World := insert_item (lazy_item i) ?c ?w1,
      sy_Inserted := sy_Inserted ?s1 @ inserted_by (sy_Producers ?s1 ! k)\<rparr>)" (is "calm L _ ?s2")
    by (rule calm_produceI) (use p2 s(3) Suc.prems assms(4) in \<open>simp_all add: s(2) m(1) insert_item_eq\<close>)
  ultimately have "(calm L)\<^sup>*\<^sup>* s0 ?s2" using s(1) by (meson rtranclp.rtrancl_into_rtrancl)
  moreover have "it_Buffer (lazy_item i) \<noteq> None" using assms(3) by (simp add: lazy_item_def)
  ultimately show ?case
    using s(3,4) by (intro exI [of _ ?s2])
      (simp add: s(2) m replicate_next insert_item_eq payloads_def del: replicate.simps)
qed

theorem queue_limit_overshoot:
  fixes L :: "'d lower_driver"
  assumes "fresh w" "IsCached (stats w)" "admits e (stats w)" "LowMemCondition w \<noteq> None"
    and "lazy_resources e i" "wf_transfer i" "ir_MajorFunction i = IRP_MJ_WRITE" "n < 2 ^ 63"
  shows "\<exists>s. (calm L)\<^sup>*\<^sup>* (initial n w) s \<and> payloads (sy_World s) = n"
proof -
  obtain s where s: "(calm L)\<^sup>*\<^sup>* (initial n w) s" "sy_Producers s = replicate n (Preparing True e i)"
    "queue (sy_World s) = []"
    using all_pass_the_test [OF assms(1-4,7), of n n L] by auto
  from all_insert [OF assms(5-8) s(2,3), of n L] s(1) show ?thesis by (meson order_refl rtranclp_trans)
qed

end
