(* ===== verification/QC_Witness.thy ===== *)
theory QC_Witness
  imports QC_Example QC_Sync QC_Limits
begin

section \<open>The component properties at concrete inputs\<close>

text \<open>
  For every property of a component theory that has hypotheses, an instance on the example
  device in which they hold.
\<close>

theorem waiting_answer_witness:
  "\<exists>w'. LowerReadComplete 0 late_request (disk_answer late_request (\<lambda>p. of_int p)) waiting_volume = Some w' \<and>
     (if sc_Outstanding (Scatters waiting_volume ! 0) = [late_request]
      then read_completed (sc_OriginalIrp (Scatters waiting_volume ! 0)) [5]
             (waiting_volume\<lparr>Scatters := take 0 (Scatters waiting_volume) @ drop (Suc 0) (Scatters waiting_volume)\<rparr>) w' \<and>
           unat (ir_Information (last (Completed w'))) = 1
      else read_waiting (\<lambda>p. of_int p) (sc_OriginalIrp (Scatters waiting_volume ! 0)) [5] 1
             (waiting_volume\<lparr>Scatters := take 0 (Scatters waiting_volume) @ drop (Suc 0) (Scatters waiting_volume)\<rparr>) w')"
  by (rule waiting_answer)
    (use waiting_wf late_answer in \<open>simp_all add: waiting_volume_def\<close>,
      simp_all add: waiting_scatter_def late_request_def pending_def hits_def sound_target_def claimed_def)

theorem lower_read_complete_witness:
  "\<exists>w'. LowerReadComplete 0 late_request (disk_answer late_request (\<lambda>_. 0)) waiting_volume = Some w' \<and>
     scatters_ok w' \<and> owned w' = owned waiting_volume \<and>
     length (Completed w') = length (Completed waiting_volume) +
       (if sc_Outstanding (Scatters waiting_volume ! 0) = [late_request] then 1 else 0)"
  by (rule lower_read_complete)
    (use waiting_wf late_answer in \<open>simp_all add: waiting_volume_def scatters_ok_def\<close>,
      simp_all add: waiting_scatter_def)

lemma volume_reachable: "reachable disk 1 (initial 1 volume)"
  unfolding reachable_def using volume_fresh by blast

theorem counts_exact_reachable_witness:
  "\<exists>s :: contents system. queue (sy_World s) = [lazy_item sector_write] \<and>
     WriteQueueItems (stats (sy_World s)) = of_nat (length (queue (sy_World s))) \<and>
     WriteQueueSize (stats (sy_World s)) = sum_list (map item_cost (queue (sy_World s))) \<and>
     length (queue (sy_World s)) \<le> RemoveLock (ext (sy_World s))"
proof -
  obtain s where "reachable disk 1 s" "queue (sy_World s) = [lazy_item sector_write]"
    using inserted_write [of volume good_env sector_write disk] volume_admits sector_write_valid by auto
  with counts_exact_reachable [of disk 1 s] show ?thesis by (intro exI [of _ s]) simp
qed

text \<open>A limit of one item and three requesters: the bound is three, and it is reached.\<close>

definition narrow_volume :: "contents world" where
  "narrow_volume = upd_stats (\<lambda>s. s\<lparr>MaxQueueItems := 1\<rparr>) volume"

lemma narrow_fresh: "fresh narrow_volume"
  using volume_fresh by (simp add: narrow_volume_def fresh_def upd_stats_def)

theorem cached_writes_bounded_witness:
  "\<exists>s. (calm disk)\<^sup>*\<^sup>* (initial 3 narrow_volume) s \<and> payloads (sy_World s) = 3 \<and>
     int (payloads (sy_World s)) \<le>
       (if 0 < sint (MaxQueueItems (stats narrow_volume))
        then sint (MaxQueueItems (stats narrow_volume)) + int 3 - 1 else 0) \<and>
     sint (MaxQueueItems (stats narrow_volume)) = 1"
proof -
  have "IsCached (stats narrow_volume)" "LowMemCondition narrow_volume \<noteq> None"
    "admits good_env (stats narrow_volume)"
    using volume_admits(1) volume_fresh
    by (simp_all add: narrow_volume_def upd_stats_def admits_def fresh_def word_sless_alt)
  from queue_limit_overshoot [OF narrow_fresh this(1,3,2), of sector_write 3 disk]
  obtain s where s: "(calm disk)\<^sup>*\<^sup>* (initial 3 narrow_volume) s" "payloads (sy_World s) = 3"
    using sector_write_valid by auto
  with cached_writes_bounded [OF narrow_fresh s(1)] show ?thesis
    by (intro exI [of _ s]) (simp add: narrow_volume_def upd_stats_def)
qed

theorem served_in_order_witness:
  "\<exists>s :: contents system. queue (sy_World s) = [lazy_item sector_write] \<and>
     sy_Inserted s = sy_Retired s @ map plain (queue (sy_World s))"
proof -
  obtain s where "reachable disk 1 s" "queue (sy_World s) = [lazy_item sector_write]"
    using inserted_write [of volume good_env sector_write disk] volume_admits sector_write_valid by auto
  with served_in_order [of disk 1 s] show ?thesis by auto
qed

theorem no_lost_wakeup_witness:
  "\<exists>s :: contents system. queue (sy_World s) = [lazy_item sector_write] \<and>
     ((\<exists>k w. worker_step disk True 0 (sy_Worker s) (sy_World s) = Some (k, w)) \<or>
      list_ex signalling (sy_Producers s))"
proof -
  obtain s where "reachable disk 1 s" "sy_Worker s = Checking" "queue (sy_World s) = [lazy_item sector_write]"
    using inserted_write [of volume good_env sector_write disk] volume_admits sector_write_valid by auto
  with no_lost_wakeup [of disk 1 s True 0] show ?thesis by (intro exI [of _ s]) simp
qed


theorem worker_spins_witness:
  "\<exists>w'. QCacheDeviceWorkerThread 50 disk (\<lambda>_. False) 0 written_volume = (OutOfFuel, w') \<and>
     queue w' = queue written_volume \<and> lower w' = lower written_volume \<and> Completed w' = Completed written_volume"
  by (rule worker_spins [OF written_queue]) simp

text \<open>
  A removal while a split read waits for its last answer: it waits for the answer, and the
  request of the read is completed.
\<close>

definition late_pnp :: pnp_env where
  "late_pnp = good_pnp\<lparr>pe_late := [(0, late_request, disk_answer late_request (\<lambda>p. of_int p))]\<rparr>"

lemma waiting_answered:
  "\<exists>w'. answer_all (pe_late late_pnp) waiting_volume = Some w' \<and> RemoveLock (ext w') = 0 \<and> length (Completed w') = 1"
  by (simp add: late_pnp_def LowerReadComplete_def waiting_volume_def waiting_scatter_def late_request_def
      lower_done_def deliver_def disk_answer_def RtlCopyMemory_def IrpCompletionRoutine_def drop_count_def settle_def
      scatter_destroy_def scatter_result_def copy_back_def IoCompleteRequest_def IoReleaseRemoveLock_def Let_def)

theorem pnp_remove_witness:
  "\<exists>st D'. QCachePnp disk_stack late_pnp (pnp IRP_MN_REMOVE_DEVICE) (filtered waiting_volume) = Some (st, D') \<and>
     fd_Deleted D' \<and> Scatters (fd_world D') = [] \<and> length (Completed (fd_world D')) = 1 \<and>
     lower (fd_world D') = view id waiting_volume"
proof -
  have "device_ok waiting_volume"
    using volume_good waiting_wf
    by (simp add: device_ok_def queue_inv_def scatters_ok_def waiting_volume_def) (simp add: waiting_scatter_def)
  moreover have "can_drain late_pnp waiting_volume"
    using written_lazy(4) by (simp add: can_drain_def late_pnp_def lazy_only_def waiting_volume_def)
  moreover have "\<forall>(n, lo, a) \<in> set (pe_late late_pnp). answer_fits lo a"
    using late_answer(1) by (simp add: late_pnp_def)
  moreover have "NT_SUCCESS (acquire_status (pe_env late_pnp))"
    "ir_MinorFunction (pn_irp (pnp IRP_MN_REMOVE_DEVICE)) = IRP_MN_REMOVE_DEVICE"
    by (simp_all add: late_pnp_def pnp_def)
  moreover note pnp_remove [of late_pnp "pnp IRP_MN_REMOVE_DEVICE" disk_stack id "filtered waiting_volume",
    unfolded filtered_world]
  ultimately obtain w' where w': "answer_all (pe_late late_pnp) waiting_volume = Some w'"
    "if RemoveLock (ext w') = length (queue waiting_volume)
      then \<exists>st D'. QCachePnp disk_stack late_pnp (pnp IRP_MN_REMOVE_DEVICE) (filtered waiting_volume) = Some (st, D') \<and>
            fd_Deleted D' \<and> queue (fd_world D') = [] \<and> id (lower (fd_world D')) = view id waiting_volume \<and>
            Scatters (fd_world D') = [] \<and> Completed (fd_world D') = Completed w' \<and>
            SentDown (fd_world D') = SentDown waiting_volume @ [pn_irp (pnp IRP_MN_REMOVE_DEVICE)]
      else QCachePnp disk_stack late_pnp (pnp IRP_MN_REMOVE_DEVICE) (filtered waiting_volume) = None"
    using disk_quiet(1) by blast
  moreover have "queue waiting_volume = []" by (simp add: waiting_volume_def)
  ultimately show ?thesis using waiting_answered by auto
qed

theorem hung_device_blocks_removal_witness:
  "QCacheDeviceWorkerThread (Suc 7) (tg_lower (disk_stack\<lparr>tg_lower := hung_disk\<rparr>)) (pe_builds good_pnp) 0
       (fd_world (filtered written_volume)) = (Hanging, fd_world (filtered written_volume)) \<and>
     QCachePnp (disk_stack\<lparr>tg_lower := hung_disk\<rparr>) good_pnp (pnp IRP_MN_REMOVE_DEVICE) (filtered written_volume) = None"
proof (rule hung_device_blocks_removal [where q = "[]"])
  show "dispatch_waits (tg_lower (disk_stack\<lparr>tg_lower := hung_disk\<rparr>)) True (lazy_item sector_write)
      (lower (fd_world (filtered written_volume)))"
    by (simp add: dispatch_waits_def)
qed (simp_all add: pnp_def written_queue)

theorem pnp_other_handled_witness:
  "\<exists>D'. run_requests (\<lambda>q. QCachePnp disk_stack (fst q) (snd q))
         [(good_pnp, pnp IRP_MN_START_DEVICE), (good_pnp, pnp IRP_MN_DEVICE_USAGE_NOTIFICATION)]
         (filtered written_volume) = Some D' \<and>
     InitializationEvent (fd_ext D') \<and> PagingPathCountEvent (fd_ext D') \<and>
     owned (fd_world D') = owned (fd_world (filtered written_volume)) +
       mset (map (\<lambda>q. ir_id (pn_irp (snd q)))
         [(good_pnp, pnp IRP_MN_START_DEVICE), (good_pnp, pnp IRP_MN_DEVICE_USAGE_NOTIFICATION)]) \<and>
     RemoveLock (fd_ext D') = RemoveLock (fd_ext (filtered written_volume)) \<and>
     queue (fd_world D') = queue (fd_world (filtered written_volume)) \<and>
     fd_Attached D' = fd_Attached (filtered written_volume) \<and> fd_Deleted D' = fd_Deleted (filtered written_volume)"
  by (rule pnp_other_handled) (simp_all add: disk_stack_def pnp_def)

theorem usage_notification_witness:
  "\<exists>st D'. QCacheDeviceUsageNotification disk_stack (pnp 0) (filtered volume) = Some (st, D') \<and> pagable_ok D' \<and>
     PagingPathCountEvent (fd_ext D') \<and>
     paging_count D' = (if \<not> NT_SUCCESS st then paging_count (filtered volume)
                        else if pn_InPath (pnp 0) then paging_count (filtered volume) + 1
                        else paging_count (filtered volume) - 1) \<and>
     (\<not> NT_SUCCESS st \<longrightarrow> fd_Flags D' = fd_Flags (filtered volume))"
  by (rule usage_notification)
    (simp_all add: pagable_ok_def paging_count_def usage_valid_def pnp_def zero_statistics_def,
      simp add: filtered_def has_flag_def)

theorem pool_mem_balanced_witness:
  "\<exists>A s P'. use_block [CallAlloc (Some []) 4, CallClear, CallAlloc (Some [1]) 2, CallAbandon] {}
       (WPoolMem_Empty, \<lparr>po_Blocks = (\<lambda>_. None), po_Next = 0\<rparr>) = Some (A, s) \<and>
     WPoolMem_Destroy s = Some P' \<and> dom (po_Blocks P') = dom (po_Blocks \<lparr>po_Blocks = (\<lambda>_. None), po_Next = 0\<rparr>) \<union> A"
  by (rule pool_mem_balanced) (simp add: pool_wf_def)

theorem mixed_read_information_witness:
  "\<exists>st w'. QCacheRead disk good_env linear_bitmap_api two_sector_read written_volume = Some (st, w') \<and>
     read_completed two_sector_read (view_bytes (view id written_volume) two_sector_read) written_volume w' \<and>
     unat (ir_Information (last (Completed w'))) = 512 * length (gap_sectors (queue written_volume) two_sector_read) \<and>
     unat (ir_Information (last (Completed w'))) < unat (ir_Length two_sector_read)"
  by (rule mixed_read_information)
    (use gap_of_two_sectors in \<open>simp_all add: answers_now_def written_ok two_sector_valid\<close>,
      simp_all add: two_sector_read_def)

text \<open>A write of 100 bytes inside the first sector, and a read of that sector.\<close>

definition short_write :: irp where
  "short_write = request 1 IRP_MJ_WRITE 100 100 7"

definition first_sector :: irp where
  "first_sector = request 2 IRP_MJ_READ 0 512 0"

definition short_volume :: "contents world" where
  "short_volume = accepted short_write volume"

lemma short_queue: "queue short_volume = [lazy_item short_write]" "Size (stats short_volume) = 4096"
  "lower short_volume = (\<lambda>p. of_int p)"
  by (simp_all add: short_volume_def accepted_def Let_def insert_item_eq qc_simps)

lemma short_ok: "device_ok short_volume"
proof -
  have "valid_write short_write" by (simp add: short_write_def valid_write_def wf_extent_def)
  with volume_good(3) have "queue_inv short_volume" unfolding short_volume_def by (rule queue_inv_accepted)
  moreover have "Scatters short_volume = []"
    by (simp add: short_volume_def accepted_def Let_def insert_item_eq qc_simps)
  ultimately show ?thesis by (simp add: device_ok_def scatters_ok_def)
qed

lemma short_item:
  "overlaps first_sector (lazy_item short_write)" "part_length first_sector (lazy_item short_write) = 100"
  by (simp_all add: overlaps_def part_length_def first_sector_def short_write_def lazy_item_def new_item_def
      word_sless_alt)

lemma short_view:
  "view_bytes (view id short_volume) first_sector ! 100 = 7"
  "view_bytes (id (lower short_volume)) first_sector ! 100 = 100"
  by (simp_all add: view_def short_queue apply_item_def lazy_item_def new_item_def write_bytes_def
      first_sector_def short_write_def)

theorem short_writes_not_seen_witness:
  "view_bytes (view id short_volume) first_sector \<noteq> view_bytes (id (lower short_volume)) first_sector \<and>
   (\<exists>st w'. QCacheRead disk good_env linear_bitmap_api first_sector short_volume = Some (st, w') \<and>
     (read_completed first_sector (view_bytes (id (lower short_volume)) first_sector) short_volume w' \<or>
      read_waiting (id (lower short_volume)) first_sector (view_bytes (id (lower short_volume)) first_sector)
        (unat (ir_Length first_sector)) short_volume w'))"
proof (rule conjI)
  have "(7 :: byte) \<noteq> 100" by simp
  with short_view show "view_bytes (view id short_volume) first_sector \<noteq> view_bytes (id (lower short_volume)) first_sector"
    by metis
  have "beyond_media (stats short_volume) first_sector = False" "misaligned first_sector = False"
    by (simp_all add: beyond_media_def misaligned_def first_sector_def short_queue word_sless_alt word_sle_eq)
  then show "\<exists>st w'. QCacheRead disk good_env linear_bitmap_api first_sector short_volume = Some (st, w') \<and>
     (read_completed first_sector (view_bytes (id (lower short_volume)) first_sector) short_volume w' \<or>
      read_waiting (id (lower short_volume)) first_sector (view_bytes (id (lower short_volume)) first_sector)
        (unat (ir_Length first_sector)) short_volume w')"
    by (intro short_writes_not_seen)
      (simp_all add: short_ok short_queue short_item short_overlaps_def, simp_all add: first_sector_def)
qed

theorem driver_entry_attaches_witness:
  "\<exists>g. DriverEntry (registry True) [] (initial_driver []) = Some (STATUS_SUCCESS, g) \<and>
     dr_Devices g = map (\<lambda>_. attached_device) device_names \<and> dr_MajorFunction g = dispatch_table \<and>
     driver_config.truncate g = entry_config (registry True)"
  by (rule driver_entry_attaches [OF registry_ok]) (simp add: list_all_iff registry_attaches)

theorem driver_entry_gives_up_witness:
  "\<exists>g. DriverEntry (registry False) [] (initial_driver []) = Some (0xC0000034, g) \<and>
     dr_Devices g = map (\<lambda>_. attached_device) [[0x43, 0x3A :: WCHAR]] \<and> QCacheLowMemCondition g = None \<and>
     \<not> dr_ParametersKey g"
  by (rule driver_entry_gives_up [OF registry_ok(1), where bad = "[0x44, 0x3A]" and after = "[]" and D = None])
    (use registry_ok(2) in \<open>simp_all add: registry_attaches device_names_def\<close>)

theorem attach_loop_unterminated_witness:
  "attach_loop (\<lambda>n s. if n = [] then Some (0xC0000034, s) else Some (0, n # s)) ([0x41, 0x42, 0x43] @ 0 # [0])
      (of_nat (2 * length [0x41, 0x42, 0x43 :: WCHAR])) []
   = (case (if [0x41, 0x42, 0x43 :: WCHAR] = [] then Some (0xC0000034, []) else Some (0, [[0x41, 0x42, 0x43]])) of
        None \<Rightarrow> None
      | Some (status, s') \<Rightarrow>
          if \<not> NT_SUCCESS status then Some (status, s')
          else attach_loop (\<lambda>n s. if n = [] then Some (0xC0000034, s) else Some (0, n # s)) [0] 0xFFFE s')"
  by (rule attach_loop_unterminated) simp_all

theorem table_is_dispatch_witness:
  "run_handler disk_stack linear_bitmap_api (dispatch_table ! unat (ir_MajorFunction (snd (good_env, sector_write))))
     (good_env, sector_write) volume
   = driver_dispatch (tg_lower disk_stack) linear_bitmap_api (good_env, sector_write) volume"
  by (rule table_is_dispatch) (simp_all add: sector_write_def)

end
