(* ===== verification/QC_Readers.thy ===== *)
theory QC_Readers
  imports QC_Coherence QC_Concurrent
begin

section \<open>Reads as threads\<close>

text \<open>
  \<open>QCacheRead\<close> runs in the thread of its requester, beside the producers and the worker. Here
  it is cut at the points where another thread may run in between: the section under
  \<open>WriteQueueLock\<close> that walks the queue is one step, each turn of the loop over the gaps is
  one, and the answers of the lower device to the requests that were sent come at any time,
  also while the loop still runs. Run without interruption, the steps are \<open>QCacheRead\<close>.
\<close>

subsection \<open>The phases of a read\<close>

text \<open>
  \<open>RGap\<close> holds the bitmap, the offset of the request, the run that is next, the number of lower
  requests sent and the scatter object. \<open>RAwait\<close> is a split read whose requester has returned
  \<open>STATUS_PENDING\<close>, \<open>RDown\<close> a request that was passed to the lower driver as it is, and
  \<open>RDone\<close> the request as it was completed.
\<close>

datatype reader = REnter env irp
  | RWalk env irp
  | RWalked env irp "bool list" bool
  | RGap env "bool list" LONGLONG nat nat nat SCATTERED_IRP
  | RLeave nat SCATTERED_IRP
  | RAwait SCATTERED_IRP
  | RDown irp
  | RDone irp

definition at_rest :: "reader \<Rightarrow> bool" where
  "at_rest r \<longleftrightarrow> (case r of RAwait _ \<Rightarrow> True | RDown _ \<Rightarrow> True | RDone _ \<Rightarrow> True | _ \<Rightarrow> False)"

lemma at_rest_simps [simp]:
  "\<not> at_rest (REnter e i)" "\<not> at_rest (RWalk e i)" "\<not> at_rest (RWalked e i bm any)"
  "\<not> at_rest (RGap e bm off ci cb n sc)" "\<not> at_rest (RLeave n sc)"
  "at_rest (RAwait sc)" "at_rest (RDown i)" "at_rest (RDone i)"
  by (simp_all add: at_rest_def)

text \<open>
  Counters and checks. A device of unknown size passes everything down. The counters are
  interlocked and nothing in a read depends on \<open>LargestReadSize\<close>, so they are part of this step.
\<close>

definition read_enter :: "'d lower_driver \<Rightarrow> env \<Rightarrow> irp \<Rightarrow> 'd world \<Rightarrow> reader \<times> 'd world" where
  "read_enter L e i0 w0 =
     (if Size (stats w0) = 0 then (RDown i0, snd (QCacheSendToNextDriver L i0 w0))
      else
        let i = i0\<lparr>ir_Information := 0\<rparr>;
            w1 = count_read i w0;
            w2 = note_read_size i w1;
            fail = (\<lambda>st. (RDone (i\<lparr>ir_Status := st\<rparr>), snd (complete_with st i w2)))
        in if ir_Length i = 0
           then (RDone (i\<lparr>ir_Information := 0, ir_Status := STATUS_SUCCESS\<rparr>), snd (QCacheIgnore i w1))
           else if misaligned i then fail STATUS_INVALID_PARAMETER
           else if beyond_media (stats w2) i then fail STATUS_END_OF_MEDIA
           else if \<not> mdl_mapped e \<or> \<not> bitmap_alloc e then fail STATUS_INSUFFICIENT_RESOURCES
           else (RWalk e i, w2))"

text \<open>The section under \<open>WriteQueueLock\<close>.\<close>

definition read_locked :: "env \<Rightarrow> irp \<Rightarrow> 'd world \<Rightarrow> (reader \<times> 'd world) option" where
  "read_locked e i w = do {
     a \<leftarrow> walk_queue i (queue w) (walk_start i w);
     Some (RWalked e (i\<lparr>ir_Buffer := rw_Buffer a\<rparr>) (rw_Bitmap a) (rw_Any a),
           upd_stats (\<lambda>_. rw_Stats a) w)
   }"

text \<open>After the lock: pass down, complete, or create the scatter object.\<close>

definition read_decide ::
  "'d lower_driver \<Rightarrow> env \<Rightarrow> bitmap_api \<Rightarrow> irp \<Rightarrow> bool list \<Rightarrow> bool \<Rightarrow> 'd world \<Rightarrow> reader \<times> 'd world" where
  "read_decide L e api i bm any w =
     (if \<not> any
      then (RDown i, snd (QCacheSendToNextDriver L i
             (upd_stats (\<lambda>s. s\<lparr>
                ReadRequestsReroutedToOriginal := ReadRequestsReroutedToOriginal s + 1,
                ReadBytesReroutedToOriginal :=
                  ReadBytesReroutedToOriginal s + ucast (ir_Length i)\<rparr>) w)))
      else case RtlFindFirstRunClear api bm of
             (clear_bits, clear_index) \<Rightarrow>
               if clear_bits = 0
               then (RDone (i\<lparr>ir_Information := ucast (ir_Length i), ir_Status := STATUS_SUCCESS\<rparr>),
                     snd (complete_with STATUS_SUCCESS (i\<lparr>ir_Information := ucast (ir_Length i)\<rparr>) w))
               else case SCATTERED_IRP_Create e (device_flags e) i
                      (if has_flag (device_flags e) DO_BUFFERED_IO then AssociatedBuffer else NoBuffer) w of
                      (status, None, w1) \<Rightarrow>
                        (RDone (i\<lparr>ir_Status := status\<rparr>), snd (complete_with status i w1))
                    | (status, Some sc, w1) \<Rightarrow>
                        (RGap e bm (ir_ByteOffset i) clear_index clear_bits 0 sc, w1))"

text \<open>One turn of the loop. An answer given at once must not be the last count.\<close>

definition answered :: "lower_irp \<Rightarrow> answer option \<Rightarrow> SCATTERED_IRP \<Rightarrow> SCATTERED_IRP option" where
  "answered lo ans sc =
     (case ans of
        None \<Rightarrow> Some sc
      | Some a \<Rightarrow> do {
          s \<leftarrow> lower_done lo a sc;
          (if sc_ScatterCount s = 0 then None else Some s)
        })"

definition read_gap ::
  "'d lower_driver \<Rightarrow> env \<Rightarrow> bitmap_api \<Rightarrow> bool list \<Rightarrow> LONGLONG \<Rightarrow> nat \<Rightarrow> nat \<Rightarrow> nat
   \<Rightarrow> SCATTERED_IRP \<Rightarrow> 'd world \<Rightarrow> (reader \<times> 'd world) option" where
  "read_gap L e api bm off clear_index clear_bits splits sc w =
     do {
       (irp, sc1) \<leftarrow> BuildIrp (build_alloc e splits) IRP_MJ_READ (lw_flags L)
                      (push_bit 9 (of_nat clear_index)) (push_bit 9 (of_nat clear_bits))
                      (off + push_bit 9 (of_nat clear_index)) sc;
       case irp of
         None \<Rightarrow> Some (RLeave splits sc1, w)
       | Some lo \<Rightarrow>
           let w1 = upd_stats (\<lambda>s. s\<lparr>ReadBytesFromOriginal :=
                       ReadBytesFromOriginal s + push_bit 9 (of_nat clear_bits)\<rparr>) w;
               (ans, d) = lw_read L lo (lower w1)
           in do {
             sc2 \<leftarrow> answered lo ans sc1;
             let (clear_bits', clear_index') =
                   RtlFindNextForwardRunClear api bm (clear_index + clear_bits)
             in Some (if 0 < clear_bits' then RGap e bm off clear_index' clear_bits' (Suc splits) sc2
                      else RLeave (Suc splits) sc2, w1\<lparr>lower := d\<rparr>)
           }
     }"

text \<open>The creator drops its count, and completes the request if every answer is in already.\<close>

definition release :: "SCATTERED_IRP \<Rightarrow> 'd world \<Rightarrow> (reader \<times> 'd world) option" where
  "release sc w =
     (if sc_ScatterCount sc = 0
      then do {
        i \<leftarrow> scatter_result sc;
        w1 \<leftarrow> scatter_destroy sc w;
        Some (RDone i, w1)
      }
      else Some (RAwait sc, w))"

definition read_leave :: "nat \<Rightarrow> SCATTERED_IRP \<Rightarrow> 'd world \<Rightarrow> (reader \<times> 'd world) option" where
  "read_leave splits sc w =
     release (drop_count sc)
       (if 1 < splits then upd_stats (\<lambda>s. s\<lparr>SplitReads := SplitReads s + of_nat splits\<rparr>) w else w)"

definition read_step ::
  "'d lower_driver \<Rightarrow> bitmap_api \<Rightarrow> reader \<Rightarrow> 'd world \<Rightarrow> (reader \<times> 'd world) option" where
  "read_step L api r w =
     (case r of
        REnter e i \<Rightarrow> Some (read_enter L e i w)
      | RWalk e i \<Rightarrow> read_locked e i w
      | RWalked e i bm any \<Rightarrow> Some (read_decide L e api i bm any w)
      | RGap e bm off ci cb n sc \<Rightarrow> read_gap L e api bm off ci cb n sc w
      | RLeave n sc \<Rightarrow> read_leave n sc w
      | RAwait _ \<Rightarrow> None | RDown _ \<Rightarrow> None | RDone _ \<Rightarrow> None)"

lemma read_step_sel [simp]:
  "read_step L api (REnter e i) w = Some (read_enter L e i w)"
  "read_step L api (RWalk e i) w = read_locked e i w"
  "read_step L api (RWalked e i bm any) w = Some (read_decide L e api i bm any w)"
  "read_step L api (RGap e bm off ci cb n sc) w = read_gap L e api bm off ci cb n sc w"
  "read_step L api (RLeave n sc) w = read_leave n sc w"
  by (simp_all add: read_step_def)

text \<open>
  A lower request that was answered later: the completion routine works on the scatter object
  wherever its requester is. While the requester holds its count, the count cannot reach zero.
\<close>

definition read_answer :: "lower_irp \<Rightarrow> answer \<Rightarrow> reader \<Rightarrow> 'd world \<Rightarrow> (reader \<times> 'd world) option" where
  "read_answer lo a r w =
     (case r of
        RGap e bm off ci cb n sc \<Rightarrow> do {
          s \<leftarrow> answered lo (Some a) sc;
          Some (RGap e bm off ci cb n s, w)
        }
      | RLeave n sc \<Rightarrow> do {
          s \<leftarrow> answered lo (Some a) sc;
          Some (RLeave n s, w)
        }
      | RAwait sc \<Rightarrow> do {
          s \<leftarrow> lower_done lo a sc;
          release s w
        }
      | _ \<Rightarrow> None)"

text \<open>The lower requests of a read that are out.\<close>

definition outstanding :: "reader \<Rightarrow> lower_irp list" where
  "outstanding r =
     (case r of RGap e bm off ci cb n sc \<Rightarrow> sc_Outstanding sc
      | RLeave n sc \<Rightarrow> sc_Outstanding sc | RAwait sc \<Rightarrow> sc_Outstanding sc | _ \<Rightarrow> [])"

lemma outstanding_simps [simp]:
  "outstanding (REnter e i) = []" "outstanding (RWalk e i) = []" "outstanding (RWalked e i bm any) = []"
  "outstanding (RGap e bm off ci cb n sc) = sc_Outstanding sc"
  "outstanding (RLeave n sc) = sc_Outstanding sc" "outstanding (RAwait sc) = sc_Outstanding sc"
  "outstanding (RDown i) = []" "outstanding (RDone i) = []"
  by (simp_all add: outstanding_def)

subsection \<open>A read without interruption\<close>

fun read_run ::
  "nat \<Rightarrow> 'd lower_driver \<Rightarrow> bitmap_api \<Rightarrow> reader \<Rightarrow> 'd world \<Rightarrow> (reader \<times> 'd world) option" where
  "read_run 0 L api r w = (if at_rest r then Some (r, w) else None)"
| "read_run (Suc n) L api r w =
     (if at_rest r then Some (r, w)
      else do {
        (r', w') \<leftarrow> read_step L api r w;
        read_run n L api r' w'
      })"

lemma read_run_rest [simp]: "at_rest r \<Longrightarrow> read_run n L api r w = Some (r, w)"
  by (cases n) simp_all

text \<open>A scatter object that waits is one of the live ones of the device.\<close>

definition land :: "reader \<times> 'd world \<Rightarrow> 'd world" where
  "land x = (case fst x of RAwait sc \<Rightarrow> (snd x)\<lparr>Scatters := Scatters (snd x) @ [sc]\<rparr> | _ \<Rightarrow> snd x)"

lemma release_rest: "release sc w = Some (r, w') \<Longrightarrow> at_rest r"
  by (auto simp: release_def bind_eq_Some_conv split: if_splits)

lemma land_release: "map_option land (release sc w) = settle sc w"
  by (cases "scatter_result sc") (simp_all add: release_def settle_def scatter_destroy_def land_def)

lemma run_leave:
  "map_option land (read_run (Suc n) L api (RLeave s sc) w) =
     settle (drop_count sc)
       (if 1 < s then upd_stats (\<lambda>st. st\<lparr>SplitReads := SplitReads st + of_nat s\<rparr>) w else w)"
proof -
  let ?w = "if 1 < s then upd_stats (\<lambda>st. st\<lparr>SplitReads := SplitReads st + of_nat s\<rparr>) w else w"
  have "read_run (Suc n) L api (RLeave s sc) w = release (drop_count sc) ?w"
    by (cases "release (drop_count sc) ?w") (auto simp: read_leave_def dest: release_rest)
  then show ?thesis by (simp only: land_release)
qed

text \<open>
  The loop: the fuel of \<open>read_gaps\<close> counts the same turns as the steps of the reader.
\<close>

lemma run_gaps:
  "map_option land (read_run (Suc n) L api (RGap e bm off ci cb s sc) w) =
     do {
       (splits, sc2, w2) \<leftarrow> read_gaps n L e api bm off ci cb s sc w;
       settle (drop_count sc2)
         (if 1 < splits then upd_stats (\<lambda>st. st\<lparr>SplitReads := SplitReads st + of_nat splits\<rparr>) w2 else w2)
     }"
proof (induction n arbitrary: ci cb s sc w)
  case 0
  show ?case
    by (simp add: read_gap_def Let_def split: prod.split option.split bind_split)
next
  case (Suc n)
  let ?B = "BuildIrp (build_alloc e s) IRP_MJ_READ (lw_flags L)
              (push_bit 9 (of_nat ci)) (push_bit 9 (of_nat cb)) (off + push_bit 9 (of_nat ci)) sc"
  have go: "read_run (Suc (Suc n)) L api (RGap e bm off ci cb s sc) w =
      read_gap L e api bm off ci cb s sc w \<bind> (\<lambda>(r', w'). read_run (Suc n) L api r' w')"
    by (subst read_run.simps) (simp del: read_run.simps)
  show ?case
  proof (cases ?B)
    case None
    then show ?thesis unfolding go by (simp add: read_gap_def)
  next
    case (Some b)
    obtain irp sc1 where b: "b = (irp, sc1)" by (cases b)
    show ?thesis
    proof (cases irp)
      case None
      then show ?thesis
        unfolding go using Some b run_leave [of n L api s sc1 w]
        by (simp add: read_gap_def del: read_run.simps)
    next
      case lo: (Some lo)
      let ?w1 = "upd_stats (\<lambda>s. s\<lparr>ReadBytesFromOriginal :=
                       ReadBytesFromOriginal s + push_bit 9 (of_nat cb)\<rparr>) w"
      obtain ans d where ad: "lw_read L lo (lower ?w1) = (ans, d)" by fastforce
      obtain cb' ci' where nx: "RtlFindNextForwardRunClear api bm (ci + cb) = (cb', ci')" by fastforce
      show ?thesis
      proof (cases "answered lo ans sc1")
        case None
        with Some b lo ad show ?thesis
          unfolding go by (simp add: read_gap_def Let_def del: read_run.simps) (simp add: answered_def)
      next
        case s2: (Some sc2)
        then have ans: "(case ans of None \<Rightarrow> Some sc1
            | Some a \<Rightarrow> lower_done lo a sc1 \<bind> (\<lambda>s. if sc_ScatterCount s = 0 then None else Some s)) = Some sc2"
          by (simp add: answered_def)
        from Some b lo ad nx s2 ans Suc.IH [of ci' cb' "Suc s" sc2 "?w1\<lparr>lower := d\<rparr>"]
          run_leave [of n L api "Suc s" sc2 "?w1\<lparr>lower := d\<rparr>"]
        show ?thesis
          unfolding go by (simp add: read_gap_def Let_def del: read_run.simps)
      qed
    qed
  qed
qed

lemma walk_bitmap_length:
  "walk_queue i q a = Some b \<Longrightarrow> length (rw_Bitmap b) = length (rw_Bitmap a)"
proof (induction q arbitrary: a)
  case Nil
  then show ?case by simp
next
  case (Cons it q)
  have "length (rw_Bitmap c) = length (rw_Bitmap a)" if "copy_item i it a = Some c" for c
    using that by (auto simp: copy_item_def Let_def RtlSetBits_def bind_eq_Some_conv split: if_splits)
  with Cons show ?case by (auto simp: bind_eq_Some_conv split: if_splits)
qed

lemma with_status: "map_option snd (x \<bind> (\<lambda>w. Some (st, w))) = x"
  by (cases x) simp_all

text \<open>
  The threads of the reads are cut from the code: running the steps of one read without
  interruption is QCacheRead, on every path, faults included, and the turns of its loop are
  the fuel.
\<close>

lemma reader_is_QCacheRead:
  "map_option land (read_run (5 + bitmap_bits (ir_Length i)) L api (REnter e i) w)
     = map_option snd (QCacheRead L e api i w)"
proof -
  let ?n = "bitmap_bits (ir_Length i)" and ?i = "i\<lparr>ir_Information := 0\<rparr>"
  have five: "5 + ?n = Suc (Suc (Suc (Suc (Suc ?n))))" by simp
  have mixed: "map_option land (read_run (Suc (Suc (Suc ?n))) L api (RWalked e i' bm any) w') =
      map_option snd
       (if \<not> any
        then Some (QCacheSendToNextDriver L i'
             (upd_stats (\<lambda>s. s\<lparr>
                ReadRequestsReroutedToOriginal := ReadRequestsReroutedToOriginal s + 1,
                ReadBytesReroutedToOriginal :=
                  ReadBytesReroutedToOriginal s + ucast (ir_Length i')\<rparr>) w'))
        else case RtlFindFirstRunClear api bm of
             (clear_bits, clear_index) \<Rightarrow>
               if clear_bits = 0
               then Some (complete_with STATUS_SUCCESS
                            (i'\<lparr>ir_Information := ucast (ir_Length i')\<rparr>) w')
               else read_mixed L e api bm clear_bits clear_index i' w')"
    if "length bm = ?n" for i' :: irp and bm any w'
  proof -
    obtain cb ci where f: "RtlFindFirstRunClear api bm = (cb, ci)" by fastforce
    obtain st o1 w1 where c: "SCATTERED_IRP_Create e (device_flags e) i'
        (if has_flag (device_flags e) DO_BUFFERED_IO then AssociatedBuffer else NoBuffer) w' = (st, o1, w1)"
      by (metis prod_cases3)
    show ?thesis
    proof (cases "any \<and> cb \<noteq> 0 \<and> o1 \<noteq> None")
      case False
      then show ?thesis
        by (auto simp: f c read_decide_def land_def read_mixed_def)
    next
      case True
      then obtain sc where sc: "o1 = Some sc" by auto
      have "read_run (Suc (Suc (Suc ?n))) L api (RWalked e i' bm any) w'
          = read_run (Suc (Suc ?n)) L api (RGap e bm (ir_ByteOffset i') ci cb 0 sc) w1"
        by (subst read_run.simps) (use True f c sc in \<open>simp add: read_decide_def del: read_run.simps\<close>)
      then show ?thesis
        using True f c sc that run_gaps [of "Suc ?n" L api e bm "ir_ByteOffset i'" ci cb 0 sc w1]
        by (auto simp: read_mixed_def case_prod_unfold map_option_bind o_def with_status simp del: read_run.simps read_gaps.simps)
    qed
  qed
  have walk: "map_option land (read_run (Suc (Suc (Suc (Suc ?n)))) L api (RWalk e ?i) w') =
      map_option snd (read_cached L e api ?i w')" for w'
  proof (cases "walk_queue ?i (queue w') (walk_start ?i w')")
    case None
    then show ?thesis
      by (simp add: read_locked_def read_cached_def walk_start_def)
  next
    case (Some a)
    have "length (rw_Bitmap a) = ?n"
      using walk_bitmap_length [OF Some] by (simp add: walk_start_def)
    note m = mixed [OF this, of "?i\<lparr>ir_Buffer := rw_Buffer a\<rparr>" "rw_Any a" "upd_stats (\<lambda>_. rw_Stats a) w'"]
    have "read_run (Suc (Suc (Suc (Suc ?n)))) L api (RWalk e ?i) w'
        = read_run (Suc (Suc (Suc ?n))) L api
            (RWalked e (?i\<lparr>ir_Buffer := rw_Buffer a\<rparr>) (rw_Bitmap a) (rw_Any a)) (upd_stats (\<lambda>_. rw_Stats a) w')"
      by (subst read_run.simps) (use Some in \<open>simp add: read_locked_def del: read_run.simps\<close>)
    with m Some show ?thesis
      by (cases "RtlFindFirstRunClear api (rw_Bitmap a)") (simp add: read_cached_def walk_start_def Let_def del: read_run.simps)
  qed
  show ?thesis
    unfolding five
    using walk
    by (auto simp: read_enter_def QCacheRead_def Let_def land_def complete_with_def QCacheIgnore_def
        simp del: read_run.simps simp: read_run.simps(2) [of _ L api "REnter e i"])
qed

end
