(* ===== verification/QC_AtWork.thy ===== *)
theory QC_AtWork
  imports QC_Readers
begin

section \<open>The queue at work\<close>

text \<open>
  What a reader can meet in the queue while the worker and the producers are at work: the shape
  of every item, also of one whose request was just completed, and what a walk of the queue
  establishes. Then what one step of another thread does to queue and lower device, and the
  positions of the device at which a reader that still has to ask the lower device is safe.
\<close>

subsection \<open>Items at work\<close>

text \<open>
  While the worker finishes a forwarded request its item is still linked but \<open>Item->Irp\<close> is
  already null: it looks like a lazy request without data.
\<close>

definition spent :: "WRITE_QUEUE_ITEM \<Rightarrow> bool" where
  "spent it \<longleftrightarrow> it_Irp it = None \<and> it_Length it = 0 \<and> it_Offset it = 0 \<and> it_Buffer it = None"

definition item_ok :: "WRITE_QUEUE_ITEM \<Rightarrow> bool" where
  "item_ok it \<longleftrightarrow> (wf_item it \<or> spent it) \<and> sector_item it"

text \<open>The walk of a reader does not see the difference to the item before.\<close>

definition restore :: "WRITE_QUEUE_ITEM \<Rightarrow> WRITE_QUEUE_ITEM" where
  "restore it =
     (if spent it
      then it\<lparr>it_Irp := Some \<lparr>ir_id = 0, ir_MajorFunction = it_MajorFunction it, ir_MinorFunction = 0,
                ir_ByteOffset = 0, ir_Length = 0, ir_IoControlCode = 0, ir_OutputBufferLength = 0,
                ir_Buffer = [], ir_SystemBuffer = [], ir_Output = None, ir_Status = 0,
                ir_Information = 0\<rparr>\<rparr>
      else it)"

lemma restore_wf: "item_ok it \<Longrightarrow> wf_item (restore it) \<and> sector_item (restore it)"
proof (cases "spent it")
  case True
  then show ?thesis by (simp add: restore_def) (simp add: spent_def wf_item_def sector_item_def is_write_def)
qed (simp add: restore_def item_ok_def)

lemma restore_walk: "walk_queue i (map restore q) a = walk_queue i q a"
proof -
  have "overlaps i (restore it) = overlaps i it" "copy_item i (restore it) a = copy_item i it a" for it a
    by (simp_all add: restore_def overlaps_def copy_item_def)
  then show ?thesis
    by (induction q arbitrary: a) (auto intro!: Option.bind_cong)
qed

lemma restore_item: "apply_item (restore it) = apply_item it" "covers (restore it) = covers it"
proof -
  show "apply_item (restore it) = apply_item it"
    by (auto simp: restore_def spent_def apply_item_def fun_eq_iff)
  show "covers (restore it) = covers it"
    by (auto simp: restore_def spent_def covers_def is_write_def fun_eq_iff)
qed

lemma restore_overlay: "overlay (map restore q) c = overlay q c"
  by (induction q arbitrary: c) (simp_all add: restore_item)

lemma restore_covered: "covered (map restore q) p = covered q p"
  by (induction q) (simp_all add: restore_item)

lemma restore_all: "list_all item_ok q \<Longrightarrow> list_all wf_item (map restore q) \<and> list_all sector_item (map restore q)"
  by (auto simp: list_all_iff dest: restore_wf)

lemma item_covers:
  assumes "item_ok it"
  shows "covers it p \<Longrightarrow> apply_item it c p = apply_item it c' p"
    and "\<not> covers it p \<Longrightarrow> apply_item it c p = c p"
  using apply_covers [of "restore it" p c] restore_wf [OF assms] by (simp_all add: restore_item)

lemma irp_cleared: "it_Irp it = None \<Longrightarrow> it\<lparr>it_Irp := None\<rparr> = it"
  by (cases it) simp

lemma spent_finish: "item_ok it \<Longrightarrow> item_ok (it\<lparr>it_Irp := None\<rparr>)"
  by (cases "it_Irp it")
    (auto simp: irp_cleared,
     auto simp: item_ok_def wf_item_def spent_def sector_item_def is_write_def whole_sectors_def)

lemma finish_covers: "item_ok it \<Longrightarrow> covers (it\<lparr>it_Irp := None\<rparr>) p \<Longrightarrow> it_Irp it = None"
  by (cases "it_Irp it") (auto simp: item_ok_def wf_item_def spent_def covers_def)

text \<open>What the walk establishes, for a queue at work.\<close>

lemma walk_at_work:
  assumes "wf_read i" "\<not> misaligned i" "list_all item_ok q"
  obtains b where "walk_queue i q (walk_start i w) = Some b" "length (rw_Buffer b) = unat (ir_Length i)"
    "unat (ir_Length i) = 512 * length (rw_Bitmap b)"
    "\<And>k. k < unat (ir_Length i) \<Longrightarrow> rw_Bitmap b ! (k div 512) \<Longrightarrow>
       rw_Buffer b ! k = overlay q c (sint (ir_ByteOffset i) + int k)"
    "\<And>k. k < unat (ir_Length i) \<Longrightarrow> \<not> rw_Any b \<or> \<not> rw_Bitmap b ! (k div 512) \<Longrightarrow>
       \<not> covered q (sint (ir_ByteOffset i) + int k)"
proof -
  let ?q = "map restore q"
  from restore_all [OF assms(3)] have r: "list_all wf_item ?q" "list_all sector_item ?q" by simp_all
  have "wf_transfer i" using assms(1) by (simp add: wf_read_def)
  from walk_overlay [OF assms(1) r(1) walk_start_wf [OF this, of w]] obtain b where
    b: "walk_queue i ?q (walk_start i w) = Some b" "wf_walk i b" "rw_Any b = list_ex (overlaps i) ?q"
    by auto
  note wd = walk_done [OF assms(1,2) r b(1)]
  show thesis
  proof (rule that)
    show "walk_queue i q (walk_start i w) = Some b" using b(1) by (simp only: restore_walk)
    show "length (rw_Buffer b) = unat (ir_Length i)" using b(2) by (simp add: wf_walk_def)
    show "unat (ir_Length i) = 512 * length (rw_Bitmap b)"
      using sector_length [OF not_misaligned(2) [OF assms(2)]] b(2) by (simp add: wf_walk_def)
  next
    fix k assume k: "k < unat (ir_Length i)"
    show "rw_Buffer b ! k = overlay q c (sint (ir_ByteOffset i) + int k)" if "rw_Bitmap b ! (k div 512)"
      using wd(2) [OF k that] by (simp only: restore_overlay)
    show "\<not> covered q (sint (ir_ByteOffset i) + int k)" if "\<not> rw_Any b \<or> \<not> rw_Bitmap b ! (k div 512)"
      using that wd(1) [OF k] no_overlap_uncovered [OF assms(1) r(1) _ k] b(3)
      by (auto simp: restore_covered)
  qed
qed

subsection \<open>What a step does to queue and lower device\<close>

text \<open>
  A queued write that is executed stores each of its bytes or leaves what was there; a request
  that is forwarded may store anything.
\<close>

definition bytewise :: "'d lower_driver \<Rightarrow> ('d \<Rightarrow> contents) \<Rightarrow> bool" where
  "bytewise L C \<longleftrightarrow>
     (\<forall>r d p. C (snd (lw_built L r d)) p = C d p \<or>
        bi_MajorFunction r = IRP_MJ_WRITE \<and>
        (case bi_Buffer r of None \<Rightarrow> False
         | Some b \<Rightarrow> C (snd (lw_built L r d)) p = write_bytes (bi_StartingOffset r) b (C d) p))"

inductive moved :: "'d lower_driver \<Rightarrow> 'd world \<Rightarrow> 'd world \<Rightarrow> bool" for L w w' where
  kept: "lower w' = lower w \<Longrightarrow> queue w' = queue w \<Longrightarrow> moved L w w'"
| appended: "lower w' = lower w \<Longrightarrow> queue w' = queue w @ [it] \<Longrightarrow> item_ok it \<Longrightarrow> moved L w w'"
| unlinked: "lower w' = lower w \<Longrightarrow> queue w = it # queue w' \<Longrightarrow> moved L w w'"
| executed: "queue w = it # q \<Longrightarrow> queue w' = it\<lparr>it_Irp := None\<rparr> # q \<Longrightarrow>
    it_Irp it = None \<Longrightarrow> lower w' = snd (lw_built L (lazy_request it) (lower w)) \<Longrightarrow> moved L w w'"
| forwarded: "queue w = it # q \<Longrightarrow> queue w' = it\<lparr>it_Irp := None\<rparr> # q \<Longrightarrow>
    it_Irp it \<noteq> None \<Longrightarrow> moved L w w'"

lemma moved_items: "moved L w w' \<Longrightarrow> list_all item_ok (queue w) \<Longrightarrow> list_all item_ok (queue w')"
  by (induction rule: moved.induct) (auto intro: spent_finish)

text \<open>The bytes a step lets a concurrent read see.\<close>

definition visible :: "('d \<Rightarrow> contents) \<Rightarrow> 'd world \<Rightarrow> 'd world \<Rightarrow> int \<Rightarrow> byte set" where
  "visible C w w' p =
     insert (view C w' p)
       (case queue w of
          it # _ \<Rightarrow> if it_Irp it \<noteq> None \<and> C (lower w') p \<noteq> C (lower w) p then {C (lower w') p} else {}
        | [] \<Rightarrow> {})"

text \<open>A position is safe when the lower device and every queued write hold bytes that were seen.\<close>

definition safe_at :: "('d \<Rightarrow> contents) \<Rightarrow> 'd world \<Rightarrow> (int \<Rightarrow> byte set) \<Rightarrow> int \<Rightarrow> bool" where
  "safe_at C w seen p \<longleftrightarrow> C (lower w) p \<in> seen p \<and>
     list_all (\<lambda>it. covers it p \<longrightarrow> apply_item it (\<lambda>_. 0) p \<in> seen p) (queue w)"

lemma uncovered_safe:
  assumes "list_all item_ok (queue w)" "\<not> covered (queue w) p" "view C w p \<in> seen p"
  shows "safe_at C w seen p"
proof -
  have "view C w p = C (lower w) p"
    using overlay_uncovered [of "map restore (queue w)" p "C (lower w)"] restore_all [OF assms(1)] assms(2)
    by (simp add: view_def restore_overlay restore_covered)
  with assms(2,3) show ?thesis by (auto simp: safe_at_def covered_def list_ex_iff list_all_iff)
qed

lemma safe_moved:
  assumes "moved L w w'" "bytewise L C" "list_all item_ok (queue w)" "safe_at C w seen p"
  shows "safe_at C w' (\<lambda>p. seen p \<union> visible C w w' p) p"
  using assms(1)
proof (cases rule: moved.cases)
  case kept
  with assms(4) show ?thesis by (auto simp: safe_at_def list_all_iff)
next
  case (appended it)
  have "apply_item it (\<lambda>_. 0) p = view C w' p" if "covers it p"
    using item_covers(1) [OF appended(3) that] appended(2) by (simp add: view_def)
  with appended assms(4) show ?thesis by (auto simp: safe_at_def list_all_iff visible_def)
next
  case (unlinked it)
  with assms(4) show ?thesis by (auto simp: safe_at_def list_all_iff)
next
  case (executed it q)
  have it: "it\<lparr>it_Irp := None\<rparr> = it" using executed(3) by (rule irp_cleared)
  have ok: "item_ok it" using assms(3) executed(1) by simp
  have "C (lower w') p = C (lower w) p \<or> C (lower w') p = apply_item it (C (lower w)) p"
    using assms(2) [unfolded bytewise_def, rule_format, of "lazy_request it" "lower w" p] executed(3,4)
    by (auto simp: apply_item_def split: option.splits)
  moreover have "apply_item it (C (lower w)) p \<in> seen p"
    using item_covers(1) [OF ok, of p "C (lower w)" "\<lambda>_. 0"] item_covers(2) [OF ok, of p "C (lower w)"]
      executed(1) assms(4)
    by (cases "covers it p") (auto simp: safe_at_def)
  ultimately show ?thesis
    using assms(4) executed(1,2) by (auto simp: safe_at_def it list_all_iff)
next
  case (forwarded it q)
  have "item_ok it" using assms(3) forwarded(1) by simp
  with forwarded(3) have "\<not> covers (it\<lparr>it_Irp := None\<rparr>) p" using finish_covers [of it p] by auto
  with forwarded assms(4) show ?thesis
    by (auto simp: safe_at_def list_all_iff visible_def)
qed

end
