(* ===== verification/QC_ReadSteps.thy ===== *)
theory QC_ReadSteps
  imports QC_AtWork
begin

section \<open>The steps of one read beside other threads\<close>

text \<open>
  The invariant of a reader in each of its phases: which bytes of its buffer are settled, and
  that every position it still has to read, or has asked the lower device for, is safe. From it,
  every step of the reader succeeds, brings it closer to its end and keeps the invariant, and so
  does every answer of the lower device, honest or failed, at once or late.
\<close>

subsection \<open>Answers\<close>

text \<open>The lower device answers a read with the bytes it holds, or with a failure.\<close>

definition answers :: "contents \<Rightarrow> lower_irp \<Rightarrow> answer \<Rightarrow> bool" where
  "answers c lo a \<longleftrightarrow> honest c lo a \<or> \<not> NT_SUCCESS (an_Status a) \<and> answer_fits lo a"

definition reads_or_fails :: "'d lower_driver \<Rightarrow> ('d \<Rightarrow> contents) \<Rightarrow> bool" where
  "reads_or_fails L C \<longleftrightarrow>
     (\<forall>lo d. lo_MajorFunction lo = IRP_MJ_READ \<longrightarrow>
        (case fst (lw_read L lo d) of None \<Rightarrow> True | Some a \<Rightarrow> answers (C d) lo a) \<and>
        C (snd (lw_read L lo d)) = C d) \<and>
     (\<forall>i d. ir_MajorFunction i = IRP_MJ_READ \<longrightarrow> C (snd (lw_pass L i d)) = C d)"

lemma answers_fits: "answers c lo a \<Longrightarrow> answer_fits lo a"
  by (auto simp: answers_def honest_fits)

subsection \<open>A split read beside other threads\<close>

text \<open>
  \<open>safe\<close> are the positions that may still be read, \<open>good p\<close> the bytes that may be returned for
  position \<open>p\<close>, \<open>todo\<close> the bytes no lower request was built for yet.
\<close>

definition aims :: "SCATTERED_IRP \<Rightarrow> lower_irp \<Rightarrow> bool" where
  "aims sc lo \<longleftrightarrow> lo_MajorFunction lo = IRP_MJ_READ \<and>
     (case lo_Target lo of
        OriginalMdl t \<Rightarrow> sint (lo_ByteOffset lo) = sint (ir_ByteOffset (sc_OriginalIrp sc)) + int t
      | _ \<Rightarrow> False)"

lemma aims_cong:
  "ir_ByteOffset (sc_OriginalIrp sc') = ir_ByteOffset (sc_OriginalIrp sc) \<Longrightarrow> aims sc' = aims sc"
  by (auto simp: aims_def fun_eq_iff split: target.split)

definition split_ok ::
  "(int \<Rightarrow> bool) \<Rightarrow> (int \<Rightarrow> byte \<Rightarrow> bool) \<Rightarrow> (nat \<Rightarrow> bool) \<Rightarrow> SCATTERED_IRP \<Rightarrow> bool" where
  "split_ok safe good todo sc \<longleftrightarrow>
     (let i = sc_OriginalIrp sc; A = sint (ir_ByteOffset i) in
      \<not> sc_CopyBack sc \<and> \<not> has_flag (sc_OriginalFlags sc) DO_BUFFERED_IO \<and>
      list_all (aims sc) (sc_Outstanding sc) \<and>
      (\<forall>k<unat (ir_Length i). todo k \<or> list_ex (\<lambda>lo. hits lo k) (sc_Outstanding sc) \<longrightarrow> safe (A + int k)) \<and>
      (NT_SUCCESS (sc_LastFailedStatus sc) \<longrightarrow>
         (\<forall>k<unat (ir_Length i). good (A + int k) (ir_Buffer i ! k) \<or> todo k \<or>
            list_ex (\<lambda>lo. hits lo k) (sc_Outstanding sc))))"

lemma split_ok_mono:
  assumes "split_ok safe good todo sc" "\<And>p. safe p \<Longrightarrow> safe' p" "\<And>p v. good p v \<Longrightarrow> good' p v"
  shows "split_ok safe' good' todo sc"
  using assms unfolding split_ok_def Let_def by blast

lemma split_ok_todo:
  assumes "split_ok safe good todo sc"
    and "\<And>k. k < unat (ir_Length (sc_OriginalIrp sc)) \<Longrightarrow> todo k \<longleftrightarrow> todo' k"
  shows "split_ok safe good todo' sc"
  using assms unfolding split_ok_def Let_def by blast

lemma list_ex_remove1_D: "list_ex P (remove1 x xs) \<Longrightarrow> list_ex P xs"
  by (auto simp: list_ex_iff dest: subsetD [OF set_remove1_subset])

text \<open>One answer, honest or failed, at once or late.\<close>

lemma split_answer:
  assumes "scatter_wf held sc" "split_ok safe good todo sc" "lo \<in> set (sc_Outstanding sc)"
    and "answers c lo a" "\<And>p. safe p \<Longrightarrow> good p (c p)"
  obtains b sc' where "lower_done lo a sc = Some sc'" "scatter_wf held sc'" "split_ok safe good todo sc'"
    "sc_Outstanding sc' = remove1 lo (sc_Outstanding sc)" "claimed sc' \<le> claimed sc"
    "sc_OriginalIrp sc' = (sc_OriginalIrp sc)\<lparr>ir_Buffer := b\<rparr>"
proof -
  let ?i = "sc_OriginalIrp sc" and ?los = "remove1 lo (sc_Outstanding sc)" and ?n = "unat (lo_Length lo)"
  let ?A = "sint (ir_ByteOffset ?i)" and ?len = "unat (ir_Length ?i)"
  from assms(2,3) have al: "aims sc lo" by (auto simp: split_ok_def Let_def list_all_iff)
  then obtain t where t: "lo_Target lo = OriginalMdl t" "sint (lo_ByteOffset lo) = ?A + int t"
    by (auto simp: aims_def split: target.splits)
  from lower_done_wf [OF assms(1,3) answers_fits [OF assms(4)]] obtain sc' where
    s: "lower_done lo a sc = Some sc'" "scatter_wf held sc'" "sc_Outstanding sc' = ?los" "claimed sc' \<le> claimed sc"
    "sc_LastFailedStatus sc' = (if NT_SUCCESS (an_Status a) then sc_LastFailedStatus sc else an_Status a)"
    by blast
  from s(1) t(1) obtain b where
    b: "RtlCopyMemory (ir_Buffer ?i) t (an_Data a) 0 (length (an_Data a)) = Some b"
    and sc': "sc' = drop_count ((IrpCompletionRoutine a (sc\<lparr>sc_OriginalIrp := ?i\<lparr>ir_Buffer := b\<rparr>\<rparr>))
        \<lparr>sc_Outstanding := ?los\<rparr>)"
    by (auto simp: lower_done_def deliver_def Let_def bind_eq_Some_conv)
  have irp: "sc_OriginalIrp sc' = ?i\<lparr>ir_Buffer := b\<rparr>" by (simp add: sc')
  have flags: "sc_CopyBack sc' = sc_CopyBack sc" "sc_OriginalFlags sc' = sc_OriginalFlags sc"
    using lower_done_flags [OF s(1)] by (simp_all add: sc')
  have len: "length (ir_Buffer ?i) = ?len"
    using assms(1) by (simp add: scatter_wf_def scatter_buffers_def Let_def)
  have byte: "good (?A + int k) (b ! k) \<or> todo k \<or> list_ex (\<lambda>lo. hits lo k) ?los"
    if k: "k < ?len" and ok: "NT_SUCCESS (sc_LastFailedStatus sc')" for k
  proof -
    from ok s(5) have succ: "NT_SUCCESS (an_Status a)" "NT_SUCCESS (sc_LastFailedStatus sc)"
      by (auto split: if_splits)
    with assms(4) have h: "honest c lo a" by (simp add: answers_def)
    then have data: "length (an_Data a) = ?n" "\<And>j. j < ?n \<Longrightarrow> an_Data a ! j = c (?A + int (t + j))"
      by (simp_all add: honest_def t(2) add.assoc)
    have bk: "b ! k = (if hits lo k then c (?A + int k) else ir_Buffer ?i ! k)"
      using copy_memory_nth [OF b, of k] k len data(2) [of "k - t"] by (auto simp: hits_def t(1) data(1))
    have "good (?A + int k) (ir_Buffer ?i ! k) \<or> todo k \<or> list_ex (\<lambda>lo. hits lo k) (sc_Outstanding sc)"
      using assms(2) succ(2) k unfolding split_ok_def Let_def by blast
    moreover have "safe (?A + int k)" if "hits lo k"
      using assms(2,3) that k unfolding split_ok_def Let_def list_ex_iff by blast
    moreover have "hits lo k \<or> list_ex (\<lambda>lo. hits lo k) ?los" if "list_ex (\<lambda>lo. hits lo k) (sc_Outstanding sc)"
      using list_ex_remove1 [OF that] .
    ultimately show ?thesis using bk assms(5) [of "?A + int k"] by auto
  qed
  have "aims sc' = aims sc" by (rule aims_cong) (simp add: irp)
  with assms(2) byte have "split_ok safe good todo sc'"
    by (auto simp: flags s(3) split_ok_def Let_def list_all_iff irp
        dest: subsetD [OF set_remove1_subset] list_ex_remove1_D)
  with s irp that show thesis by blast
qed

text \<open>Building the request for a run, on a direct-I/O device.\<close>

lemma split_build:
  assumes "scatter_wf (Suc 0) sc" "split_ok safe good todo sc" "has_flag flags DO_DIRECT_IO"
    and "length (sc_Outstanding sc) < 8388608"
    and "claimed sc + unat bytes \<le> unat (ir_Length (sc_OriginalIrp sc))"
    and "unat off + unat bytes \<le> unat (ir_Length (sc_OriginalIrp sc))"
    and "sint loff = sint (ir_ByteOffset (sc_OriginalIrp sc)) + int (unat off)"
    and "\<And>k. unat off \<le> k \<Longrightarrow> k < unat off + unat bytes \<Longrightarrow> todo k"
  obtains (fail) sc1 where "BuildIrp b IRP_MJ_READ flags off bytes loff sc = Some (None, sc1)"
      "scatter_wf (Suc 0) sc1" "split_ok safe good (\<lambda>_. False) sc1" "sc_OriginalIrp sc1 = sc_OriginalIrp sc"
  | (built) lo sc1 where "BuildIrp b IRP_MJ_READ flags off bytes loff sc = Some (Some lo, sc1)"
      "scatter_wf (Suc 0) sc1" "sc_OriginalIrp sc1 = sc_OriginalIrp sc"
      "split_ok safe good (\<lambda>k. todo k \<and> \<not> (unat off \<le> k \<and> k < unat off + unat bytes)) sc1"
      "sc_Outstanding sc1 = sc_Outstanding sc @ [lo]" "claimed sc1 = claimed sc + unat bytes"
      "lo_MajorFunction lo = IRP_MJ_READ"
proof -
  have nb: "\<not> has_flag (sc_OriginalFlags sc) DO_BUFFERED_IO" using assms(2) by (simp add: split_ok_def Let_def)
  have "BuildIrp b IRP_MJ_READ flags off bytes loff sc = Some (build_failed sc)
    \<or> BuildIrp b IRP_MJ_READ flags off bytes loff sc = Some (build_done IRP_MJ_READ bytes loff (OriginalMdl (unat off)) sc)"
    using nb assms(3) by (cases "irp_alloc b"; cases "partial_mdl_alloc b") (simp_all add: BuildIrp_def)
  then show thesis
  proof (elim disjE, goal_cases)
    case 1
    obtain r sc1 where e: "build_failed sc = (r, sc1)" by fastforce
    note w = build_failed_wf [OF assms(1) e]
    have fl: "sc_CopyBack sc1 = sc_CopyBack sc" "sc_OriginalFlags sc1 = sc_OriginalFlags sc"
      using e by (auto simp: build_failed_def)
    have "aims sc1 = aims sc" by (rule aims_cong) (simp add: w)
    with assms(2) have "split_ok safe good (\<lambda>_. False) sc1"
      by (auto simp: split_ok_def Let_def w fl list_all_iff)
    with 1 e w show thesis by (intro fail [of sc1]) simp_all
  next
    case 2
    obtain r sc1 where e: "build_done IRP_MJ_READ bytes loff (OriginalMdl (unat off)) sc = (r, sc1)" by fastforce
    have len: "length (ir_Buffer (sc_OriginalIrp sc)) = unat (ir_Length (sc_OriginalIrp sc))"
      using assms(1) by (simp add: scatter_wf_def scatter_buffers_def Let_def)
    have "fits sc \<lparr>lo_MajorFunction = IRP_MJ_READ, lo_ByteOffset = loff, lo_Length = bytes,
        lo_Target = OriginalMdl (unat off), lo_Flags = lower_flags IRP_MJ_READ\<rparr>"
      using assms(6) len by (simp add: fits_def)
    note w = build_done_wf [OF assms(1,4,5) this e]
    from w(3) obtain lo where lo: "r = Some lo" "sc_Outstanding sc1 = sc_Outstanding sc @ [lo]"
      "lo_Length lo = bytes" "lo_ByteOffset lo = loff" "lo_MajorFunction lo = IRP_MJ_READ"
      "lo_Target lo = OriginalMdl (unat off)"
      by blast
    have h: "hits lo k \<longleftrightarrow> unat off \<le> k \<and> k < unat off + unat bytes" for k
      by (simp add: hits_def lo)
    have "aims sc1 = aims sc" by (rule aims_cong) (simp add: w)
    moreover have "aims sc lo" using assms(7) by (simp add: aims_def lo)
    ultimately have "split_ok safe good (\<lambda>k. todo k \<and> \<not> (unat off \<le> k \<and> k < unat off + unat bytes)) sc1"
      using assms(2,8) by (auto simp: split_ok_def Let_def w lo(2) h list_all_iff)
    with 2 e w lo show thesis by (intro built [of lo sc1]) simp_all
  qed
qed

text \<open>The end: a request completed successfully holds good bytes only.\<close>

lemma split_result:
  assumes "split_ok safe good (\<lambda>_. False) sc" "sc_Outstanding sc = []"
  obtains i where "scatter_result sc = Some i" "ir_ByteOffset i = ir_ByteOffset (sc_OriginalIrp sc)"
    "ir_Length i = ir_Length (sc_OriginalIrp sc)" "ir_id i = ir_id (sc_OriginalIrp sc)"
    "\<And>k. NT_SUCCESS (ir_Status i) \<Longrightarrow> k < unat (ir_Length i) \<Longrightarrow>
       good (sint (ir_ByteOffset i) + int k) (ir_Buffer i ! k)"
proof -
  have cb: "\<not> sc_CopyBack sc" using assms(1) by (simp add: split_ok_def Let_def)
  let ?j = "(sc_OriginalIrp sc)\<lparr>ir_Status := sc_LastFailedStatus sc,
      ir_Information := if NT_SUCCESS (sc_LastFailedStatus sc) then sc_BytesCompleted sc else 0\<rparr>"
  show thesis
  proof (rule that [of ?j])
    show "scatter_result sc = Some ?j" using cb by (simp add: scatter_result_def copy_back_def)
  qed (use assms in \<open>simp_all add: split_ok_def Let_def\<close>)
qed

subsection \<open>The phases\<close>

definition asks :: "'d lower_driver \<Rightarrow> env \<Rightarrow> irp \<Rightarrow> bool" where
  "asks L e i \<longleftrightarrow> wf_transfer i \<and> direct_io L e \<and> ir_MajorFunction i = IRP_MJ_READ"

definition bytes_ok :: "(int \<Rightarrow> byte \<Rightarrow> bool) \<Rightarrow> irp \<Rightarrow> bool" where
  "bytes_ok good i \<longleftrightarrow>
     (\<forall>k<unat (ir_Length i). good (sint (ir_ByteOffset i) + int k) (ir_Buffer i ! k))"

definition phase_ok ::
  "'d lower_driver \<Rightarrow> (int \<Rightarrow> bool) \<Rightarrow> (int \<Rightarrow> byte \<Rightarrow> bool) \<Rightarrow> reader \<Rightarrow> bool" where
  "phase_ok L safe good r \<longleftrightarrow>
     (case r of
        REnter e i \<Rightarrow> asks L e i
      | RWalk e i \<Rightarrow> asks L e i \<and> wf_read i \<and> \<not> misaligned i
      | RWalked e i bm any \<Rightarrow> asks L e i \<and> wf_read i \<and> unat (ir_Length i) = 512 * length bm \<and>
          (\<forall>k<unat (ir_Length i).
             if any \<and> bm ! (k div 512) then good (sint (ir_ByteOffset i) + int k) (ir_Buffer i ! k)
             else safe (sint (ir_ByteOffset i) + int k))
      | RGap e bm off ci cb n sc \<Rightarrow>
          has_flag (lw_flags L) DO_DIRECT_IO \<and> off = ir_ByteOffset (sc_OriginalIrp sc) \<and>
          wf_extent off (ir_Length (sc_OriginalIrp sc)) \<and>
          unat (ir_Length (sc_OriginalIrp sc)) = 512 * length bm \<and>
          scatter_wf (Suc 0) sc \<and> claimed sc \<le> 512 * ci \<and> length (sc_Outstanding sc) \<le> ci \<and>
          (\<exists>k0. clear_run_at bm k0 cb ci) \<and> 0 < cb \<and>
          split_ok safe good (\<lambda>k. \<not> bm ! (k div 512) \<and> ci \<le> k div 512) sc
      | RLeave n sc \<Rightarrow> scatter_wf (Suc 0) sc \<and> split_ok safe good (\<lambda>_. False) sc
      | RAwait sc \<Rightarrow> scatter_wf 0 sc \<and> sc_Outstanding sc \<noteq> [] \<and> split_ok safe good (\<lambda>_. False) sc
      | RDown i \<Rightarrow> (\<forall>k<unat (ir_Length i). safe (sint (ir_ByteOffset i) + int k))
      | RDone i \<Rightarrow> NT_SUCCESS (ir_Status i) \<longrightarrow> bytes_ok good i)"

lemma phase_ok_sel [simp]:
  "phase_ok L safe good (REnter e i) = asks L e i"
  "phase_ok L safe good (RWalk e i) = (asks L e i \<and> wf_read i \<and> \<not> misaligned i)"
  "phase_ok L safe good (RLeave n sc) = (scatter_wf (Suc 0) sc \<and> split_ok safe good (\<lambda>_. False) sc)"
  "phase_ok L safe good (RAwait sc) =
     (scatter_wf 0 sc \<and> sc_Outstanding sc \<noteq> [] \<and> split_ok safe good (\<lambda>_. False) sc)"
  "phase_ok L safe good (RDown i) = (\<forall>k<unat (ir_Length i). safe (sint (ir_ByteOffset i) + int k))"
  "phase_ok L safe good (RDone i) = (NT_SUCCESS (ir_Status i) \<longrightarrow> bytes_ok good i)"
  by (simp_all add: phase_ok_def)

lemma phase_ok_mono:
  assumes "phase_ok L safe good r" "\<And>p. safe p \<Longrightarrow> safe' p" "\<And>p v. good p v \<Longrightarrow> good' p v"
  shows "phase_ok L safe' good' r"
proof -
  have "bytes_ok good i \<Longrightarrow> bytes_ok good' i" for i using assms(3) by (simp add: bytes_ok_def)
  moreover have "split_ok safe good todo sc \<Longrightarrow> split_ok safe' good' todo sc" for todo sc
    by (erule split_ok_mono) (use assms(2,3) in auto)
  ultimately show ?thesis
    using assms by (cases r) (auto simp: phase_ok_def)
qed

text \<open>The request a reader works on, and how many steps of its own it still has to take at most.\<close>

definition reader_irp :: "reader \<Rightarrow> irp" where
  "reader_irp r =
     (case r of REnter e i \<Rightarrow> i | RWalk e i \<Rightarrow> i | RWalked e i bm any \<Rightarrow> i
      | RGap e bm off ci cb n sc \<Rightarrow> sc_OriginalIrp sc | RLeave n sc \<Rightarrow> sc_OriginalIrp sc
      | RAwait sc \<Rightarrow> sc_OriginalIrp sc | RDown i \<Rightarrow> i | RDone i \<Rightarrow> i)"

definition same_request :: "irp \<Rightarrow> irp \<Rightarrow> bool" where
  "same_request i j \<longleftrightarrow> ir_id j = ir_id i \<and> ir_ByteOffset j = ir_ByteOffset i \<and> ir_Length j = ir_Length i"

definition steps_left :: "reader \<Rightarrow> nat" where
  "steps_left r =
     (case r of REnter e i \<Rightarrow> 5 + bitmap_bits (ir_Length i) | RWalk e i \<Rightarrow> 4 + bitmap_bits (ir_Length i)
      | RWalked e i bm any \<Rightarrow> 3 + length bm | RGap e bm off ci cb n sc \<Rightarrow> 1 + (length bm - ci)
      | RLeave n sc \<Rightarrow> 1 | _ \<Rightarrow> 0)"

lemma reader_simps [simp]:
  "reader_irp (REnter e i) = i" "reader_irp (RWalk e i) = i" "reader_irp (RWalked e i bm any) = i"
  "reader_irp (RGap e bm off ci cb n sc) = sc_OriginalIrp sc"
  "reader_irp (RLeave n sc) = sc_OriginalIrp sc" "reader_irp (RAwait sc) = sc_OriginalIrp sc"
  "reader_irp (RDown i) = i" "reader_irp (RDone i) = i"
  "steps_left (REnter e i) = 5 + bitmap_bits (ir_Length i)"
  "steps_left (RWalk e i) = 4 + bitmap_bits (ir_Length i)"
  "steps_left (RWalked e i bm any) = 3 + length bm"
  "steps_left (RGap e bm off ci cb n sc) = 1 + (length bm - ci)"
  "steps_left (RLeave n sc) = 1" "steps_left (RAwait sc) = 0" "steps_left (RDown i) = 0"
  "steps_left (RDone i) = 0"
  by (simp_all add: reader_irp_def steps_left_def)

text \<open>A reader's own step: it succeeds, and queue and contents stay.\<close>

definition stepped ::
  "'d lower_driver \<Rightarrow> ('d \<Rightarrow> contents) \<Rightarrow> (int \<Rightarrow> bool) \<Rightarrow> (int \<Rightarrow> byte \<Rightarrow> bool) \<Rightarrow> reader \<Rightarrow> 'd world
   \<Rightarrow> (reader \<times> 'd world) option \<Rightarrow> bool" where
  "stepped L C safe good r w x \<longleftrightarrow>
     (case x of None \<Rightarrow> False
      | Some (r', w') \<Rightarrow> phase_ok L safe good r' \<and> queue w' = queue w \<and> C (lower w') = C (lower w) \<and>
          Size (stats w') = Size (stats w) \<and> steps_left r' < steps_left r \<and>
          same_request (reader_irp r) (reader_irp r'))"

lemma release_stepped:
  assumes "scatter_wf 0 sc" "split_ok safe good (\<lambda>_. False) sc" "0 < steps_left r"
    and "same_request (reader_irp r) (sc_OriginalIrp sc)"
  shows "stepped L C safe good r w (release sc w)"
proof (cases "sc_Outstanding sc = []")
  case True
  from split_result [OF assms(2) True] obtain i where
    i: "scatter_result sc = Some i" "ir_ByteOffset i = ir_ByteOffset (sc_OriginalIrp sc)"
    "ir_Length i = ir_Length (sc_OriginalIrp sc)" "ir_id i = ir_id (sc_OriginalIrp sc)"
    "\<And>k. NT_SUCCESS (ir_Status i) \<Longrightarrow> k < unat (ir_Length i) \<Longrightarrow>
       good (sint (ir_ByteOffset i) + int k) (ir_Buffer i ! k)"
    by blast
  with True assms show ?thesis
    by (simp add: stepped_def release_def scatter_count_zero scatter_destroy_def qc_simps bytes_ok_def
        same_request_def)
next
  case False
  with assms show ?thesis
    by (simp add: stepped_def release_def scatter_count_zero)
qed

lemma split_ok_drop: "split_ok safe good todo sc \<Longrightarrow> split_ok safe good todo (drop_count sc)"
proof -
  have "aims (drop_count sc) = aims sc" by (rule aims_cong) simp
  then show "split_ok safe good todo sc \<Longrightarrow> split_ok safe good todo (drop_count sc)"
    by (simp add: split_ok_def drop_count_def)
qed

lemma stepped_world:
  "stepped L C safe good r w x \<Longrightarrow> queue w = queue w' \<Longrightarrow> C (lower w) = C (lower w') \<Longrightarrow>
   Size (stats w) = Size (stats w') \<Longrightarrow> stepped L C safe good r w' x"
  by (auto simp: stepped_def split: option.splits prod.splits)

lemma leave_stepped:
  assumes "phase_ok L safe good (RLeave n sc)"
  shows "stepped L C safe good (RLeave n sc) w (read_leave n sc w)"
proof -
  let ?w = "if 1 < n then upd_stats (\<lambda>s. s\<lparr>SplitReads := SplitReads s + of_nat n\<rparr>) w else w"
  have "stepped L C safe good (RLeave n sc) ?w (release (drop_count sc) ?w)"
    using assms by (intro release_stepped) (simp_all add: drop_creator split_ok_drop same_request_def)
  then show ?thesis
    unfolding read_leave_def by (rule stepped_world) (simp_all add: upd_stats_def)
qed

text \<open>One turn of the loop.\<close>

lemma gap_stepped:
  assumes "clear_runs api" "reads_or_fails L C"
    and "phase_ok L safe good (RGap e bm off ci cb n sc)" "\<And>p. safe p \<Longrightarrow> good p (C (lower w) p)"
  shows "stepped L C safe good (RGap e bm off ci cb n sc) w (read_gap L e api bm off ci cb n sc w)"
proof -
  let ?i = "sc_OriginalIrp sc" and ?todo = "\<lambda>k. \<not> bm ! (k div 512) \<and> ci \<le> k div 512"
  let ?n = "ir_Length ?i"
  from assms(3) obtain k0 where ph: "has_flag (lw_flags L) DO_DIRECT_IO" "off = ir_ByteOffset ?i"
    "wf_extent off ?n" "unat ?n = 512 * length bm" "scatter_wf (Suc 0) sc" "claimed sc \<le> 512 * ci"
    "length (sc_Outstanding sc) \<le> ci" "clear_run_at bm k0 cb ci" "0 < cb" "split_ok safe good ?todo sc"
    by (auto simp: phase_ok_def)
  have run: "ci + cb \<le> length bm" and clr: "\<And>k. ci \<le> k \<Longrightarrow> k < ci + cb \<Longrightarrow> \<not> bm ! k"
    using ph(8,9) by (simp_all add: clear_run_at_def)
  have small: "512 * ci + 512 * cb \<le> unat ?n"
    using mult_le_mono2 [OF run, of 512] ph(4) by (simp add: distrib_left)
  then have w1: "unat (push_bit 9 (of_nat ci) :: ULONG) = 512 * ci"
    and w2: "unat (push_bit 9 (of_nat cb) :: ULONG) = 512 * cb"
    by (auto intro!: run_words(1) [of _ ?n])
  have lt: "length (sc_Outstanding sc) < 8388608"
    using ph(7,9) small unat_range32 [of ?n] by linarith
  have claim: "claimed sc + unat (push_bit 9 (of_nat cb) :: ULONG) \<le> unat ?n"
    using small ph(6) w2 by linarith
  have inside: "unat (push_bit 9 (of_nat ci) :: ULONG) + unat (push_bit 9 (of_nat cb) :: ULONG) \<le> unat ?n"
    using small w1 w2 by linarith
  have aim: "sint (off + push_bit 9 (of_nat ci)) = sint (ir_ByteOffset ?i) + int (unat (push_bit 9 (of_nat ci) :: ULONG))"
    using run_offset [OF ph(3), of ci] small by (simp add: ph(2) w1)
  have todo: "?todo k" if "unat (push_bit 9 (of_nat ci) :: ULONG) \<le> k"
    "k < unat (push_bit 9 (of_nat ci) :: ULONG) + unat (push_bit 9 (of_nat cb) :: ULONG)" for k
  proof -
    have "ci \<le> k div 512" "k div 512 < ci + cb" using that unfolding w1 w2 by auto
    with clr show ?thesis by simp
  qed
  show ?thesis
  proof (rule split_build [OF ph(5,10,1) lt claim inside aim todo, where b = "build_alloc e n"], assumption,
      assumption, goal_cases)
    case (1 sc1)
    with run ph(9) show ?case by (simp add: stepped_def read_gap_def same_request_def)
  next
    case (2 lo sc1)
    let ?w1 = "upd_stats (\<lambda>s. s\<lparr>ReadBytesFromOriginal :=
                       ReadBytesFromOriginal s + push_bit 9 (of_nat cb)\<rparr>) w"
    let ?later = "\<lambda>k. \<not> bm ! (k div 512) \<and> ci + cb \<le> k div 512"
    have irp: "ir_Length (sc_OriginalIrp sc1) = ?n" using 2(3) by simp
    have s1: "split_ok safe good ?later sc1"
      using 2(4) by (rule split_ok_todo) (auto simp: w1 w2)
    obtain ans d where ad: "lw_read L lo (lower ?w1) = (ans, d)" by fastforce
    have low: "C (lower ?w1) = C (lower w)" by (simp add: upd_stats_def)
    have "(case fst (lw_read L lo (lower ?w1)) of None \<Rightarrow> True | Some a \<Rightarrow> answers (C (lower ?w1)) lo a) \<and>
        C (snd (lw_read L lo (lower ?w1))) = C (lower ?w1)"
      using assms(2) 2(7) unfolding reads_or_fails_def by blast
    then have rd: "case ans of None \<Rightarrow> True | Some a \<Rightarrow> answers (C (lower w)) lo a" "C d = C (lower w)"
      unfolding ad fst_conv snd_conv low by simp_all
    have "\<exists>sc2. answered lo ans sc1 = Some sc2 \<and> scatter_wf (Suc 0) sc2 \<and> split_ok safe good ?later sc2 \<and>
        claimed sc2 \<le> claimed sc1 \<and> length (sc_Outstanding sc2) \<le> Suc (length (sc_Outstanding sc)) \<and>
        same_request ?i (sc_OriginalIrp sc2)"
    proof (cases ans)
      case None
      with 2 s1 show ?thesis by (simp add: answered_def same_request_def)
    next
      case (Some a)
      with rd(1) have a: "answers (C (lower w)) lo a" by simp
      have mem: "lo \<in> set (sc_Outstanding sc1)" by (simp add: 2(5))
      from split_answer [OF 2(2) s1 mem a assms(4)] obtain b sc2 where
        s2: "lower_done lo a sc1 = Some sc2" "scatter_wf (Suc 0) sc2" "split_ok safe good ?later sc2"
        "sc_Outstanding sc2 = remove1 lo (sc_Outstanding sc1)" "claimed sc2 \<le> claimed sc1"
        "sc_OriginalIrp sc2 = (sc_OriginalIrp sc1)\<lparr>ir_Buffer := b\<rparr>"
        by blast
      with Some scatter_count_held [OF s2(2)] 2(3,5) mem show ?thesis
        by (simp add: answered_def length_remove1 same_request_def)
    qed
    then obtain sc2 where s2: "answered lo ans sc1 = Some sc2" "scatter_wf (Suc 0) sc2"
      "split_ok safe good ?later sc2" "claimed sc2 \<le> claimed sc1"
      "length (sc_Outstanding sc2) \<le> Suc (length (sc_Outstanding sc))" "same_request ?i (sc_OriginalIrp sc2)"
      by blast
    obtain cb' ci' where nx: "RtlFindNextForwardRunClear api bm (ci + cb) = (cb', ci')" by fastforce
    have run': "clear_run_at bm (ci + cb) cb' ci'" using assms(1) nx by (rule clear_runs.next_run)
    have go: "read_gap L e api bm off ci cb n sc w =
        Some (if 0 < cb' then RGap e bm off ci' cb' (Suc n) sc2 else RLeave (Suc n) sc2, ?w1\<lparr>lower := d\<rparr>)"
      using 2(1) ad s2(1) nx by (simp add: read_gap_def Let_def)
    have world: "queue (?w1\<lparr>lower := d\<rparr>) = queue w" "C (lower (?w1\<lparr>lower := d\<rparr>)) = C (lower w)"
      "Size (stats (?w1\<lparr>lower := d\<rparr>)) = Size (stats w)"
      using rd(2) by (simp_all add: upd_stats_def)
    show ?case
    proof (cases "0 < cb'")
      case False
      have "split_ok safe good (\<lambda>_. False) sc2"
        using s2(3)
      proof (rule split_ok_todo)
        fix k assume "k < unat (ir_Length (sc_OriginalIrp sc2))"
        then have "k div 512 < length bm" using s2(6) ph(4) by (simp add: same_request_def)
        with False run' show "?later k \<longleftrightarrow> False" by (auto simp: clear_run_at_def)
      qed
      with False s2 world run ph(9) show ?thesis
        unfolding go stepped_def by simp
    next
      case True
      have ge: "ci + cb < ci'" "ci' < length bm"
        using clear_runs.next_progress [OF assms(1) ph(8,9) nx True] True by simp_all
      have set: "bm ! k" if "ci + cb \<le> k" "k < ci'" for k
        using run' that True by (simp add: clear_run_at_def)
      have sp: "split_ok safe good (\<lambda>k. \<not> bm ! (k div 512) \<and> ci' \<le> k div 512) sc2"
        using s2(3) by (rule split_ok_todo) (use set ge in \<open>auto simp: not_le [symmetric]\<close>)
      have cl: "claimed sc2 \<le> 512 * ci'" using s2(4) 2(6) ph(6) w2 ge by linarith
      have le: "length (sc_Outstanding sc2) \<le> ci'" using s2(5) ph(7,9) ge by linarith
      have "phase_ok L safe good (RGap e bm off ci' cb' (Suc n) sc2)"
        using True s2(2,6) ph sp cl le run' by (auto simp: phase_ok_def same_request_def)
      moreover have "steps_left (RGap e bm off ci' cb' (Suc n) sc2) < steps_left (RGap e bm off ci cb n sc)"
        using ge by simp
      ultimately show ?thesis
        using True s2(6) world unfolding go stepped_def by simp
    qed
  qed
qed

text \<open>The steps before the loop.\<close>

lemma enter_stepped:
  assumes "Size (stats w) \<noteq> 0" "asks L e i"
  shows "stepped L C safe good (REnter e i) w (Some (read_enter L e i w))"
proof -
  let ?i = "i\<lparr>ir_Information := 0\<rparr>"
  have w: "queue (note_read_size ?i (count_read ?i w)) = queue w" "lower (note_read_size ?i (count_read ?i w)) = lower w"
    by simp_all
  have "wf_read ?i" if "\<not> beyond_media (stats (note_read_size ?i (count_read ?i w))) ?i"
    using within_media(1) [OF that] assms(2) by (simp add: wf_read_def asks_def wf_transfer_def)
  with assms show ?thesis
    by (auto simp: stepped_def read_enter_def Let_def complete_with_def QCacheIgnore_def same_request_def
        IoCompleteRequest_def asks_def wf_transfer_def misaligned_def bytes_ok_def)
qed

lemma locked_stepped:
  assumes "list_all item_ok (queue w)" "\<And>p. view C w p \<in> seen p"
    and "asks L e i" "wf_read i" "\<not> misaligned i"
  defines "good \<equiv> \<lambda>p v. v \<in> seen p" and "safe \<equiv> safe_at C w seen"
  shows "stepped L C safe good (RWalk e i) w (read_locked e i w)"
proof -
  note ph = assms(3-5)
  from walk_at_work [OF ph(2,3) assms(1)] obtain b where
    b: "walk_queue i (queue w) (walk_start i w) = Some b" "length (rw_Buffer b) = unat (ir_Length i)"
    "unat (ir_Length i) = 512 * length (rw_Bitmap b)"
    and buf: "\<And>k. k < unat (ir_Length i) \<Longrightarrow> rw_Bitmap b ! (k div 512) \<Longrightarrow>
       rw_Buffer b ! k = overlay (queue w) (C (lower w)) (sint (ir_ByteOffset i) + int k)"
    and clr: "\<And>k. k < unat (ir_Length i) \<Longrightarrow> \<not> rw_Any b \<or> \<not> rw_Bitmap b ! (k div 512) \<Longrightarrow>
       \<not> covered (queue w) (sint (ir_ByteOffset i) + int k)"
    by metis
  let ?i = "i\<lparr>ir_Buffer := rw_Buffer b\<rparr>"
  have "asks L e ?i" "wf_read ?i"
    using ph b(2) by (simp_all add: asks_def wf_read_def wf_transfer_def)
  moreover have "if rw_Any b \<and> rw_Bitmap b ! (k div 512)
      then good (sint (ir_ByteOffset i) + int k) (rw_Buffer b ! k) else safe (sint (ir_ByteOffset i) + int k)"
    if k: "k < unat (ir_Length i)" for k
    using buf [OF k] clr [OF k] assms(2) uncovered_safe [OF assms(1), of _ C seen]
    by (auto simp: good_def safe_def view_def)
  ultimately have "phase_ok L safe good (RWalked e ?i (rw_Bitmap b) (rw_Any b))"
    using b(3) by (simp add: phase_ok_def)
  moreover have "length (rw_Bitmap b) = bitmap_bits (ir_Length i)"
    using walk_bitmap_length [OF b(1)] by (simp add: walk_start_def)
  moreover obtain x y where "rw_Stats b = (stats w)\<lparr>ReadRequestsFromCache := x, ReadBytesFromCache := y\<rparr>"
    using walk_stats [OF b(1)] by (auto simp: walk_start_def)
  ultimately show ?thesis
    by (simp add: stepped_def read_locked_def b(1) same_request_def upd_stats_def)
qed

lemma create_direct:
  assumes "SCATTERED_IRP_Create e (device_flags e) i
             (if has_flag (device_flags e) DO_BUFFERED_IO then AssociatedBuffer else NoBuffer) w = (st, o1, w1)"
  shows "queue w1 = queue w" "lower w1 = lower w" "stats w1 = stats w" "o1 = None \<Longrightarrow> \<not> NT_SUCCESS st"
  using assms by (auto simp: SCATTERED_IRP_Create_def Let_def qc_simps split: if_splits)

lemma decide_stepped:
  assumes "clear_runs api" "reads_or_fails L C"
    and "phase_ok L safe good (RWalked e i bm any)" "\<And>p. safe p \<Longrightarrow> good p (C (lower w) p)"
  shows "stepped L C safe good (RWalked e i bm any) w (Some (read_decide L e api i bm any w))"
proof -
  from assms(3) have ph: "wf_transfer i" "direct_io L e" "ir_MajorFunction i = IRP_MJ_READ"
    "wf_extent (ir_ByteOffset i) (ir_Length i)" "unat (ir_Length i) = 512 * length bm"
    and ok: "\<And>k. k < unat (ir_Length i) \<Longrightarrow>
       if any \<and> bm ! (k div 512) then good (sint (ir_ByteOffset i) + int k) (ir_Buffer i ! k)
       else safe (sint (ir_ByteOffset i) + int k)"
    by (simp_all add: phase_ok_def asks_def wf_read_def)
  obtain cb ci where f: "RtlFindFirstRunClear api bm = (cb, ci)" by fastforce
  have run: "clear_run_at bm 0 cb ci" using assms(1) f by (rule clear_runs.first_run)
  obtain st o1 w1 where c: "SCATTERED_IRP_Create e (device_flags e) i
      (if has_flag (device_flags e) DO_BUFFERED_IO then AssociatedBuffer else NoBuffer) w = (st, o1, w1)"
    by (metis prod_cases3)
  consider (pass) "\<not> any" | (all) "any" "cb = 0" | (failed) "any" "0 < cb" "o1 = None"
    | (gaps) sc where "any" "0 < cb" "o1 = Some sc" by blast
  then show ?thesis
  proof cases
    case pass
    let ?w = "upd_stats (\<lambda>s. s\<lparr>
                ReadRequestsReroutedToOriginal := ReadRequestsReroutedToOriginal s + 1,
                ReadBytesReroutedToOriginal :=
                  ReadBytesReroutedToOriginal s + ucast (ir_Length i)\<rparr>) w"
    obtain x d where p: "lw_pass L i (lower w) = (x, d)" by fastforce
    have lw: "lower ?w = lower w" by (simp add: upd_stats_def)
    have "C (snd (lw_pass L i (lower w))) = C (lower w)"
      using assms(2) ph(3) unfolding reads_or_fails_def by blast
    then have "C d = C (lower w)" by (simp add: p)
    with pass ok p lw show ?thesis
      by (simp add: stepped_def read_decide_def same_request_def QCacheSendToNextDriver_def)
        (simp add: upd_stats_def)
  next
    case all
    have "bm ! (k div 512)" if "k < unat (ir_Length i)" for k
      using that ph(5) all(2) run by (simp add: clear_run_at_def)
    with ok all(1) have "bytes_ok good i" by (simp add: bytes_ok_def)
    with all f show ?thesis
      by (simp add: stepped_def read_decide_def same_request_def complete_with_def IoCompleteRequest_def bytes_ok_def)
  next
    case failed
    with f c create_direct [OF c] show ?thesis
      by (simp add: stepped_def read_decide_def same_request_def complete_with_def IoCompleteRequest_def)
  next
    case gaps
    have wb: "wf_buffers e i" using ph(1,2) by (simp add: wf_buffers_def direct_io_def)
    note cw = read_mixed_create [OF c [unfolded gaps(3)] wb]
    have below: "bm ! k" if "k < ci" for k using run gaps(2) that by (simp add: clear_run_at_def)
    have "split_ok safe good (\<lambda>k. \<not> bm ! (k div 512) \<and> ci \<le> k div 512) sc"
    proof -
      have "(\<not> bm ! (k div 512) \<longrightarrow> safe (sint (ir_ByteOffset i) + int k)) \<and>
          (good (sint (ir_ByteOffset i) + int k) (ir_Buffer i ! k) \<or> \<not> bm ! (k div 512) \<and> ci \<le> k div 512)"
        if "k < unat (ir_Length i)" for k
        using ok [OF that] gaps(1) below [of "k div 512"] by (cases "bm ! (k div 512)") (auto simp: not_le [symmetric])
      with cw ph(2) show ?thesis by (simp add: split_ok_def Let_def direct_io_def)
    qed
    then have "phase_ok L safe good (RGap e bm (ir_ByteOffset i) ci cb 0 sc)"
      using ph cw run gaps(2) by (auto simp: phase_ok_def direct_io_def)
    with gaps f c cw create_direct [OF c] show ?thesis
      by (simp add: stepped_def read_decide_def same_request_def)
  qed
qed

text \<open>Every step a reader takes itself.\<close>

lemma read_stepped:
  assumes "clear_runs api" "reads_or_fails L C" "list_all item_ok (queue w)" "Size (stats w) \<noteq> 0"
    and "\<And>p. view C w p \<in> seen p" "\<not> at_rest r"
    and "phase_ok L (safe_at C w seen) (\<lambda>p v. v \<in> seen p) r"
  shows "stepped L C (safe_at C w seen) (\<lambda>p v. v \<in> seen p) r w (read_step L api r w)"
proof -
  have low: "C (lower w) p \<in> seen p" if "safe_at C w seen p" for p using that by (simp add: safe_at_def)
  show ?thesis
  proof (cases r)
    case (REnter e i)
    with assms show ?thesis by (simp add: enter_stepped)
  next
    case (RWalk e i)
    with assms show ?thesis using locked_stepped [OF assms(3,5)] by simp
  next
    case (RWalked e i bm any)
    with assms low show ?thesis by (simp add: decide_stepped)
  next
    case (RGap e bm off ci cb n sc)
    with assms low show ?thesis by (simp add: gap_stepped)
  next
    case (RLeave n sc)
    with assms show ?thesis by (simp add: leave_stepped del: phase_ok_sel)
  qed (use assms(6) in simp_all)
qed

text \<open>An answer that comes later.\<close>

lemma answer_stepped:
  fixes L :: "'d lower_driver" and w :: "'d world"
  assumes "phase_ok L safe good r" "lo \<in> set (outstanding r)" "answers (C (lower w)) lo a"
    and "\<And>p. safe p \<Longrightarrow> good p (C (lower w) p)"
  obtains r' w' where "read_answer lo a r w = Some (r', w')" "phase_ok L safe good r'"
    "queue w' = queue w" "lower w' = lower w" "Size (stats w') = Size (stats w)"
    "same_request (reader_irp r) (reader_irp r')" "steps_left r' \<le> steps_left r"
proof (cases r)
  case (RGap e bm off ci cb n sc)
  then have ph: "scatter_wf (Suc 0) sc" "split_ok safe good (\<lambda>k. \<not> bm ! (k div 512) \<and> ci \<le> k div 512) sc"
    and mem: "lo \<in> set (sc_Outstanding sc)"
    using assms(1,2) by (auto simp: phase_ok_def)
  from split_answer [OF ph mem assms(3,4)] obtain b s where
    s: "lower_done lo a sc = Some s" "scatter_wf (Suc 0) s"
    "split_ok safe good (\<lambda>k. \<not> bm ! (k div 512) \<and> ci \<le> k div 512) s"
    "sc_Outstanding s = remove1 lo (sc_Outstanding sc)" "claimed s \<le> claimed sc"
    "sc_OriginalIrp s = (sc_OriginalIrp sc)\<lparr>ir_Buffer := b\<rparr>"
    by blast
  show thesis
  proof (rule that [of "RGap e bm off ci cb n s" w])
    show "read_answer lo a r w = Some (RGap e bm off ci cb n s, w)"
      using RGap s scatter_count_held [OF s(2)] by (simp add: read_answer_def answered_def)
    show "phase_ok L safe good (RGap e bm off ci cb n s)"
      using assms(1) RGap s mem by (auto simp: phase_ok_def length_remove1)
  qed (use RGap s in \<open>simp_all add: same_request_def\<close>)
next
  case (RLeave n sc)
  then have ph: "scatter_wf (Suc 0) sc" "split_ok safe good (\<lambda>_. False) sc" and mem: "lo \<in> set (sc_Outstanding sc)"
    using assms(1,2) by simp_all
  from split_answer [OF ph mem assms(3,4)] obtain b s where
    s: "lower_done lo a sc = Some s" "scatter_wf (Suc 0) s" "split_ok safe good (\<lambda>_. False) s"
    "sc_OriginalIrp s = (sc_OriginalIrp sc)\<lparr>ir_Buffer := b\<rparr>"
    by blast
  show thesis
    by (rule that [of "RLeave n s" w])
      (use RLeave s scatter_count_held [OF s(2)] in \<open>simp_all add: read_answer_def answered_def same_request_def\<close>)
next
  case (RAwait sc)
  then have ph: "scatter_wf 0 sc" "split_ok safe good (\<lambda>_. False) sc" and mem: "lo \<in> set (sc_Outstanding sc)"
    using assms(1,2) by simp_all
  from split_answer [OF ph mem assms(3,4)] obtain b s where
    s: "lower_done lo a sc = Some s" "scatter_wf 0 s" "split_ok safe good (\<lambda>_. False) s"
    "sc_OriginalIrp s = (sc_OriginalIrp sc)\<lparr>ir_Buffer := b\<rparr>"
    by blast
  have "stepped L C safe good (RLeave 0 s) w (release s w)"
    using s by (intro release_stepped) (simp_all add: same_request_def)
  then obtain r' w' where x: "release s w = Some (r', w')" "phase_ok L safe good r'"
    "queue w' = queue w" "Size (stats w') = Size (stats w)" "same_request (sc_OriginalIrp s) (reader_irp r')"
    "steps_left r' < 1"
    by (auto simp: stepped_def split: option.splits)
  moreover have "lower w' = lower w"
    using x(1) by (auto simp: release_def scatter_destroy_def qc_simps bind_eq_Some_conv split: if_splits)
  ultimately show thesis
    using that [of r' w'] RAwait s by (simp add: read_answer_def same_request_def)
qed (use assms(2) in simp_all)

end
