(* ===== verification/QC_Regular.thy ===== *)
theory QC_Regular
  imports QC_ReadSteps
begin

section \<open>Concurrent reads return values the device held\<close>

text \<open>
  Readers, producers and the worker, interleaved. The promise of a read that runs beside writes
  is that of a regular register: each byte it returns is one the logical contents had at some
  moment between its arrival and its completion, or one a forwarded write stored in that time.
  Readers never fault and never wait for another thread.
\<close>

subsection \<open>The system\<close>

text \<open>
  \<open>rd_Request\<close> is the request as it arrived and \<open>rd_Seen\<close> the bytes the logical contents had at
  each position since then, with those a forwarded write stored; both are ghosts.
\<close>

record thread =
  rd_Request :: irp
  rd_Phase :: reader
  rd_Seen :: "int \<Rightarrow> byte set"

record 'd rsystem =
  rs_System :: "'d system"
  rs_Readers :: "thread list"

abbreviation rs_World :: "'d rsystem \<Rightarrow> 'd world" where
  "rs_World s \<equiv> sy_World (rs_System s)"

definition observe :: "('d \<Rightarrow> contents) \<Rightarrow> 'd world \<Rightarrow> 'd world \<Rightarrow> thread \<Rightarrow> thread" where
  "observe C w w' t = t\<lparr>rd_Seen := \<lambda>p. rd_Seen t p \<union> visible C w w' p\<rparr>"

definition with_world :: "'d world \<Rightarrow> 'd rsystem \<Rightarrow> 'd rsystem" where
  "with_world w s = s\<lparr>rs_System := (rs_System s)\<lparr>sy_World := w\<rparr>\<rparr>"

definition set_phase :: "nat \<Rightarrow> reader \<Rightarrow> 'd rsystem \<Rightarrow> 'd rsystem" where
  "set_phase n r s = s\<lparr>rs_Readers := (rs_Readers s)[n := (rs_Readers s ! n)\<lparr>rd_Phase := r\<rparr>]\<rparr>"

text \<open>
  Which requests arrive at the producers is the choice of the file systems above, not of this
  code: \<open>ok\<close> says which do, and every theorem about the system names it. Most of them take
  \<open>fit_request\<close>: a write comes with the buffer of its length, its end does not wrap round
  (\<open>QCacheWrite\<close> checks that) and it covers whole sectors, as every transfer to a disk does.
  \<open>write.cpp\<close> does not check the last: what a shorter write does to a read is in \<open>QC_Sync\<close>.
\<close>

definition fit_request :: "irp \<Rightarrow> bool" where
  "fit_request i \<longleftrightarrow> valid_write i \<and>
     (ir_MajorFunction i = IRP_MJ_WRITE \<longrightarrow> whole_sectors (ir_ByteOffset i) (ir_Length i))"

definition arrival_ok :: "(irp \<Rightarrow> bool) \<Rightarrow> producer \<Rightarrow> bool" where
  "arrival_ok ok p \<longleftrightarrow> (case p of Deciding e i \<Rightarrow> ok i | _ \<Rightarrow> True)"

text \<open>
  One step: of the producers, the worker and the control threads; the arrival of a read; a step
  of a reader; a late answer to one of its lower requests; the completion of a read that was
  passed down, by the lower driver. A successful answer has the bytes the lower device holds.
\<close>

inductive rstep :: "'d lower_driver \<Rightarrow> bitmap_api \<Rightarrow> ('d \<Rightarrow> contents) \<Rightarrow> (irp \<Rightarrow> bool) \<Rightarrow> 'd rsystem \<Rightarrow> 'd rsystem \<Rightarrow> bool"
  for L api C ok where
  others: "step L (rs_System s) y \<Longrightarrow> list_all (arrival_ok ok) (sy_Producers y) \<Longrightarrow>
     rstep L api C ok s \<lparr>rs_System = y, rs_Readers = map (observe C (rs_World s) (sy_World y)) (rs_Readers s)\<rparr>"
| arrives: "asks L e i \<Longrightarrow>
     rstep L api C ok s (s\<lparr>rs_Readers := rs_Readers s @
       [\<lparr>rd_Request = i, rd_Phase = REnter e i, rd_Seen = (\<lambda>p. {view C (rs_World s) p})\<rparr>]\<rparr>)"
| reads: "n < length (rs_Readers s) \<Longrightarrow>
     read_step L api (rd_Phase (rs_Readers s ! n)) (rs_World s) = Some (r, w) \<Longrightarrow>
     rstep L api C ok s (set_phase n r (with_world w s))"
| answered: "n < length (rs_Readers s) \<Longrightarrow> lo \<in> set (outstanding (rd_Phase (rs_Readers s ! n))) \<Longrightarrow>
     answers (C (lower (rs_World s))) lo a \<Longrightarrow>
     read_answer lo a (rd_Phase (rs_Readers s ! n)) (rs_World s) = Some (r, w) \<Longrightarrow>
     rstep L api C ok s (set_phase n r (with_world w s))"
| passed: "n < length (rs_Readers s) \<Longrightarrow> rd_Phase (rs_Readers s ! n) = RDown i \<Longrightarrow> same_request i j \<Longrightarrow>
     (NT_SUCCESS (ir_Status j) \<Longrightarrow> ir_Buffer j = view_bytes (C (lower (rs_World s))) i) \<Longrightarrow>
     rstep L api C ok s (set_phase n (RDone j) s)"

definition rinitial :: "nat \<Rightarrow> 'd world \<Rightarrow> 'd rsystem" where
  "rinitial n w = \<lparr>rs_System = initial n w, rs_Readers = []\<rparr>"

text \<open>From an empty queue on a device of known size.\<close>

definition rreachable :: "'d lower_driver \<Rightarrow> bitmap_api \<Rightarrow> ('d \<Rightarrow> contents) \<Rightarrow> (irp \<Rightarrow> bool) \<Rightarrow> nat \<Rightarrow> 'd rsystem \<Rightarrow> bool" where
  "rreachable L api C ok n s \<longleftrightarrow>
     (\<exists>w. fresh w \<and> Size (stats w) \<noteq> 0 \<and> (rstep L api C ok)\<^sup>*\<^sup>* (rinitial n w) s)"

subsection \<open>Items and producers stay well-formed\<close>

definition producer_fit :: "producer \<Rightarrow> bool" where
  "producer_fit p \<longleftrightarrow>
     (case p of Deciding e i \<Rightarrow> fit_request i | Preparing lazy e i \<Rightarrow> fit_request i
      | Inserting lazy it cost i \<Rightarrow> item_ok it | _ \<Rightarrow> True)"

definition system_ok :: "'d system \<Rightarrow> bool" where
  "system_ok s \<longleftrightarrow> list_all item_ok (queue (sy_World s)) \<and> Size (stats (sy_World s)) \<noteq> 0 \<and>
     list_all producer_fit (sy_Producers s) \<and> worker_at (sy_Worker s) (queue (sy_World s))"

lemma fit_arrives: "producer_fit p \<Longrightarrow> arrival_ok fit_request p"
  by (simp add: producer_fit_def arrival_ok_def split: producer.splits)

lemma lazy_item_ok:
  assumes "fit_request i" "ir_MajorFunction i = IRP_MJ_WRITE" "wf_transfer i"
  shows "item_ok (new_item\<lparr>it_MajorFunction := ir_MajorFunction i, it_Offset := ir_ByteOffset i,
            it_Length := ir_Length i, it_Buffer := Some (ir_Buffer i)\<rparr>)"
  using assms
  by (simp add: item_ok_def fit_request_def valid_write_def wf_item_def new_item_def sector_item_def wf_transfer_def)

lemma plain_item_ok:
  "item_ok (new_item\<lparr>it_MajorFunction := ir_MajorFunction i, it_Irp := Some i\<rparr>)"
  "ir_MajorFunction i \<noteq> IRP_MJ_WRITE \<Longrightarrow> item_ok (new_item\<lparr>it_MajorFunction := ir_MajorFunction i\<rparr>)"
  by (simp_all add: item_ok_def wf_item_def new_item_def sector_item_def is_write_def)

definition producer_kept :: "'d world \<Rightarrow> producer \<Rightarrow> 'd world \<Rightarrow> bool" where
  "producer_kept w p' w' \<longleftrightarrow> lower w' = lower w \<and> queue w' = queue w \<and>
     Size (stats w') = Size (stats w) \<and> producer_fit p'"

lemma decide_kept:
  assumes "decide e i w = Some (p', w')" "fit_request i"
  shows "producer_kept w p' w'"
  using assms
  by (auto simp: decide_def KeSetLowMem_def upd_stats_def producer_kept_def producer_fit_def
      split: if_splits option.splits)

lemma prepare_kept:
  assumes "prepare lazy e i w = Some (p', w')" "fit_request i"
  shows "producer_kept w p' w'"
proof -
  let ?i = "i\<lparr>ir_Information := 0\<rparr>"
  have fit: "fit_request ?i" using assms(2) by (simp add: fit_request_def valid_write_def wf_transfer_def)
  have copy: "RtlCopyMemory (replicate (unat (ir_Length i)) 0) 0 (ir_Buffer i) 0 (unat (ir_Length i)) = Some (ir_Buffer i)
      \<and> item_ok (new_item\<lparr>it_MajorFunction := ir_MajorFunction i, it_Offset := ir_ByteOffset i,
            it_Length := ir_Length i, it_Buffer := Some (ir_Buffer i)\<rparr>)"
    if "ir_MajorFunction i = IRP_MJ_WRITE"
  proof -
    have "wf_transfer i" using that assms(2) by (simp add: fit_request_def valid_write_def)
    then show ?thesis
      using lazy_item_ok [OF assms(2) that] by (simp add: copy_all wf_transfer_def)
  qed
  have give: "producer_kept w q v" if "give_up st ?i w1 = Some (q, v)" "lower w1 = lower w"
    "queue w1 = queue w" "Size (stats w1) = Size (stats w)" for st w1 q v
    using that by (auto simp: give_up_def complete_with_def IoCompleteRequest_def producer_kept_def producer_fit_def)
  have give': "producer_kept w q (v\<lparr>PoolItems := n\<rparr>)" if "producer_kept w q v" for q v n
    using that by (simp add: producer_kept_def)
  let ?w1 = "w\<lparr>PoolItems := Suc (PoolItems w)\<rparr>"
  let ?w2 = "snd (IoAcquireRemoveLock e ?w1)"
  have w2: "lower ?w2 = lower w" "queue ?w2 = queue w" "Size (stats ?w2) = Size (stats w)"
    by (simp_all add: IoAcquireRemoveLock_def)
  have ins: "producer_kept w (Inserting b it c ?i) ?w2" if "item_ok it" for b it c
    using that w2 by (simp add: producer_kept_def producer_fit_def)
  obtain st v2 where aq: "IoAcquireRemoveLock e ?w1 = (st, v2)" by fastforce
  consider "\<not> item_alloc e" | "item_alloc e" "\<not> NT_SUCCESS st" | "item_alloc e" "NT_SUCCESS st" "\<not> lazy"
    | "item_alloc e" "NT_SUCCESS st" "lazy" "ir_MajorFunction i \<noteq> IRP_MJ_WRITE"
    | "item_alloc e" "NT_SUCCESS st" "lazy" "ir_MajorFunction i = IRP_MJ_WRITE"
    by blast
  then show ?thesis
  proof cases
    case 1
    with assms(1) show ?thesis by (auto simp: prepare_def intro: give)
  next
    case 2
    with assms(1) aq w2 show ?thesis
      by (auto simp: prepare_def intro!: give' give)
  next
    case 3
    with assms(1) aq ins [OF plain_item_ok(1) [of ?i]] show ?thesis by (auto simp: prepare_def Let_def)
  next
    case 4
    with assms(1) aq ins [OF plain_item_ok(2) [of i]] show ?thesis by (auto simp: prepare_def Let_def)
  next
    case 5
    have d: "prepare lazy e i w =
        (if \<not> mdl_mapped e then give_up STATUS_INSUFFICIENT_RESOURCES ?i v2
         else if \<not> buffer_alloc e
         then give_up STATUS_INSUFFICIENT_RESOURCES ?i (v2\<lparr>PoolItems := PoolItems v2 - 1\<rparr>)
         else Some (Inserting True (new_item\<lparr>it_MajorFunction := ir_MajorFunction i,
              it_Offset := ir_ByteOffset i, it_Length := ir_Length i, it_Buffer := Some (ir_Buffer i)\<rparr>)
              (sizeof_item + ucast (ir_Length i)) ?i, v2))"
      using 5 aq copy [OF 5(4)] by (simp add: prepare_def Let_def)
    have v2: "lower v2 = lower w" "queue v2 = queue w" "Size (stats v2) = Size (stats w)"
      using w2 aq by simp_all
    have "p' = Inserting True (new_item\<lparr>it_MajorFunction := ir_MajorFunction i,
              it_Offset := ir_ByteOffset i, it_Length := ir_Length i, it_Buffer := Some (ir_Buffer i)\<rparr>)
              (sizeof_item + ucast (ir_Length i)) ?i \<and> w' = v2"
      if "mdl_mapped e" "buffer_alloc e"
      using that assms(1) d by simp
    then show ?thesis
      using assms(1) d v2 ins copy [OF 5(4)] aq
      by (cases "mdl_mapped e"; cases "buffer_alloc e") (auto intro: give)
  qed
qed

lemma producer_moved:
  assumes "producer_step p w = Some (p', w')" "producer_fit p"
  shows "moved L w w' \<and> producer_fit p' \<and> Size (stats w') = Size (stats w) \<and> queue w' = queue w @ adds p"
proof (cases "\<exists>lazy it cost i. p = Inserting lazy it cost i")
  case True
  then obtain lazy it cost i where p: "p = Inserting lazy it cost i" by blast
  with assms have w': "p' = Signalling lazy i" "lower w' = lower w" "queue w' = queue w @ [it]"
    "Size (stats w') = Size (stats w)" "item_ok it"
    by (auto simp: insert_item_eq producer_fit_def)
  show ?thesis
    using moved.appended [OF w'(2,3,5)] w' by (simp add: p producer_fit_def adds_def)
next
  case False
  then have "adds p = []" by (cases p) (simp_all add: adds_def)
  moreover have "producer_kept w p' w'"
  proof (cases p)
    case (Deciding e i)
    with assms show ?thesis using decide_kept [of e i w p' w'] by (simp add: producer_fit_def)
  next
    case (Preparing lazy e i)
    with assms show ?thesis using prepare_kept [of lazy e i w p' w'] by (simp add: producer_fit_def)
  next
    case (Signalling lazy i)
    with assms show ?thesis
      by (cases lazy) (auto simp: producer_kept_def producer_fit_def set_queue_event_def)
  next
    case (Completing i)
    with assms show ?thesis by (auto simp: producer_kept_def producer_fit_def IoCompleteRequest_def)
  qed (use assms False in \<open>simp_all add: producer_step_def\<close>)
  ultimately show ?thesis by (auto simp: producer_kept_def intro: moved.kept)
qed

subsection \<open>The worker\<close>

lemma worker_moved:
  assumes "worker_step L built ls k w = Some (k', w')" "worker_at k (queue w)"
  shows "moved L w w' \<and> Size (stats w') = Size (stats w)"
proof (cases k)
  case Checking
  with assms show ?thesis by (auto intro: moved.kept)
next
  case SawEmpty
  with assms show ?thesis by (auto simp: create_links_def split: if_splits intro: moved.kept)
next
  case Waiting
  with assms show ?thesis by (auto simp: consume_event_def split: if_splits intro: moved.kept)
next
  case (Dispatching it)
  with assms(2) obtain q where q: "queue w = it # q" by (cases "queue w") (auto simp: worker_at_def)
  show ?thesis
  proof (cases "dispatch_lower L built it (lower w)")
    case None
    with assms(1) Dispatching show ?thesis by (auto simp: worker_step_def upd_stats_def intro: moved.kept)
  next
    case (Some x)
    obtain io d where x: "x = (io, d)" by (cases x)
    have w': "queue w' = it\<lparr>it_Irp := None\<rparr> # q" "lower w' = d" "Size (stats w') = Size (stats w)"
      using assms(1) Dispatching Some x q
      by (auto simp: worker_step_def Let_def set_head_def IoCompleteRequest_def split: option.splits)
    show ?thesis
    proof (cases "it_Irp it")
      case None
      with Some x have "d = snd (lw_built L (lazy_request it) (lower w))"
        by (auto simp: dispatch_lower_def split: if_splits prod.splits)
      with w' q None show ?thesis by (auto intro: moved.executed)
    next
      case (Some i)
      with w' q show ?thesis by (auto intro: moved.forwarded)
    qed
  qed
next
  case (Finishing it)
  with assms(2) obtain q where q: "queue w = it # q" by (cases "queue w") (auto simp: worker_at_def)
  with assms(1) Finishing show ?thesis by (auto simp: dispatch_finish_eq intro: moved.unlinked)
next
  case Stopped
  with assms(1) show ?thesis by simp
qed

lemma system_moved:
  assumes "step L s y" "system_ok s" "list_all (arrival_ok fit_request) (sy_Producers y)"
  shows "moved L (sy_World s) (sy_World y) \<and> system_ok y"
  using assms(1)
proof (cases rule: step.cases)
  case (arrive n e i)
  have "Deciding e i \<in> set (sy_Producers y)" using arrive by (auto simp: set_update_memI)
  with assms(3) have "producer_fit (Deciding e i)"
    by (auto simp: list_all_iff arrival_ok_def producer_fit_def)
  with arrive assms(2) show ?thesis by (auto simp: system_ok_def list_all_update intro: moved.kept)
next
  case (produce n p w)
  have "producer_fit (sy_Producers s ! n)" using assms(2) produce(2) by (simp add: system_ok_def list_all_length)
  note m = producer_moved [OF produce(3) this, of L]
  have "worker_at (sy_Worker s) (queue w)"
    using assms(2) m by (auto simp: system_ok_def worker_at_def split: worker.splits)
  with m produce assms(2) moved_items [of L "sy_World s" w] show ?thesis
    by (simp add: system_ok_def list_all_update)
next
  case (work built ls k w)
  have at: "worker_at (sy_Worker s) (queue (sy_World s))" using assms(2) by (simp add: system_ok_def)
  have "worker_at k (queue w)" using worker_step_effect [OF work(2) at] by (simp add: worker_effect_def)
  with worker_moved [OF work(2) at] work assms(2) moved_items [of L "sy_World s" w] show ?thesis
    by (simp add: system_ok_def)
qed (use assms(2) in \<open>auto simp: system_ok_def upd_stats_def set_queue_event_def intro: moved.kept\<close>)

subsection \<open>The invariant of the system\<close>

definition thread_ok :: "'d lower_driver \<Rightarrow> ('d \<Rightarrow> contents) \<Rightarrow> 'd world \<Rightarrow> thread \<Rightarrow> bool" where
  "thread_ok L C w t \<longleftrightarrow> (\<forall>p. view C w p \<in> rd_Seen t p) \<and>
     phase_ok L (safe_at C w (rd_Seen t)) (\<lambda>p v. v \<in> rd_Seen t p) (rd_Phase t) \<and>
     same_request (rd_Request t) (reader_irp (rd_Phase t)) \<and>
     steps_left (rd_Phase t) \<le> 5 + bitmap_bits (ir_Length (rd_Request t))"

definition rsystem_ok :: "'d lower_driver \<Rightarrow> ('d \<Rightarrow> contents) \<Rightarrow> 'd rsystem \<Rightarrow> bool" where
  "rsystem_ok L C s \<longleftrightarrow> system_ok (rs_System s) \<and> list_all (thread_ok L C (rs_World s)) (rs_Readers s)"

lemma thread_ok_cong:
  assumes "queue w' = queue w" "C (lower w') = C (lower w)"
  shows "thread_ok L C w' = thread_ok L C w"
proof -
  have "view C w' = view C w" "safe_at C w' = safe_at C w"
    using assms by (simp_all add: view_def safe_at_def [abs_def])
  then show ?thesis by (simp add: thread_ok_def [abs_def])
qed

lemma thread_observes:
  assumes "thread_ok L C w t" "moved L w w'" "bytewise L C" "list_all item_ok (queue w)"
  shows "thread_ok L C w' (observe C w w' t)"
proof -
  have "phase_ok L (safe_at C w' (rd_Seen (observe C w w' t))) (\<lambda>p v. v \<in> rd_Seen (observe C w w' t) p) (rd_Phase t)"
  proof (rule phase_ok_mono)
    show "phase_ok L (safe_at C w (rd_Seen t)) (\<lambda>p v. v \<in> rd_Seen t p) (rd_Phase t)"
      using assms(1) by (simp add: thread_ok_def)
    show "safe_at C w' (rd_Seen (observe C w w' t)) p" if "safe_at C w (rd_Seen t) p" for p
      using safe_moved [OF assms(2-4) that] by (simp add: observe_def)
  qed (simp add: observe_def)
  with assms(1) show ?thesis by (simp add: thread_ok_def observe_def visible_def)
qed

lemma same_request_trans: "same_request a b \<Longrightarrow> same_request b c \<Longrightarrow> same_request a c"
  by (simp add: same_request_def)

lemma rsystem_update:
  assumes "rsystem_ok L C s" "n < length (rs_Readers s)" "queue w = queue (rs_World s)"
    and "C (lower w) = C (lower (rs_World s))" "Size (stats w) = Size (stats (rs_World s))"
    and "thread_ok L C (rs_World s) ((rs_Readers s ! n)\<lparr>rd_Phase := r\<rparr>)"
  shows "rsystem_ok L C (set_phase n r (with_world w s))"
proof -
  have "thread_ok L C w = thread_ok L C (rs_World s)" using assms(3,4) by (rule thread_ok_cong)
  with assms show ?thesis
    by (simp add: rsystem_ok_def set_phase_def with_world_def system_ok_def list_all_update)
qed

lemma rstep_ok:
  assumes "rstep L api C fit_request s s'" "clear_runs api" "reads_or_fails L C" "bytewise L C" "rsystem_ok L C s"
  shows "rsystem_ok L C s'"
  using assms(1)
proof (cases rule: rstep.cases)
  case (others y)
  have sy: "system_ok (rs_System s)" using assms(5) by (simp add: rsystem_ok_def)
  from system_moved [OF others(2) sy others(3)] have m: "moved L (rs_World s) (sy_World y)" "system_ok y" by simp_all
  have "list_all item_ok (queue (rs_World s))" using sy by (simp add: system_ok_def)
  with assms(4,5) m others(1) thread_observes [OF _ m(1)] show ?thesis
    by (auto simp: rsystem_ok_def list_all_iff)
next
  case (arrives e i)
  then show ?thesis
    using assms(5) by (simp add: rsystem_ok_def thread_ok_def same_request_def)
next
  case (reads n r w)
  let ?t = "rs_Readers s ! n"
  have t: "thread_ok L C (rs_World s) ?t" using assms(5) reads(2) by (simp add: rsystem_ok_def list_all_length)
  have "\<not> at_rest (rd_Phase ?t)" using reads(3) by (auto simp: read_step_def at_rest_def split: reader.splits)
  then have "stepped L C (safe_at C (rs_World s) (rd_Seen ?t)) (\<lambda>p v. v \<in> rd_Seen ?t p) (rd_Phase ?t)
      (rs_World s) (Some (r, w))"
    using assms(5) t unfolding reads(3) [symmetric]
    by (intro read_stepped [OF assms(2,3)]) (auto simp: rsystem_ok_def system_ok_def thread_ok_def)
  with t show ?thesis
    unfolding reads(1) by (intro rsystem_update [OF assms(5) reads(2)])
      (auto simp: stepped_def thread_ok_def intro: same_request_trans)
next
  case (answered n lo a r w)
  let ?t = "rs_Readers s ! n"
  have t: "thread_ok L C (rs_World s) ?t" using assms(5) answered(2) by (simp add: rsystem_ok_def list_all_length)
  then have "phase_ok L (safe_at C (rs_World s) (rd_Seen ?t)) (\<lambda>p v. v \<in> rd_Seen ?t p) (rd_Phase ?t)"
    by (simp add: thread_ok_def)
  from answer_stepped [where C = C and w = "rs_World s", OF this answered(3,4)] obtain
    "phase_ok L (safe_at C (rs_World s) (rd_Seen ?t)) (\<lambda>p v. v \<in> rd_Seen ?t p) r"
    "queue w = queue (rs_World s)" "lower w = lower (rs_World s)"
    "Size (stats w) = Size (stats (rs_World s))" "same_request (reader_irp (rd_Phase ?t)) (reader_irp r)"
    "steps_left r \<le> steps_left (rd_Phase ?t)"
    using answered(5) by (auto simp: safe_at_def)
  with t show ?thesis
    unfolding answered(1) by (intro rsystem_update [OF assms(5) answered(2)])
      (auto simp: thread_ok_def intro: same_request_trans)
next
  case (passed n i j)
  let ?t = "rs_Readers s ! n"
  have t: "thread_ok L C (rs_World s) ?t" using assms(5) passed(2) by (simp add: rsystem_ok_def list_all_length)
  then have "safe_at C (rs_World s) (rd_Seen ?t) (sint (ir_ByteOffset i) + int k)" if "k < unat (ir_Length i)" for k
    using that passed(3) by (simp add: thread_ok_def)
  then have "bytes_ok (\<lambda>p v. v \<in> rd_Seen ?t p) j" if "NT_SUCCESS (ir_Status j)"
    using passed(4,5) that by (simp add: bytes_ok_def same_request_def safe_at_def)
  with t passed(3,4) have th: "thread_ok L C (rs_World s) (?t\<lparr>rd_Phase := RDone j\<rparr>)"
    by (auto simp: thread_ok_def intro: same_request_trans)
  have "with_world (rs_World s) s = s" by (simp add: with_world_def)
  with rsystem_update [OF assms(5) passed(2) refl refl refl th] passed(1) show ?thesis by simp
qed

lemma rreachable_ok:
  assumes "rreachable L api C fit_request n s" "clear_runs api" "reads_or_fails L C" "bytewise L C"
  shows "rsystem_ok L C s"
proof -
  from assms(1) obtain w where w: "fresh w" "Size (stats w) \<noteq> 0" "(rstep L api C fit_request)\<^sup>*\<^sup>* (rinitial n w) s"
    by (auto simp: rreachable_def)
  from w(3) show ?thesis
  proof (induction rule: rtranclp_induct)
    case base
    from w(1,2) show ?case
      by (simp add: fresh_def rsystem_ok_def rinitial_def initial_def system_ok_def worker_at_def producer_fit_def list_all_iff)
  next
    case (step y z)
    then show ?case using rstep_ok [OF step(2) assms(2-4)] by simp
  qed
qed

subsection \<open>What every reader gets\<close>

lemma done_bytes:
  assumes "rsystem_ok L C s" "t \<in> set (rs_Readers s)" "rd_Phase t = RDone j" "NT_SUCCESS (ir_Status j)"
  shows "same_request (rd_Request t) j"
    "k < unat (ir_Length (rd_Request t)) \<Longrightarrow>
     ir_Buffer j ! k \<in> rd_Seen t (sint (ir_ByteOffset (rd_Request t)) + int k)"
  using assms by (auto simp: rsystem_ok_def list_all_iff thread_ok_def same_request_def bytes_ok_def)

text \<open>
  C3: A read that is completed successfully returns, for each of its bytes, a value the
  logical contents of the device had at that position at some moment since the read arrived,
  or one that a forwarded request stored there in that time, whatever producers, worker, other
  readers and the lower device did meanwhile, and whenever the lower reads were answered. Of
  the requests that arrive it is assumed that a write comes with a buffer of its length, that
  its end does not wrap round and that it covers whole sectors (fit_request; the code checks
  none of the alignment, see C16). The lower device is assumed to return what it holds on a
  successful read and to change no byte it was not asked to write.
\<close>

theorem concurrent_read_regular:
  assumes "clear_runs api" "reads_or_fails L C" "bytewise L C" "rreachable L api C fit_request n s"
    and "t \<in> set (rs_Readers s)" "rd_Phase t = RDone j" "NT_SUCCESS (ir_Status j)"
    and "k < unat (ir_Length (rd_Request t))"
  shows "ir_id j = ir_id (rd_Request t) \<and>
     ir_Buffer j ! k \<in> rd_Seen t (sint (ir_ByteOffset (rd_Request t)) + int k)"
  using done_bytes [OF rreachable_ok [OF assms(4,1-3)] assms(5-7)] assms(8)
  by (simp add: same_request_def)

text \<open>A step that leaves the logical contents alone, such as the worker executing a queued write.\<close>

definition quiet ::
  "'d lower_driver \<Rightarrow> bitmap_api \<Rightarrow> ('d \<Rightarrow> contents) \<Rightarrow> (irp \<Rightarrow> bool) \<Rightarrow> 'd rsystem \<Rightarrow> 'd rsystem \<Rightarrow> bool" where
  "quiet L api C ok a b \<longleftrightarrow> rstep L api C ok a b \<and>
     (\<forall>p. visible C (rs_World a) (rs_World b) p = {view C (rs_World a) p})"

definition seen_only :: "nat \<Rightarrow> contents \<Rightarrow> 'd rsystem \<Rightarrow> bool" where
  "seen_only m c s \<longleftrightarrow>
     (\<forall>k<length (rs_Readers s). m \<le> k \<longrightarrow> (\<forall>p. rd_Seen (rs_Readers s ! k) p \<subseteq> {c p}))"

lemma quiet_view: "quiet L api C ok a b \<Longrightarrow> view C (rs_World b) = view C (rs_World a)"
  by (auto simp: quiet_def visible_def fun_eq_iff)

lemma quiet_seen:
  assumes "quiet L api C ok a b" "seen_only m (view C (rs_World a)) a"
  shows "seen_only m (view C (rs_World a)) b"
proof -
  have step: "rstep L api C ok a b" and vis: "visible C (rs_World a) (rs_World b) p = {view C (rs_World a) p}" for p
    using assms(1) by (simp_all add: quiet_def)
  from step show ?thesis
  proof (cases rule: rstep.cases)
    case (others y)
    with assms(2) vis show ?thesis by (auto simp: seen_only_def observe_def)
  next
    case (arrives e i)
    with assms(2) show ?thesis by (auto simp: seen_only_def nth_append less_Suc_eq)
  qed (use assms(2) in \<open>auto simp: seen_only_def set_phase_def with_world_def nth_list_update\<close>)
qed

text \<open>
  C4: While the logical contents do not change, every successful read that arrives returns
  exactly the logical contents: the worker may execute queued writes and remove their items
  between any two steps of the read. Of the requests that arrive it is assumed that a write
  comes with a buffer of its length, that its end does not wrap round and that it covers whole
  sectors (fit_request; the code checks none of the alignment, see C16). The lower device is
  assumed to return what it holds on a successful read and to change no byte it was not asked
  to write.
\<close>

theorem quiet_read_exact:
  assumes "clear_runs api" "reads_or_fails L C" "bytewise L C" "rreachable L api C fit_request n s0"
    and "(quiet L api C fit_request)\<^sup>*\<^sup>* s0 s" "length (rs_Readers s0) \<le> m" "m < length (rs_Readers s)"
    and "rd_Phase (rs_Readers s ! m) = RDone j" "NT_SUCCESS (ir_Status j)"
    and "k < unat (ir_Length (rd_Request (rs_Readers s ! m)))"
  shows "ir_Buffer j ! k =
     view C (rs_World s0) (sint (ir_ByteOffset (rd_Request (rs_Readers s ! m))) + int k)"
proof -
  have s: "view C (rs_World s) = view C (rs_World s0) \<and> rsystem_ok L C s \<and>
      seen_only (length (rs_Readers s0)) (view C (rs_World s0)) s"
    using assms(5)
  proof (induction rule: rtranclp_induct)
    case base
    then show ?case using rreachable_ok [OF assms(4,1-3)] by (simp add: seen_only_def)
  next
    case (step y z)
    have "rstep L api C fit_request y z" using step(2) by (simp add: quiet_def)
    with step(3) quiet_view [OF step(2)] quiet_seen [OF step(2)] rstep_ok [OF _ assms(1-3)]
    show ?case by metis
  qed
  let ?t = "rs_Readers s ! m"
  have "ir_Buffer j ! k \<in> rd_Seen ?t (sint (ir_ByteOffset (rd_Request ?t)) + int k)"
    using s done_bytes(2) [OF _ nth_mem [OF assms(7)] assms(8-10)] by blast
  moreover have "rd_Seen ?t p \<subseteq> {view C (rs_World s0) p}" for p
    using s assms(6,7) by (simp add: seen_only_def)
  ultimately show ?thesis by blast
qed

text \<open>The scatter object of a reader, with the count its creator still holds.\<close>

definition scatter_of :: "reader \<Rightarrow> (nat \<times> SCATTERED_IRP) option" where
  "scatter_of r =
     (case r of RGap e bm off ci cb n sc \<Rightarrow> Some (1, sc) | RLeave n sc \<Rightarrow> Some (1, sc)
      | RAwait sc \<Rightarrow> Some (0, sc) | _ \<Rightarrow> None)"

lemma sint_of_nat_long: "n < 2147483648 \<Longrightarrow> sint (of_nat n :: LONG) = int n"
  by (simp add: signed_of_nat signed_take_bit_int_eq_self)

text \<open>
  C15: The scatter object of every split read is sound in every state readers, producers and
  the worker can reach: its count is exactly the number of lower reads that are out plus one
  while the requester still holds it, and is positive, so the object is neither destroyed
  early nor leaked; the lower reads that are out together ask for no more than the length of
  the request, and each of them aims inside the buffer of the request, at the matching place
  of the device. Of the requests that arrive it is assumed that a write comes with a buffer of
  its length, that its end does not wrap round and that it covers whole sectors (fit_request;
  the code checks none of the alignment, see C16). The lower device is assumed to return what
  it holds on a successful read and to change no byte it was not asked to write.
\<close>

theorem concurrent_typed:
  assumes "clear_runs api" "reads_or_fails L C" "bytewise L C" "rreachable L api C fit_request n s"
  shows "list_all (\<lambda>t. case scatter_of (rd_Phase t) of
       None \<Rightarrow> outstanding (rd_Phase t) = []
     | Some (held, sc) \<Rightarrow>
         sint (sc_ScatterCount sc) = int held + int (length (sc_Outstanding sc)) \<and>
         0 < held + length (sc_Outstanding sc) \<and>
         (\<Sum>lo\<leftarrow>sc_Outstanding sc. unat (lo_Length lo)) \<le> unat (ir_Length (rd_Request t)) \<and>
         list_all (\<lambda>lo. case lo_Target lo of
            OriginalMdl k \<Rightarrow> k + unat (lo_Length lo) \<le> unat (ir_Length (rd_Request t)) \<and>
              sint (lo_ByteOffset lo) = sint (ir_ByteOffset (rd_Request t)) + int k
          | _ \<Rightarrow> False) (sc_Outstanding sc)) (rs_Readers s)"
proof -
  note ok = rreachable_ok [OF assms(4,1-3)]
  have typed: "sint (sc_ScatterCount sc) = int held + int (length (sc_Outstanding sc)) \<and>
         (\<Sum>lo\<leftarrow>sc_Outstanding sc. unat (lo_Length lo)) \<le> unat (ir_Length (rd_Request t)) \<and>
         list_all (\<lambda>lo. case lo_Target lo of
            OriginalMdl k \<Rightarrow> k + unat (lo_Length lo) \<le> unat (ir_Length (rd_Request t)) \<and>
              sint (lo_ByteOffset lo) = sint (ir_ByteOffset (rd_Request t)) + int k
          | _ \<Rightarrow> False) (sc_Outstanding sc)"
    if sc: "scatter_wf held sc" "held \<le> 1" "split_ok safe good todo sc"
      "same_request (rd_Request t) (sc_OriginalIrp sc)" for held sc safe good todo t
  proof -
    have "sint (of_nat (held + length (sc_Outstanding sc)) :: LONG) = int (held + length (sc_Outstanding sc))"
      using sc(1,2) by (intro sint_of_nat_long) (simp add: scatter_wf_def)
    with sc show ?thesis
      by (auto simp: scatter_wf_def scatter_buffers_def claimed_def split_ok_def Let_def list_all_iff
          aims_def fits_def same_request_def comp_def split: target.splits)
  qed
  have "case scatter_of (rd_Phase t) of
       None \<Rightarrow> outstanding (rd_Phase t) = []
     | Some (held, sc) \<Rightarrow>
         sint (sc_ScatterCount sc) = int held + int (length (sc_Outstanding sc)) \<and>
         0 < held + length (sc_Outstanding sc) \<and>
         (\<Sum>lo\<leftarrow>sc_Outstanding sc. unat (lo_Length lo)) \<le> unat (ir_Length (rd_Request t)) \<and>
         list_all (\<lambda>lo. case lo_Target lo of
            OriginalMdl k \<Rightarrow> k + unat (lo_Length lo) \<le> unat (ir_Length (rd_Request t)) \<and>
              sint (lo_ByteOffset lo) = sint (ir_ByteOffset (rd_Request t)) + int k
          | _ \<Rightarrow> False) (sc_Outstanding sc)"
    if "t \<in> set (rs_Readers s)" for t
  proof -
    have t: "thread_ok L C (rs_World s) t" using ok that by (simp add: rsystem_ok_def list_all_iff)
    then show ?thesis
      by (cases "rd_Phase t") (auto simp: thread_ok_def phase_ok_def scatter_of_def dest!: typed)
  qed
  then show ?thesis by (simp add: list_all_iff)
qed

text \<open>
  C14: Readers are wait-free: in every reachable state a reader that is not at rest can take
  its next step, whatever the others do, without a fault, and each step brings it closer to
  its end, which is at most five steps and one for each of its sectors away. (Waiting for the
  spin lock itself is not counted: a locked section is one step.) Of the requests that arrive
  it is assumed that a write comes with a buffer of its length, that its end does not wrap
  round and that it covers whole sectors (fit_request; the code checks none of the alignment,
  see C16). The lower device is assumed to return what it holds on a successful read and to
  change no byte it was not asked to write.
\<close>

theorem readers_wait_free:
  assumes "clear_runs api" "reads_or_fails L C" "bytewise L C" "rreachable L api C fit_request n s"
    and "t \<in> set (rs_Readers s)" "\<not> at_rest (rd_Phase t)"
  shows "\<exists>r w. read_step L api (rd_Phase t) (rs_World s) = Some (r, w) \<and>
     steps_left r < steps_left (rd_Phase t) \<and>
     steps_left (rd_Phase t) \<le> 5 + unat (ir_Length (rd_Request t)) div 512"
proof -
  note ok = rreachable_ok [OF assms(4,1-3)]
  then have t: "thread_ok L C (rs_World s) t" using assms(5) by (simp add: rsystem_ok_def list_all_iff)
  have "stepped L C (safe_at C (rs_World s) (rd_Seen t)) (\<lambda>p v. v \<in> rd_Seen t p) (rd_Phase t)
      (rs_World s) (read_step L api (rd_Phase t) (rs_World s))"
    using ok t assms(6)
    by (intro read_stepped [OF assms(1,2)]) (auto simp: rsystem_ok_def system_ok_def thread_ok_def)
  with t show ?thesis
    by (auto simp: stepped_def thread_ok_def bitmap_bits_eq split: option.splits prod.splits)
qed

end
