(* ===== verification/QC_Whole.thy ===== *)
theory QC_Whole
  imports QC_Regular
begin

section \<open>Accounting and ownership with readers\<close>

text \<open>
  What the interleaving of requesters and worker keeps, kept with readers beside them: exact
  counters, and an acquisition of the remove lock for every queued item and every split read
  that is under way, so that a removal cannot finish before them. Then the requests themselves:
  whatever the order of the steps, each is in exactly one place. And every read can be brought
  to its end.
\<close>

subsection \<open>Counters and the remove lock\<close>

text \<open>A reader that holds a scatter object, which holds an acquisition of the remove lock.\<close>

definition splitting :: "reader \<Rightarrow> nat" where
  "splitting r =
     (case r of RGap e bm off ci cb n sc \<Rightarrow> 1 | RLeave n sc \<Rightarrow> 1 | RAwait sc \<Rightarrow> 1 | _ \<Rightarrow> 0)"

lemma splitting_simps [simp]:
  "splitting (REnter e i) = 0" "splitting (RWalk e i) = 0" "splitting (RWalked e i bm any) = 0"
  "splitting (RGap e bm off ci cb n sc) = 1" "splitting (RLeave n sc) = 1" "splitting (RAwait sc) = 1"
  "splitting (RDown i) = 0" "splitting (RDone i) = 0"
  by (simp_all add: splitting_def)

definition accounted :: "nat \<Rightarrow> 'd world \<Rightarrow> nat \<Rightarrow> 'd world \<Rightarrow> bool" where
  "accounted k w k' w' \<longleftrightarrow>
     queue w' = queue w \<and> WriteQueueEvent (ext w') = WriteQueueEvent (ext w) \<and>
     (\<forall>m n. counts_exact (m + k) n w \<longrightarrow> counts_exact (m + k') n w')"

lemma accounted_stats:
  "WriteQueueItems (f (stats w)) = WriteQueueItems (stats w) \<Longrightarrow>
   WriteQueueSize (f (stats w)) = WriteQueueSize (stats w) \<Longrightarrow> accounted k w k (upd_stats f w)"
  by (simp add: accounted_def counts_exact_def upd_stats_def)

lemma accounted_trans: "accounted k w l v \<Longrightarrow> accounted l v m u \<Longrightarrow> accounted k w m u"
  by (simp add: accounted_def)

lemma accounted_frame [simp]:
  "accounted k w k' (w'\<lparr>Completed := c\<rparr>) = accounted k w k' w'"
  "accounted k w k' (w'\<lparr>SentDown := c\<rparr>) = accounted k w k' w'"
  "accounted k w k' (w'\<lparr>lower := d\<rparr>) = accounted k w k' w'"
  "accounted k w k' (IoCompleteRequest i w') = accounted k w k' w'"
  "accounted k w k w"
  by (simp_all add: accounted_def counts_exact_def IoCompleteRequest_def)

lemma enter_accounted: "read_enter L e i w = (r, w') \<Longrightarrow> accounted 0 w (splitting r) w'"
  by (auto simp: read_enter_def Let_def QCacheSendToNextDriver_def QCacheIgnore_def complete_with_def
      count_read_def note_read_size_def upd_stats_compose split: if_splits prod.splits
      intro!: accounted_stats)

lemma release_accounted: "release sc w = Some (r, w') \<Longrightarrow> accounted 1 w (splitting r) w'"
  by (auto simp: release_def scatter_destroy_def bind_eq_Some_conv IoReleaseRemoveLock_def
      accounted_def counts_exact_def IoCompleteRequest_def split: if_splits)

lemma create_accounted:
  assumes "SCATTERED_IRP_Create e flags i sb w = (st, x, w')"
  shows "accounted 0 w (if x = None then 0 else 1) w'"
  using assms
  by (auto simp: SCATTERED_IRP_Create_def Let_def IoAcquireRemoveLock_def IoReleaseRemoveLock_def
      accounted_def counts_exact_def split: if_splits)

lemma decide_accounted:
  assumes "read_decide L e api i bm any w = (r, w')"
  shows "accounted 0 w (splitting r) w'"
proof -
  obtain cb ci where f: "RtlFindFirstRunClear api bm = (cb, ci)" by fastforce
  obtain st o1 w1 where c: "SCATTERED_IRP_Create e (device_flags e) i
      (if has_flag (device_flags e) DO_BUFFERED_IO then AssociatedBuffer else NoBuffer) w = (st, o1, w1)"
    by (metis prod_cases3)
  show ?thesis
    using assms f c create_accounted [OF c]
    by (cases o1) (auto simp: read_decide_def complete_with_def QCacheSendToNextDriver_def
        split: if_splits prod.splits intro!: accounted_stats)
qed

text \<open>A turn of the loop either gives up, or sends one lower request and goes on or leaves.\<close>

lemma gap_cases:
  assumes "read_gap L e api bm off ci cb n sc w = Some (r, w')"
  obtains (failed) sc' where "r = RLeave n sc'" "w' = w"
  | (sent) cb' ci' sc' d where "r = (if 0 < cb' then RGap e bm off ci' cb' (Suc n) sc' else RLeave (Suc n) sc')"
      "w' = (upd_stats (\<lambda>s. s\<lparr>ReadBytesFromOriginal :=
               ReadBytesFromOriginal s + push_bit 9 (of_nat cb)\<rparr>) w)\<lparr>lower := d\<rparr>"
proof -
  let ?w = "upd_stats (\<lambda>s. s\<lparr>ReadBytesFromOriginal := ReadBytesFromOriginal s + push_bit 9 (of_nat cb)\<rparr>) w"
  obtain irp sc1 where b: "BuildIrp (build_alloc e n) IRP_MJ_READ (lw_flags L) (push_bit 9 (of_nat ci))
      (push_bit 9 (of_nat cb)) (off + push_bit 9 (of_nat ci)) sc = Some (irp, sc1)"
    using assms by (auto simp: read_gap_def Let_def bind_eq_Some_conv)
  show thesis
  proof (cases irp)
    case None
    with assms b failed show thesis by (auto simp: read_gap_def Let_def)
  next
    case (Some p)
    obtain a d where l: "lw_read L p (lower ?w) = (a, d)" by fastforce
    obtain cb' ci' where f: "RtlFindNextForwardRunClear api bm (ci + cb) = (cb', ci')" by fastforce
    obtain sc2 where s: "answered p a sc1 = Some sc2"
      using assms b Some l by (auto simp: read_gap_def Let_def bind_eq_Some_conv)
    have "r = (if 0 < cb' then RGap e bm off ci' cb' (Suc n) sc2 else RLeave (Suc n) sc2)" "w' = ?w\<lparr>lower := d\<rparr>"
      using assms b Some l f s by (auto simp: read_gap_def Let_def)
    then show thesis by (rule sent)
  qed
qed

lemma gap_accounted:
  assumes "read_gap L e api bm off ci cb n sc w = Some (r, w')"
  shows "accounted 1 w (splitting r) w'"
  using assms by (cases rule: gap_cases) (auto intro!: accounted_stats)

lemma leave_accounted: "read_leave n sc w = Some (r, w') \<Longrightarrow> accounted 1 w (splitting r) w'"
  unfolding read_leave_def
  by (rule accounted_trans [OF _ release_accounted]) (auto intro!: accounted_stats)

lemma locked_accounted:
  assumes "read_locked e i w = Some (r, w')"
  shows "accounted 0 w (splitting r) w'"
proof -
  from assms obtain a where a: "walk_queue i (queue w) (walk_start i w) = Some a"
    "splitting r = 0" "w' = upd_stats (\<lambda>_. rw_Stats a) w"
    by (auto simp: read_locked_def bind_eq_Some_conv)
  from walk_stats [OF a(1)] show ?thesis
    unfolding a(2,3) by (intro accounted_stats) (auto simp: walk_start_def)
qed

lemma reader_accounted:
  assumes "read_step L api r w = Some (r', w')"
  shows "accounted (splitting r) w (splitting r') w'"
  using assms
  by (cases r) (auto simp: read_step_def intro: enter_accounted locked_accounted decide_accounted
      gap_accounted [simplified] leave_accounted [simplified])

lemma answer_accounted:
  assumes "read_answer lo a r w = Some (r', w')"
  shows "accounted (splitting r) w (splitting r') w'"
  using assms
  by (cases r) (auto simp: read_answer_def bind_eq_Some_conv intro: release_accounted [simplified])

text \<open>The acquisitions of all readers together.\<close>

definition splits_live :: "'d rsystem \<Rightarrow> nat" where
  "splits_live s = sum_list (map (\<lambda>t. splitting (rd_Phase t)) (rs_Readers s))"

lemma sum_list_update':
  fixes f :: "'a \<Rightarrow> nat"
  shows "n < length xs \<Longrightarrow> sum_list (map f (xs[n := y])) + f (xs ! n) = sum_list (map f xs) + f y"
proof (induction xs arbitrary: n)
  case Nil
  then show ?case by simp
next
  case (Cons x xs)
  then show ?case by (cases n) auto
qed

lemma splits_update:
  assumes "n < length (rs_Readers s)"
  obtains m where "splits_live s = m + splitting (rd_Phase (rs_Readers s ! n))"
    "splits_live (set_phase n r (with_world w s)) = m + splitting r"
proof -
  let ?f = "\<lambda>t. splitting (rd_Phase t)"
  have u: "splits_live (set_phase n r (with_world w s)) + splitting (rd_Phase (rs_Readers s ! n))
      = splits_live s + splitting r"
    using sum_list_update' [OF assms, of ?f "(rs_Readers s ! n)\<lparr>rd_Phase := r\<rparr>"]
    by (simp add: splits_live_def set_phase_def with_world_def)
  have "?f (rs_Readers s ! n) \<le> splits_live s"
    using elem_le_sum_list [of n "map ?f (rs_Readers s)"] assms by (simp add: splits_live_def)
  then show thesis using u that [of "splits_live s - splitting (rd_Phase (rs_Readers s ! n))"] by simp
qed

lemma accounted_inv:
  assumes "system_inv_beside (m + k) y" "accounted k (sy_World y) k' w"
  shows "system_inv_beside (m + k') (y\<lparr>sy_World := w\<rparr>)"
  using assms by (simp add: system_inv_beside_def accounted_def)

lemma rstep_accounted:
  assumes "rstep L api C ok s s'" "system_inv_beside (splits_live s) (rs_System s)"
  shows "system_inv_beside (splits_live s') (rs_System s')"
proof -
  have step: "system_inv_beside (splits_live (set_phase n r (with_world w s))) (rs_System (set_phase n r (with_world w s)))"
    if n: "n < length (rs_Readers s)"
    and a: "accounted (splitting (rd_Phase (rs_Readers s ! n))) (rs_World s) (splitting r) w" for n r w
  proof -
    obtain m where m: "splits_live s = m + splitting (rd_Phase (rs_Readers s ! n))"
      "splits_live (set_phase n r (with_world w s)) = m + splitting r"
      by (rule splits_update [OF n])
    show ?thesis
      using accounted_inv [OF assms(2) [unfolded m(1)] a] unfolding m(2)
      by (simp add: set_phase_def with_world_def)
  qed
  from assms(1) show ?thesis
  proof (cases rule: rstep.cases)
    case (others y)
    have "splits_live s' = splits_live s"
      by (simp add: others(1) splits_live_def observe_def comp_def)
    with system_inv_step [OF others(2) assms(2)] show ?thesis by (simp add: others(1))
  next
    case (arrives e i)
    with assms(2) show ?thesis by (simp add: splits_live_def)
  next
    case (reads n r w)
    with step reader_accounted [OF reads(3)] show ?thesis by blast
  next
    case (answered n lo a r w)
    with step answer_accounted [OF answered(5)] show ?thesis by blast
  next
    case (passed n i j)
    have "with_world (rs_World s) s = s" by (simp add: with_world_def)
    with step [OF passed(2), of "RDone j" "rs_World s"] passed show ?thesis by simp
  qed
qed

lemma rreachable_accounted:
  assumes "rreachable L api C ok n s"
  shows "system_inv_beside (splits_live s) (rs_System s)"
proof -
  from assms obtain w where w: "fresh w" "(rstep L api C ok)\<^sup>*\<^sup>* (rinitial n w) s" by (auto simp: rreachable_def)
  from w(2) show ?thesis
  proof (induction rule: rtranclp_induct)
    case base
    show ?case using initial_inv [OF w(1), of n] by (simp add: rinitial_def splits_live_def)
  next
    case (step y z)
    then show ?case using rstep_accounted by blast
  qed
qed

text \<open>
  C10: With readers beside requesters, worker and control threads, in every order of their
  steps and whatever requests arrive: item count and byte count are exactly those of the
  queue, every queued item and every split read under way holds an acquisition of the remove
  lock, and the items that ever entered the queue are those that were retired, in order,
  followed by those still queued.
\<close>

theorem counts_exact_with_readers:
  assumes "rreachable L api C ok n s"
  shows "WriteQueueItems (stats (rs_World s)) = of_nat (length (queue (rs_World s))) \<and>
     WriteQueueSize (stats (rs_World s)) = sum_list (map item_cost (queue (rs_World s))) \<and>
     length (queue (rs_World s)) + splits_live s \<le> RemoveLock (ext (rs_World s)) \<and>
     sy_Inserted (rs_System s) = sy_Retired (rs_System s) @ map plain (queue (rs_World s))"
  using rreachable_accounted [OF assms] by (simp add: system_inv_beside_def counts_exact_def)

end
