(* ===== verification/QC_Owners.thy ===== *)
theory QC_Owners
  imports QC_Whole
begin

section \<open>Every request in one place\<close>

text \<open>
  Readers, requesters and the worker hand requests over to each other: whatever the order of the
  steps, each request that arrived is in the hands of one thread, in the queue, completed, or
  with the next driver, and in one of them only.
\<close>

subsection \<open>Who holds a request\<close>

definition held_by_producer :: "producer \<Rightarrow> nat multiset" where
  "held_by_producer p =
     (case p of Idle \<Rightarrow> {#} | Deciding e i \<Rightarrow> {#ir_id i#} | Preparing lazy e i \<Rightarrow> {#ir_id i#}
      | Inserting lazy it cost i \<Rightarrow> {#ir_id i#}
      | Signalling lazy i \<Rightarrow> (if lazy then {#ir_id i#} else {#}) | Completing i \<Rightarrow> {#ir_id i#})"

definition settled :: "reader \<Rightarrow> bool" where
  "settled r \<longleftrightarrow> (case r of RDown i \<Rightarrow> True | RDone i \<Rightarrow> True | _ \<Rightarrow> False)"

definition held_by_reader :: "reader \<Rightarrow> nat multiset" where
  "held_by_reader r = (if settled r then {#} else {#ir_id (reader_irp r)#})"

text \<open>All places a request can be in: completed, sent down, queued, with a thread.\<close>

definition places :: "'d rsystem \<Rightarrow> nat multiset" where
  "places s = owned (rs_World s) + sum_list (map held_by_producer (sy_Producers (rs_System s)))
     + sum_list (map (held_by_reader \<circ> rd_Phase) (rs_Readers s))"

lemma held_simps [simp]:
  "held_by_producer Idle = {#}" "held_by_producer (Deciding e i) = {#ir_id i#}"
  "held_by_producer (Preparing lazy e i) = {#ir_id i#}"
  "held_by_producer (Inserting lazy it cost i) = {#ir_id i#}"
  "held_by_producer (Signalling lazy i) = (if lazy then {#ir_id i#} else {#})"
  "held_by_producer (Completing i) = {#ir_id i#}"
  by (simp_all add: held_by_producer_def)

lemma settled_simps [simp]:
  "\<not> settled (REnter e i)" "\<not> settled (RWalk e i)" "\<not> settled (RWalked e i bm any)"
  "\<not> settled (RGap e bm off ci cb n sc)" "\<not> settled (RLeave n sc)" "\<not> settled (RAwait sc)"
  "settled (RDown i)" "settled (RDone i)"
  by (simp_all add: settled_def)

subsection \<open>Readers\<close>

text \<open>A step of a reader puts its request among the completed or sent ones when it settles it.\<close>

definition hands_over :: "'d world \<Rightarrow> reader \<Rightarrow> 'd world \<Rightarrow> bool" where
  "hands_over w r' w' \<longleftrightarrow>
     owned w' = owned w + (if settled r' then {#ir_id (reader_irp r')#} else {#})"

lemma owned_world [simp]:
  "owned (w\<lparr>lower := d\<rparr>) = owned w" "owned (IoReleaseRemoveLock w) = owned w"
  "owned (w\<lparr>ext := (ext w)\<lparr>ShutdownThread := b\<rparr>\<rparr>) = owned w"
  by (simp_all add: owned_def IoReleaseRemoveLock_def)

lemma owned_sent [simp]:
  "owned (snd (QCacheSendToNextDriver L i w)) = add_mset (ir_id i) (owned w)"
  by (cases "QCacheSendToNextDriver L i w") simp

lemma release_hands_over: "release sc w = Some (r, w') \<Longrightarrow> hands_over w r w'"
  by (auto simp: release_def scatter_destroy_def bind_eq_Some_conv hands_over_def split: if_splits)

lemma enter_hands_over: "read_enter L e i w = (r, w') \<Longrightarrow> hands_over w r w'"
  by (auto simp: read_enter_def Let_def QCacheIgnore_def complete_with_def
      count_read_def note_read_size_def hands_over_def split: if_splits prod.splits)

lemma create_owned:
  "SCATTERED_IRP_Create e flags i sb w = (st, x, w') \<Longrightarrow> owned w' = owned w"
  by (auto simp: SCATTERED_IRP_Create_def Let_def IoAcquireRemoveLock_def split: if_splits)

lemma decide_hands_over:
  assumes "read_decide L e api i bm any w = (r, w')"
  shows "hands_over w r w'"
proof -
  obtain cb ci where f: "RtlFindFirstRunClear api bm = (cb, ci)" by fastforce
  obtain st o1 w1 where c: "SCATTERED_IRP_Create e (device_flags e) i
      (if has_flag (device_flags e) DO_BUFFERED_IO then AssociatedBuffer else NoBuffer) w = (st, o1, w1)"
    by (metis prod_cases3)
  show ?thesis
    using assms f c create_owned [OF c]
    by (cases o1) (auto simp: read_decide_def complete_with_def hands_over_def
        split: if_splits prod.splits)
qed

lemma gap_hands_over:
  assumes "read_gap L e api bm off ci cb n sc w = Some (r, w')"
  shows "hands_over w r w'"
  using assms by (cases rule: gap_cases) (simp_all add: hands_over_def)

lemma locked_hands_over: "read_locked e i w = Some (r, w') \<Longrightarrow> hands_over w r w'"
  by (auto simp: read_locked_def bind_eq_Some_conv hands_over_def)

lemma reader_hands_over:
  assumes "read_step L api r w = Some (r', w')"
  shows "hands_over w r' w'"
proof (cases r)
  case (RLeave n sc)
  with assms release_hands_over show ?thesis
    by (auto simp: read_leave_def hands_over_def split: if_splits) fastforce+
qed (use assms in \<open>auto simp: read_step_def intro: enter_hands_over locked_hands_over decide_hands_over gap_hands_over\<close>)

lemma answer_hands_over:
  assumes "read_answer lo a r w = Some (r', w')"
  shows "hands_over w r' w'"
proof (cases r)
  case (RAwait sc)
  with assms release_hands_over show ?thesis by (auto simp: read_answer_def bind_eq_Some_conv)
qed (use assms in \<open>auto simp: read_answer_def bind_eq_Some_conv hands_over_def\<close>)

subsection \<open>Requesters and the worker\<close>

text \<open>The item of the ordinary path carries its request, the item of the lazy path none.\<close>

definition carries :: "producer \<Rightarrow> bool" where
  "carries p \<longleftrightarrow>
     (case p of Inserting lazy it cost i \<Rightarrow> it_Irp it = (if lazy then None else Some i) | _ \<Rightarrow> True)"

lemma carries_simps [simp]:
  "carries Idle" "carries (Deciding e i)" "carries (Preparing lazy e i)"
  "carries (Inserting lazy it cost i) \<longleftrightarrow> it_Irp it = (if lazy then None else Some i)"
  "carries (Signalling lazy i)" "carries (Completing i)"
  by (simp_all add: carries_def)

lemma decide_held:
  assumes "decide e i w = Some (p', w')"
  shows "carries p' \<and> owned w' + held_by_producer p' = owned w + {#ir_id i#}"
  using assms by (auto simp: decide_def dest!: owned_low_mem split: if_splits)

lemma prepare_held:
  assumes "prepare lazy e i w = Some (p', w')"
  shows "carries p' \<and> owned w' + held_by_producer p' = owned w + {#ir_id i#}"
proof -
  obtain st w2 where a: "IoAcquireRemoveLock e (w\<lparr>PoolItems := Suc (PoolItems w)\<rparr>) = (st, w2)" by fastforce
  from owned_acquire [OF a] have "owned w2 = owned w" by simp
  with assms a show ?thesis
    by (auto simp: prepare_def give_up_def complete_with_def new_item_def Let_def bind_eq_Some_conv
        split: if_splits)
qed

lemma producer_held:
  assumes "producer_step p w = Some (p', w')" "carries p"
  shows "carries p' \<and> owned w' + held_by_producer p' = owned w + held_by_producer p"
proof (cases p)
  case (Deciding e i)
  with assms decide_held [of e i w p' w'] show ?thesis by simp
next
  case (Preparing lazy e i)
  with assms prepare_held [of lazy e i w p' w'] show ?thesis by simp
qed (use assms in \<open>auto simp: producer_step_def lazy_completion_def\<close>)

text \<open>\<open>Item->Irp\<close> is cleared before the item is unlinked.\<close>

definition served :: "worker \<Rightarrow> bool" where
  "served k \<longleftrightarrow> (case k of Finishing it \<Rightarrow> it_Irp it = None | _ \<Rightarrow> True)"

lemma served_simps [simp]:
  "served Checking" "served SawEmpty" "served Waiting" "served (Dispatching it)"
  "served (Finishing it) \<longleftrightarrow> it_Irp it = None" "served Stopped"
  by (simp_all add: served_def)

lemma worker_held:
  assumes "same_irp L" "worker_step L built ls k w = Some (k', w')" "worker_at k (queue w)" "served k"
  shows "owned w' = owned w \<and> served k'"
proof (cases k)
  case (Dispatching it)
  then obtain q where q: "queue w = it # q" using assms(3) by (cases "queue w") (auto simp: worker_at_def)
  have fwd: "ir_id i' = ir_id i" if "lw_forward L i d = (s, i', d')" for i d s i' d'
    using assms(1) that unfolding same_irp_def by (metis fst_conv snd_conv)
  show ?thesis
    using assms(2) q Dispatching
    by (auto simp: worker_step_def dispatch_lower_def set_head_def owned_def IoCompleteRequest_def
        upd_stats_def Let_def dest: fwd split: option.splits prod.splits if_splits)
next
  case (Finishing it)
  then obtain q where "queue w = it # q" using assms(3) by (cases "queue w") (auto simp: worker_at_def)
  with assms(2,4) Finishing show ?thesis by (auto simp: dispatch_finish_eq owned_def)
next
  case Checking
  with assms(2) show ?thesis by (auto split: list.splits)
qed (use assms(2) in \<open>auto split: if_splits\<close>)

subsection \<open>The system\<close>

text \<open>The requests that arrive with a step, and the requests that arrived so far.\<close>

definition arriving :: "'d rsystem \<Rightarrow> 'd rsystem \<Rightarrow> nat multiset" where
  "arriving s s' =
     (let ps = sy_Producers (rs_System s); ps' = sy_Producers (rs_System s') in
      sum_list (map (\<lambda>(p, p'). if p = Idle then held_by_producer p' else {#}) (zip ps ps'))
      + mset (map (ir_id \<circ> rd_Request) (drop (length (rs_Readers s)) (rs_Readers s'))))"

inductive handed_in ::
  "'d lower_driver \<Rightarrow> bitmap_api \<Rightarrow> ('d \<Rightarrow> contents) \<Rightarrow> (irp \<Rightarrow> bool) \<Rightarrow> nat multiset \<Rightarrow>
   'd rsystem \<Rightarrow> bool"
  for L api C ok where
  start: "fresh w \<Longrightarrow> Size (stats w) \<noteq> 0 \<Longrightarrow> handed_in L api C ok (owned w) (rinitial n w)"
| next_step: "handed_in L api C ok A s \<Longrightarrow> rstep L api C ok s s' \<Longrightarrow> handed_in L api C ok (A + arriving s s') s'"

definition handed_ok :: "'d rsystem \<Rightarrow> bool" where
  "handed_ok s \<longleftrightarrow> list_all carries (sy_Producers (rs_System s)) \<and> served (sy_Worker (rs_System s))"


lemma held_update:
  fixes f :: "'a \<Rightarrow> 'b multiset"
  shows "n < length xs \<Longrightarrow> sum_list (map f (xs[n := y])) + f (xs ! n) = sum_list (map f xs) + f y"
proof (induction xs arbitrary: n)
  case Nil
  then show ?case by simp
next
  case (Cons x xs)
  then show ?case by (cases n) (auto simp: ac_simps)
qed

lemma trade:
  fixes a b :: "'b multiset"
  assumes "a' + h = a + h'" "b' + h' = b + h"
  shows "b' + a' = b + a"
proof -
  have "b' + a' + h = b' + (a' + h)" by simp
  also have "\<dots> = b' + h' + a" unfolding assms(1) by simp
  also have "\<dots> = b + a + h" unfolding assms(2) by simp
  finally show ?thesis by simp
qed

lemma sum_zip_same:
  fixes g :: "'a \<times> 'a \<Rightarrow> 'b multiset"
  assumes "\<And>x. g (x, x) = {#}"
  shows "sum_list (map g (zip xs xs)) = {#}"
  using assms by (induction xs) simp_all

lemma sum_zip_update:
  fixes g :: "'a \<times> 'a \<Rightarrow> 'b multiset"
  assumes "\<And>x. g (x, x) = {#}" "n < length xs"
  shows "sum_list (map g (zip xs (xs[n := y]))) = g (xs ! n, y)"
  using assms(2)
proof (induction xs arbitrary: n)
  case Nil
  then show ?case by simp
next
  case (Cons x xs)
  then show ?case by (cases n) (simp_all add: assms(1) sum_zip_same)
qed

lemma arriving_same:
  assumes "sy_Producers (rs_System s') = sy_Producers (rs_System s)"
  shows "arriving s s' = mset (map (ir_id \<circ> rd_Request) (drop (length (rs_Readers s)) (rs_Readers s')))"
  using assms by (simp add: arriving_def Let_def sum_zip_same)

lemma arriving_update:
  assumes "sy_Producers (rs_System s') = (sy_Producers (rs_System s))[n := p]"
    and "n < length (sy_Producers (rs_System s))" "length (rs_Readers s') = length (rs_Readers s)"
  shows "arriving s s' = (if sy_Producers (rs_System s) ! n = Idle then held_by_producer p else {#})"
  using assms by (simp add: arriving_def Let_def sum_zip_update)

lemma system_places:
  assumes "same_irp L" "step L (rs_System s) y" "handed_ok s"
    and "worker_at (sy_Worker (rs_System s)) (queue (rs_World s))"
    and "map rd_Phase rs = map rd_Phase (rs_Readers s)"
  shows "places \<lparr>rs_System = y, rs_Readers = rs\<rparr> = places s + arriving s \<lparr>rs_System = y, rs_Readers = rs\<rparr> \<and>
     handed_ok \<lparr>rs_System = y, rs_Readers = rs\<rparr>"
proof -
  have len: "length rs = length (rs_Readers s)" using assms(5) by (metis length_map)
  have rd: "sum_list (map (held_by_reader \<circ> rd_Phase) rs) =
      sum_list (map (held_by_reader \<circ> rd_Phase) (rs_Readers s))"
    using assms(5) by (metis map_map)
  show ?thesis
    using assms(2)
  proof (cases rule: step.cases)
    case (arrive n e i)
    with held_update [OF arrive(2), of held_by_producer "Deciding e i"] assms(3) len rd show ?thesis
      by (simp add: places_def handed_ok_def list_all_update arriving_update [OF _ arrive(2)])
  next
    case (produce n p w)
    let ?p = "sy_Producers (rs_System s) ! n"
    have "carries ?p" using assms(3) produce(2) by (simp add: handed_ok_def list_all_length)
    note h = producer_held [OF produce(3) this]
    have "?p \<noteq> Idle" using produce(3) by (auto simp: producer_step_def)
    moreover have "owned w + sum_list (map held_by_producer ((sy_Producers (rs_System s))[n := p])) =
        owned (rs_World s) + sum_list (map held_by_producer (sy_Producers (rs_System s)))"
      using trade [OF held_update [OF produce(2), of held_by_producer p]] h by blast
    ultimately show ?thesis
      using produce assms(3) h len rd
      by (simp add: places_def handed_ok_def list_all_update arriving_update [OF _ produce(2)])
  next
    case (work built ls k w)
    have "served (sy_Worker (rs_System s))" using assms(3) by (simp add: handed_ok_def)
    from worker_held [OF assms(1) work(2) assms(4) this] work assms(3) len rd show ?thesis
      by (simp add: places_def handed_ok_def arriving_same)
  qed (use assms(3) len rd in \<open>simp_all add: places_def handed_ok_def arriving_same\<close>)
qed

lemma reader_places:
  assumes "n < length (rs_Readers s)" "hands_over (rs_World s) r w" "\<not> settled (rd_Phase (rs_Readers s ! n))"
    and "ir_id (reader_irp r) = ir_id (reader_irp (rd_Phase (rs_Readers s ! n)))"
  shows "places (set_phase n r (with_world w s)) = places s"
proof -
  have "sum_list (map (held_by_reader \<circ> rd_Phase)
          ((rs_Readers s)[n := (rs_Readers s ! n)\<lparr>rd_Phase := r\<rparr>])) + {#ir_id (reader_irp r)#} =
      sum_list (map (held_by_reader \<circ> rd_Phase) (rs_Readers s)) + held_by_reader r"
    using held_update [OF assms(1), of "held_by_reader \<circ> rd_Phase"] assms(3,4)
    by (simp add: held_by_reader_def)
  with assms(2) show ?thesis
    by (auto simp: places_def set_phase_def with_world_def hands_over_def held_by_reader_def split: if_splits)
qed


lemma thread_id: "thread_ok L C w t \<Longrightarrow> ir_id (reader_irp (rd_Phase t)) = ir_id (rd_Request t)"
  by (simp add: thread_ok_def same_request_def)

lemma phase_id:
  assumes "rsystem_ok L C s" "rsystem_ok L C (set_phase n r (with_world w s))" "n < length (rs_Readers s)"
  shows "ir_id (reader_irp r) = ir_id (reader_irp (rd_Phase (rs_Readers s ! n)))"
proof -
  have "thread_ok L C w ((rs_Readers s ! n)\<lparr>rd_Phase := r\<rparr>)"
    using assms(2,3) by (auto simp: rsystem_ok_def set_phase_def with_world_def list_all_length)
  moreover have "thread_ok L C (rs_World s) (rs_Readers s ! n)"
    using assms(1,3) by (simp add: rsystem_ok_def list_all_length)
  ultimately show ?thesis by (auto dest!: thread_id)
qed

lemma rstep_places:
  assumes "rstep L api C fit_request s s'" "same_irp L" "handed_ok s" "rsystem_ok L C s" "rsystem_ok L C s'"
  shows "places s' = places s + arriving s s' \<and> handed_ok s'"
proof -
  have same: "arriving s (set_phase n r (with_world w s)) = {#} \<and> handed_ok (set_phase n r (with_world w s))" for n r w
    using assms(3) by (simp add: arriving_same set_phase_def with_world_def handed_ok_def)
  from assms(1) show ?thesis
  proof (cases rule: rstep.cases)
    case (others y)
    have "worker_at (sy_Worker (rs_System s)) (queue (rs_World s))"
      using assms(4) by (simp add: rsystem_ok_def system_ok_def)
    from system_places [OF assms(2) others(2) assms(3) this] show ?thesis
      unfolding others(1) by (simp add: observe_def comp_def)
  next
    case (arrives e i)
    with assms(3) show ?thesis
      by (simp add: places_def handed_ok_def arriving_same held_by_reader_def)
  next
    case (reads n r w)
    have "\<not> settled (rd_Phase (rs_Readers s ! n))"
      using reads(3) by (auto simp: read_step_def settled_def split: reader.splits)
    with reader_places [OF reads(2) reader_hands_over [OF reads(3)]] phase_id [OF assms(4) _ reads(2)] assms(5) same
    show ?thesis unfolding reads(1) by simp
  next
    case (answered n lo a r w)
    have "\<not> settled (rd_Phase (rs_Readers s ! n))"
      using answered(5) by (auto simp: read_answer_def settled_def split: reader.splits)
    with reader_places [OF answered(2) answer_hands_over [OF answered(5)]] phase_id [OF assms(4) _ answered(2)]
      assms(5) same
    show ?thesis unfolding answered(1) by simp
  next
    case (passed n i j)
    have "with_world (rs_World s) s = s" by (simp add: with_world_def)
    with same [of n "RDone j" "rs_World s"]
      held_update [OF passed(2), of "held_by_reader \<circ> rd_Phase" "(rs_Readers s ! n)\<lparr>rd_Phase := RDone j\<rparr>"] passed(3)
    show ?thesis unfolding passed(1) by (simp add: places_def set_phase_def held_by_reader_def)
  qed
qed

lemma handed_in_places:
  assumes "handed_in L api C fit_request A s" "clear_runs api" "reads_or_fails L C" "bytewise L C" "same_irp L"
  shows "places s = A \<and> handed_ok s \<and> rsystem_ok L C s"
  using assms(1)
proof induction
  case (start w)
  then have "rreachable L api C fit_request n (rinitial n w)" for n by (auto simp: rreachable_def)
  then have "rsystem_ok L C (rinitial n w)" for n using rreachable_ok [OF _ assms(2-4)] by blast
  moreover have "sum_list (replicate n {#}) = ({#} :: nat multiset)" for n by (induction n) simp_all
  ultimately show ?case
    by (simp add: places_def handed_ok_def rinitial_def initial_def list_all_iff)
next
  case (next_step A s s')
  from next_step(3) have ok: "rsystem_ok L C s" by simp
  from rstep_ok [OF next_step(2) assms(2-4) ok] have "rsystem_ok L C s'" .
  with rstep_places [OF next_step(2) assms(5) _ ok] next_step(3) show ?case by simp
qed

text \<open>
  C11: Whatever the order of the steps of requesters, readers and worker, each request that
  arrived is in exactly one place: completed, sent down, queued, or with one thread. So none
  is lost, and none is completed more often than it arrived. Of the requests that arrive it is
  assumed that a write comes with a buffer of its length, that its end does not wrap round and
  that it covers whole sectors (fit_request; the code checks none of the alignment, see C16).
  The lower device is assumed to return what it holds on a successful read and to change no
  byte it was not asked to write. It also hands a forwarded request back as the same request.
\<close>

theorem each_request_in_one_place:
  assumes "clear_runs api" "reads_or_fails L C" "bytewise L C" "same_irp L" "handed_in L api C fit_request A s"
  shows "places s = A \<and> (\<forall>x. count (mset (map ir_id (Completed (rs_World s)))) x \<le> count A x)"
proof -
  have p: "places s = A" using handed_in_places [OF assms(5,1-4)] by simp
  have "mset (map ir_id (Completed (rs_World s))) \<subseteq># places s"
    by (simp add: places_def owned_def subset_mset.add_increasing2 add.assoc)
  with p show ?thesis by (auto intro: mset_subset_eq_count)
qed

end
