(* ===== verification/QC_Progress.thy ===== *)
theory QC_Progress
  imports QC_Owners
begin

section \<open>Every read can be brought to its end\<close>


text \<open>
  A step of the read \<open>m\<close>, or of the devices below on its behalf: requesters, worker and all
  other readers stand still, wherever they are.
\<close>

definition alone ::
  "'d lower_driver \<Rightarrow> bitmap_api \<Rightarrow> ('d \<Rightarrow> contents) \<Rightarrow> (irp \<Rightarrow> bool) \<Rightarrow> nat \<Rightarrow> 'd rsystem \<Rightarrow> 'd rsystem \<Rightarrow> bool" where
  "alone L api C ok m s s' \<longleftrightarrow> rstep L api C ok s s' \<and>
     sy_Producers (rs_System s') = sy_Producers (rs_System s) \<and>
     sy_Worker (rs_System s') = sy_Worker (rs_System s) \<and> queue (rs_World s') = queue (rs_World s) \<and>
     length (rs_Readers s') = length (rs_Readers s) \<and>
     rd_Request (rs_Readers s' ! m) = rd_Request (rs_Readers s ! m) \<and>
     (\<forall>k<length (rs_Readers s). k \<noteq> m \<longrightarrow> rs_Readers s' ! k = rs_Readers s ! k)"

lemma alone_phase:
  assumes "rstep L api C fit_request s (set_phase m r (with_world w s))" "m < length (rs_Readers s)"
    and "queue w = queue (rs_World s)"
  shows "alone L api C fit_request m s (set_phase m r (with_world w s))"
  using assms by (simp add: alone_def set_phase_def with_world_def)

lemma alone_ok:
  assumes "alone L api C fit_request m s s'" "clear_runs api" "reads_or_fails L C" "bytewise L C" "rsystem_ok L C s"
  shows "rsystem_ok L C s'"
  using assms rstep_ok by (auto simp: alone_def)

lemma honest_answer: "\<exists>a. answers c lo a"
  by (rule exI [of _ "\<lparr>an_Status = STATUS_SUCCESS, an_Information = ucast (lo_Length lo),
       an_Data = map (\<lambda>j. c (sint (lo_ByteOffset lo) + int j)) [0..<unat (lo_Length lo)]\<rparr>"])
    (simp add: answers_def honest_def)

lemma alone_step:
  assumes "clear_runs api" "reads_or_fails L C" "rsystem_ok L C s" "m < length (rs_Readers s)"
    and "\<not> at_rest (rd_Phase (rs_Readers s ! m))"
  obtains s' where "alone L api C fit_request m s s'"
    "steps_left (rd_Phase (rs_Readers s' ! m)) < steps_left (rd_Phase (rs_Readers s ! m))"
proof -
  let ?t = "rs_Readers s ! m"
  have t: "thread_ok L C (rs_World s) ?t" using assms(3,4) by (simp add: rsystem_ok_def list_all_length)
  have "stepped L C (safe_at C (rs_World s) (rd_Seen ?t)) (\<lambda>p v. v \<in> rd_Seen ?t p) (rd_Phase ?t)
      (rs_World s) (read_step L api (rd_Phase ?t) (rs_World s))"
    using assms(3,5) t
    by (intro read_stepped [OF assms(1,2)]) (auto simp: rsystem_ok_def system_ok_def thread_ok_def)
  then obtain r w where r: "read_step L api (rd_Phase ?t) (rs_World s) = Some (r, w)"
    "queue w = queue (rs_World s)" "steps_left r < steps_left (rd_Phase ?t)"
    by (auto simp: stepped_def split: option.splits)
  have "alone L api C fit_request m s (set_phase m r (with_world w s))"
    using rstep.reads [OF assms(4) r(1)] assms(4) r(2) by (rule alone_phase)
  with that r(3) assms(4) show thesis by (simp add: set_phase_def with_world_def)
qed

lemma alone_answer:
  assumes "rsystem_ok L C s" "m < length (rs_Readers s)" "rd_Phase (rs_Readers s ! m) = RAwait sc"
  obtains s' where "alone L api C fit_request m s s'" "at_rest (rd_Phase (rs_Readers s' ! m))"
    "length (outstanding (rd_Phase (rs_Readers s' ! m))) < length (sc_Outstanding sc)"
proof -
  let ?t = "rs_Readers s ! m" and ?c = "C (lower (rs_World s))"
  have ph: "phase_ok L (safe_at C (rs_World s) (rd_Seen ?t)) (\<lambda>p v. v \<in> rd_Seen ?t p) (RAwait sc)"
    using assms by (simp add: rsystem_ok_def list_all_length thread_ok_def flip: assms(3))
  then obtain lo where lo: "lo \<in> set (sc_Outstanding sc)" by (cases "sc_Outstanding sc") auto
  obtain a where a: "answers ?c lo a" using honest_answer by blast
  from ph lo lower_done_wf [OF _ lo answers_fits [OF a]] obtain s1 where
    s1: "lower_done lo a sc = Some s1" "sc_Outstanding s1 = remove1 lo (sc_Outstanding sc)"
    by auto
  obtain r w where r: "read_answer lo a (RAwait sc) (rs_World s) = Some (r, w)" "queue w = queue (rs_World s)"
    by (rule answer_stepped [where C = C and w = "rs_World s", OF ph _ a]) (use lo in \<open>auto simp: safe_at_def\<close>)
  from r(1) s1(1) have rel: "release s1 (rs_World s) = Some (r, w)" by (simp add: read_answer_def)
  moreover have "0 < length (sc_Outstanding sc)" using lo by (cases "sc_Outstanding sc") simp_all
  ultimately have "length (outstanding r) < length (sc_Outstanding sc)"
    using s1(2) lo by (auto simp: release_def bind_eq_Some_conv length_remove1 split: if_splits)
  moreover have "alone L api C fit_request m s (set_phase m r (with_world w s))"
  proof (rule alone_phase [OF _ assms(2) r(2)])
    show "rstep L api C fit_request s (set_phase m r (with_world w s))"
      by (rule rstep.answered [where C = C and lo = lo and a = a, OF assms(2)]) (use lo a r(1) assms(3) in simp_all)
  qed
  ultimately show thesis
    using that release_rest [OF rel] assms(2) by (simp add: set_phase_def with_world_def)
qed

lemma alone_passed:
  assumes "m < length (rs_Readers s)" "rd_Phase (rs_Readers s ! m) = RDown i"
  obtains s' j where "alone L api C fit_request m s s'" "rd_Phase (rs_Readers s' ! m) = RDone j"
proof -
  let ?j = "i\<lparr>ir_Status := STATUS_SUCCESS, ir_Buffer := view_bytes (C (lower (rs_World s))) i\<rparr>"
  have "with_world (rs_World s) s = s" by (simp add: with_world_def)
  with alone_phase [of L api C s m "RDone ?j" "rs_World s"] rstep.passed [OF assms, of ?j C L api] assms(1)
  have "alone L api C fit_request m s (set_phase m (RDone ?j) s)" by (simp add: same_request_def)
  with that assms(1) show thesis by (simp add: set_phase_def)
qed

lemma rest_completes:
  assumes "clear_runs api" "reads_or_fails L C" "bytewise L C" "rsystem_ok L C s"
    and "m < length (rs_Readers s)" "at_rest (rd_Phase (rs_Readers s ! m))"
  shows "\<exists>s' j. (alone L api C fit_request m)\<^sup>*\<^sup>* s s' \<and> rd_Phase (rs_Readers s' ! m) = RDone j"
  using assms(4-)
proof (induction "length (outstanding (rd_Phase (rs_Readers s ! m)))" arbitrary: s rule: less_induct)
  case less
  show ?case
  proof (cases "rd_Phase (rs_Readers s ! m)")
    case (RAwait sc)
    from alone_answer [OF less(2,3) RAwait] obtain s1 where
      s1: "alone L api C fit_request m s s1" "at_rest (rd_Phase (rs_Readers s1 ! m))"
      "length (outstanding (rd_Phase (rs_Readers s1 ! m))) < length (sc_Outstanding sc)"
      by blast
    have "m < length (rs_Readers s1)" using s1(1) less(3) by (simp add: alone_def)
    with less(1) [of s1] s1 RAwait alone_ok [OF s1(1) assms(1-3) less(2)]
    show ?thesis by (auto intro: converse_rtranclp_into_rtranclp)
  next
    case (RDown i)
    then show ?thesis using alone_passed [OF less(3)] by (metis r_into_rtranclp)
  next
    case (RDone j)
    then show ?thesis by blast
  qed (use less(4) in simp_all)
qed

lemma alone_completes:
  assumes "clear_runs api" "reads_or_fails L C" "bytewise L C" "rsystem_ok L C s" "m < length (rs_Readers s)"
  shows "\<exists>s' j. (alone L api C fit_request m)\<^sup>*\<^sup>* s s' \<and> rd_Phase (rs_Readers s' ! m) = RDone j"
  using assms(4-)
proof (induction "steps_left (rd_Phase (rs_Readers s ! m))" arbitrary: s rule: less_induct)
  case less
  show ?case
  proof (cases "at_rest (rd_Phase (rs_Readers s ! m))")
    case True
    with less(2,3) show ?thesis by (rule rest_completes [OF assms(1-3)])
  next
    case False
    from alone_step [OF assms(1,2) less(2,3) False] obtain s1 where
      s1: "alone L api C fit_request m s s1"
      "steps_left (rd_Phase (rs_Readers s1 ! m)) < steps_left (rd_Phase (rs_Readers s ! m))"
      by blast
    have "m < length (rs_Readers s1)" using s1(1) less(3) by (simp add: alone_def)
    with less(1) [OF s1(2) alone_ok [OF s1(1) assms(1-3) less(2)]] s1(1)
    show ?thesis by (meson converse_rtranclp_into_rtranclp)
  qed
qed

text \<open>
  C12: In every state that can be reached, every read can be brought to its completion by its
  own steps and the answers of the devices below: no requester, no other reader and not the
  worker has to take a step, and the queue stays as it is. Of the requests that arrive it is
  assumed that a write comes with a buffer of its length, that its end does not wrap round and
  that it covers whole sectors (fit_request; the code checks none of the alignment, see C16).
  The lower device is assumed to return what it holds on a successful read and to change no
  byte it was not asked to write.
\<close>

theorem readers_complete:
  assumes "clear_runs api" "reads_or_fails L C" "bytewise L C" "rreachable L api C fit_request n s"
    and "m < length (rs_Readers s)"
  shows "\<exists>s' j. (alone L api C fit_request m)\<^sup>*\<^sup>* s s' \<and> rd_Phase (rs_Readers s' ! m) = RDone j \<and>
     queue (rs_World s') = queue (rs_World s) \<and>
     same_request (rd_Request (rs_Readers s ! m)) j"
proof -
  note ok = rreachable_ok [OF assms(4,1-3)]
  from alone_completes [OF assms(1-3) ok assms(5)] obtain s' j where
    run: "(alone L api C fit_request m)\<^sup>*\<^sup>* s s'" "rd_Phase (rs_Readers s' ! m) = RDone j"
    by blast
  from run(1) have "rsystem_ok L C s' \<and> queue (rs_World s') = queue (rs_World s) \<and>
      length (rs_Readers s') = length (rs_Readers s) \<and>
      rd_Request (rs_Readers s' ! m) = rd_Request (rs_Readers s ! m)"
  proof (induction rule: rtranclp_induct)
    case base
    then show ?case using ok by simp
  next
    case (step y z)
    with alone_ok [OF step(2) assms(1-3)] show ?case by (simp add: alone_def)
  qed
  moreover from this assms(5) have "thread_ok L C (rs_World s') (rs_Readers s' ! m)"
    by (simp add: rsystem_ok_def list_all_length)
  ultimately have "queue (rs_World s') = queue (rs_World s) \<and> same_request (rd_Request (rs_Readers s ! m)) j"
    using run(2) by (simp add: thread_ok_def)
  with run show ?thesis by blast
qed

end
