(* ===== verification/QC_Interleaved.thy ===== *)
theory QC_Interleaved
  imports QC_Witness QC_Progress
begin

section \<open>Interleavings on the example device\<close>

text \<open>
  Two runs of the example volume. In the first a write is inserted between the walk of a read
  and its descent to the lower device; in the second the worker executes the queued write and
  removes it while a read is under way. The properties of readers beside requesters and worker
  are instantiated on such runs.
\<close>

subsection \<open>The example disk\<close>

lemma disk_reads_or_fails [simp]: "reads_or_fails disk id"
  by (auto simp: reads_or_fails_def answers_def disk_def disk_honest)

lemma disk_bytewise [simp]: "bytewise disk id"
  by (auto simp: bytewise_def disk_def split: option.splits)

lemma sector_write_fit: "fit_request sector_write"
  using sector_write_valid(1) by (simp add: fit_request_def whole_sectors_def sector_write_def)

lemma brings_arrivals:
  "brings L i a b \<Longrightarrow> fit_request i \<Longrightarrow> step L a b \<and> list_all (arrival_ok fit_request) (sy_Producers b)"
  by (fastforce simp: brings_def list_all_iff arrival_ok_def split: producer.splits)

text \<open>What the producers and the worker do happens beside the readers.\<close>

lemma beside_readers:
  assumes "(brings L i)\<^sup>*\<^sup>* a b" "fit_request i"
  shows "\<exists>R'. (rstep L api C fit_request)\<^sup>*\<^sup>* \<lparr>rs_System = a, rs_Readers = R\<rparr> \<lparr>rs_System = b, rs_Readers = R'\<rparr> \<and>
     map rd_Phase R' = map rd_Phase R \<and> map rd_Request R' = map rd_Request R"
  using assms(1)
proof (induction rule: rtranclp_induct)
  case base
  then show ?case by blast
next
  case (step y z)
  then obtain R' where R': "(rstep L api C fit_request)\<^sup>*\<^sup>* \<lparr>rs_System = a, rs_Readers = R\<rparr> \<lparr>rs_System = y, rs_Readers = R'\<rparr>"
    "map rd_Phase R' = map rd_Phase R" "map rd_Request R' = map rd_Request R"
    by blast
  have "rstep L api C fit_request \<lparr>rs_System = y, rs_Readers = R'\<rparr>
      \<lparr>rs_System = z, rs_Readers = map (observe C (sy_World y) (sy_World z)) R'\<rparr>"
    using rstep.others [of L "\<lparr>rs_System = y, rs_Readers = R'\<rparr>" z fit_request api C] brings_arrivals [OF step(2) assms(2)]
    by simp
  with R' show ?case
    by (intro exI [of _ "map (observe C (sy_World y) (sy_World z)) R'"]) (auto simp: observe_def comp_def)
qed

text \<open>Steps that leave queue and lower device alone are quiet, and so is a worker that succeeds.\<close>

lemma quiet_steps: "(quiet L api C fit_request)\<^sup>*\<^sup>* a b \<Longrightarrow> (rstep L api C fit_request)\<^sup>*\<^sup>* a b"
  by (erule rtranclp_mono [THEN predicate2D, rotated]) (simp add: le_fun_def quiet_def)

lemma quiet_then: "quiet L api C fit_request a b \<Longrightarrow> (quiet L api C fit_request)\<^sup>*\<^sup>* b c \<Longrightarrow> (quiet L api C fit_request)\<^sup>*\<^sup>* a c"
  by (rule converse_rtranclp_into_rtranclp)

lemma quiet_reader:
  assumes "rstep L api C fit_request a b" "queue (rs_World b) = queue (rs_World a)"
    and "C (lower (rs_World b)) = C (lower (rs_World a))"
  shows "quiet L api C fit_request a b"
  using assms by (simp add: quiet_def visible_def view_def split: list.split)

lemma quiet_work:
  assumes "worker_step L built ls (sy_Worker y) (sy_World y) = Some (k, w)" "list_all (arrival_ok fit_request) (sy_Producers y)"
    and "view C w = view C (sy_World y)" "list_all (\<lambda>it. it_Irp it = None) (queue (sy_World y))"
  shows "\<exists>y' R'. quiet L api C fit_request \<lparr>rs_System = y, rs_Readers = R\<rparr> \<lparr>rs_System = y', rs_Readers = R'\<rparr> \<and>
     sy_World y' = w \<and> sy_Worker y' = k \<and> sy_Producers y' = sy_Producers y \<and>
     map rd_Phase R' = map rd_Phase R \<and> map rd_Request R' = map rd_Request R"
proof -
  let ?y = "y\<lparr>sy_Worker := k, sy_World := w, sy_Retired := sy_Retired y @ retired_by (sy_Worker y)\<rparr>"
  let ?R = "map (observe C (sy_World y) w) R"
  have "rstep L api C fit_request \<lparr>rs_System = y, rs_Readers = R\<rparr> \<lparr>rs_System = ?y, rs_Readers = ?R\<rparr>"
    using rstep.others [of L "\<lparr>rs_System = y, rs_Readers = R\<rparr>" ?y fit_request api C] step.work [OF assms(1)] assms(2) by simp
  then have "quiet L api C fit_request \<lparr>rs_System = y, rs_Readers = R\<rparr> \<lparr>rs_System = ?y, rs_Readers = ?R\<rparr>"
    using assms(3,4) by (auto simp: quiet_def visible_def split: list.split)
  then show ?thesis
    by (intro exI [of _ ?y] exI [of _ ?R]) (simp add: observe_def comp_def)
qed

lemma disk_executes:
  assumes "it_Irp it = None"
  shows "dispatch_lower disk True it d = Some (None, apply_item it d)"
proof -
  have "lazy_succeeds disk it d" using assms disk_all_succeed(1) by (simp add: lazy_succeeds_def all_succeed_def)
  then have "snd (lw_built disk (lazy_request it) d) = apply_item it d"
    using lower_after_dispatch [of disk id it d] disk_all_succeed(1) by (simp add: all_succeed_def)
  then show ?thesis
    using assms by (cases "lw_built disk (lazy_request it) d") (simp add: dispatch_lower_def)
qed

lemma worker_quiet:
  assumes "queue (sy_World y) = [it]" "it_Irp it = None" "sy_Worker y = Checking"
    and "list_all (arrival_ok fit_request) (sy_Producers y)"
  shows "\<exists>y' R'. (quiet disk api id fit_request)\<^sup>*\<^sup>* \<lparr>rs_System = y, rs_Readers = R\<rparr> \<lparr>rs_System = y', rs_Readers = R'\<rparr> \<and>
     queue (sy_World y') = [] \<and> map rd_Phase R' = map rd_Phase R \<and> map rd_Request R' = map rd_Request R"
proof -
  let ?w = "sy_World y"
  let ?w2 = "set_head it (?w\<lparr>lower := apply_item it (lower ?w)\<rparr>)"
  from quiet_work [of disk True 0 y "Dispatching it" ?w id api R] assms obtain y1 R1 where
    1: "quiet disk api id fit_request \<lparr>rs_System = y, rs_Readers = R\<rparr> \<lparr>rs_System = y1, rs_Readers = R1\<rparr>"
    "sy_World y1 = ?w" "sy_Worker y1 = Dispatching it" "sy_Producers y1 = sy_Producers y"
    "map rd_Phase R1 = map rd_Phase R" "map rd_Request R1 = map rd_Request R"
    by auto
  have v2: "view id ?w2 = view id ?w" "queue ?w2 = [it]"
    using assms(1) by (simp_all add: view_def set_head_def apply_item_idem)
  have "worker_step disk True 0 (Dispatching it) ?w = Some (Finishing it, ?w2)"
    using disk_executes [OF assms(2)] irp_cleared [OF assms(2)] by (simp add: worker_step_def)
  then obtain y2 R2 where
    2: "quiet disk api id fit_request \<lparr>rs_System = y1, rs_Readers = R1\<rparr> \<lparr>rs_System = y2, rs_Readers = R2\<rparr>"
    "sy_World y2 = ?w2" "sy_Worker y2 = Finishing it" "sy_Producers y2 = sy_Producers y"
    "map rd_Phase R2 = map rd_Phase R" "map rd_Request R2 = map rd_Request R"
    using quiet_work [of disk True 0 y1 "Finishing it" ?w2 id api R1] 1 assms v2(1) by auto
  let ?w3 = "dispatch_finish it ?w2"
  have v3: "view id ?w3 = view id ?w2" "queue ?w3 = []"
    using v2(2) by (simp_all add: view_def dispatch_finish_eq set_head_def apply_item_idem)
  then obtain y3 R3 where
    3: "quiet disk api id fit_request \<lparr>rs_System = y2, rs_Readers = R2\<rparr> \<lparr>rs_System = y3, rs_Readers = R3\<rparr>"
    "sy_World y3 = ?w3" "map rd_Phase R3 = map rd_Phase R" "map rd_Request R3 = map rd_Request R"
    using quiet_work [of disk True 0 y2 Checking ?w3 id api R2] 2 assms v2(2) by auto
  from 1(1) 2(1) 3(1) have "(quiet disk api id fit_request)\<^sup>*\<^sup>* \<lparr>rs_System = y, rs_Readers = R\<rparr> \<lparr>rs_System = y3, rs_Readers = R3\<rparr>"
    by (meson quiet_then r_into_rtranclp)
  with 3 v3(2) show ?thesis by (intro exI [of _ y3] exI [of _ R3]) simp
qed

lemma rstep_readI:
  assumes "read_step L api (rd_Phase (rs_Readers s ! n)) (rs_World s) = Some (r, w)" "n < length (rs_Readers s)"
    and "s' = set_phase n r (with_world w s)"
  shows "rstep L api C fit_request s s'"
  using rstep.reads [OF assms(2,1)] by (simp add: assms(3))

subsection \<open>A read over an uncovered stretch\<close>

definition arrived :: "'d world \<Rightarrow> irp \<Rightarrow> 'd system \<Rightarrow> ('d \<Rightarrow> contents) \<Rightarrow> reader \<Rightarrow> 'd rsystem" where
  "arrived w i y C r = \<lparr>rs_System = y\<lparr>sy_World := w\<rparr>,
     rs_Readers = [\<lparr>rd_Request = i, rd_Phase = r, rd_Seen = (\<lambda>p. {view C (sy_World y) p})\<rparr>]\<rparr>"

lemma reads_alone:
  assumes "read_step L api r w = Some (r', w')" "queue w' = queue w" "lower w' = lower w"
  shows "quiet L api C fit_request (arrived w i y C r) (arrived w' i y C r')"
proof (rule quiet_reader)
  show "rstep L api C fit_request (arrived w i y C r) (arrived w' i y C r')"
    by (rule rstep_readI [where n = 0]) (use assms in \<open>simp_all add: arrived_def set_phase_def with_world_def\<close>)
qed (use assms in \<open>simp_all add: arrived_def\<close>)

lemma read_arrives:
  assumes "asks L e i"
  shows "quiet L api C fit_request \<lparr>rs_System = y, rs_Readers = []\<rparr> (arrived (sy_World y) i y C (REnter e i))"
proof (rule quiet_reader)
  show "rstep L api C fit_request \<lparr>rs_System = y, rs_Readers = []\<rparr> (arrived (sy_World y) i y C (REnter e i))"
    using rstep.arrives [OF assms, of api C fit_request "\<lparr>rs_System = y, rs_Readers = []\<rparr>"] by (simp add: arrived_def)
qed (simp_all add: arrived_def)

text \<open>A valid read reaches the walk; over an uncovered stretch of the queue it is passed down.\<close>

definition counted :: "irp \<Rightarrow> 'd world \<Rightarrow> 'd world" where
  "counted i w = note_read_size (i\<lparr>ir_Information := 0\<rparr>) (count_read (i\<lparr>ir_Information := 0\<rparr>) w)"

lemma enter_valid:
  assumes "valid_read w i" "read_resources e"
  shows "read_enter L e i w = (RWalk e (i\<lparr>ir_Information := 0\<rparr>), counted i w)"
  using assms
  by (simp add: read_enter_def Let_def valid_read_def read_resources_def counted_def misaligned_def beyond_media_def)

lemma counted_frame [simp]: "queue (counted i w) = queue w" "lower (counted i w) = lower w"
  "Scatters (counted i w) = Scatters w" "Size (stats (counted i w)) = Size (stats w)"
  "LowMemCondition (counted i w) = LowMemCondition w" "IsCached (stats (counted i w)) = IsCached (stats w)"
  "admits e (stats (counted i w)) = admits e (stats w)" "fresh (counted i w) = fresh w"
  by (simp_all add: counted_def note_read_size_def count_read_def upd_stats_def admits_def fresh_def)

lemma stats_same [simp]: "upd_stats (\<lambda>_. stats w) w = w"
  by (simp add: upd_stats_def)

lemma locked_aside:
  assumes "\<not> list_ex (overlaps i) (queue w)"
  shows "read_locked e i w = Some (RWalked e i (replicate (bitmap_bits (ir_Length i)) False) False, w)"
proof -
  have "walk_queue i q a = Some a" if "\<not> list_ex (overlaps i) q" for q a
    using that by (induction q) simp_all
  with assms show ?thesis by (simp add: read_locked_def walk_start_def)
qed

lemma walked_aside:
  assumes "valid_read w i" "read_resources e" "asks L e i"
    and "\<not> list_ex (overlaps (i\<lparr>ir_Information := 0\<rparr>)) (queue w)" "sy_World y = w"
  shows "(quiet L api C fit_request)\<^sup>*\<^sup>* \<lparr>rs_System = y, rs_Readers = []\<rparr>
     (arrived (counted i w) i y C (RWalked e (i\<lparr>ir_Information := 0\<rparr>)
        (replicate (bitmap_bits (ir_Length i)) False) False))"
proof -
  let ?r = "RWalked e (i\<lparr>ir_Information := 0\<rparr>) (replicate (bitmap_bits (ir_Length i)) False) False"
  have "quiet L api C fit_request (arrived w i y C (REnter e i)) (arrived (counted i w) i y C (RWalk e (i\<lparr>ir_Information := 0\<rparr>)))"
    by (rule reads_alone) (simp_all add: enter_valid [OF assms(1,2)])
  moreover have "quiet L api C fit_request (arrived (counted i w) i y C (RWalk e (i\<lparr>ir_Information := 0\<rparr>)))
      (arrived (counted i w) i y C ?r)"
    by (rule reads_alone) (use assms(4) in \<open>simp_all add: locked_aside\<close>)
  ultimately show ?thesis
    using read_arrives [OF assms(3), of api C y] unfolding assms(5) by (meson quiet_then r_into_rtranclp)
qed

text \<open>The descent to the disk, and its answer.\<close>

lemma descends:
  assumes "rs_Readers s = [t]" "rd_Phase t = RWalked e i bm False"
  shows "\<exists>s' t' j. (quiet disk api id fit_request)\<^sup>*\<^sup>* s s' \<and> rs_Readers s' = [t'] \<and> rd_Phase t' = RDone j \<and>
     rd_Request t' = rd_Request t \<and> NT_SUCCESS (ir_Status j) \<and> queue (rs_World s') = queue (rs_World s)"
proof -
  obtain w where w: "read_step disk api (RWalked e i bm False) (rs_World s) = Some (RDown i, w)"
    "queue w = queue (rs_World s)" "lower w = lower (rs_World s)"
    by (auto simp: read_decide_def QCacheSendToNextDriver_def disk_def upd_stats_def)
  let ?s1 = "set_phase 0 (RDown i) (with_world w s)"
  let ?j = "i\<lparr>ir_Status := STATUS_SUCCESS, ir_Buffer := view_bytes (id (lower w)) i\<rparr>"
  let ?s2 = "set_phase 0 (RDone ?j) ?s1"
  have s1: "rs_Readers ?s1 = [t\<lparr>rd_Phase := RDown i\<rparr>]" "rs_World ?s1 = w"
    using assms(1) by (simp_all add: set_phase_def with_world_def)
  have s2: "rs_Readers ?s2 = [t\<lparr>rd_Phase := RDone ?j\<rparr>]" "rs_World ?s2 = w"
    using s1 unfolding set_phase_def [of 0 "RDone ?j"] by simp_all
  have "rstep disk api id fit_request s ?s1"
    by (rule rstep_readI [where n = 0]) (use assms w(1) in simp_all)
  moreover have "rstep disk api id fit_request ?s1 ?s2"
    by (rule rstep.passed [where i = i]) (simp_all add: s1 same_request_def view_bytes_def)
  ultimately have "quiet disk api id fit_request s ?s1" "quiet disk api id fit_request ?s1 ?s2"
    using w s1 s2 by (auto intro!: quiet_reader)
  then have "(quiet disk api id fit_request)\<^sup>*\<^sup>* s ?s2" by (meson quiet_then r_into_rtranclp)
  with s2 w(2) show ?thesis
    by (intro exI [of _ ?s2] exI [of _ "t\<lparr>rd_Phase := RDone ?j\<rparr>"] exI [of _ ?j]) simp
qed

subsection \<open>A write between the walk and the descent\<close>

lemma volume_rreachable:
  assumes "(rstep disk linear_bitmap_api id fit_request)\<^sup>*\<^sup>* (rinitial 1 volume) s"
  shows "rreachable disk linear_bitmap_api id fit_request 1 s"
  unfolding rreachable_def using assms by (intro exI [of _ volume]) simp

lemma two_sector_asks: "asks disk good_env two_sector_read"
  by (simp add: asks_def two_sector_read_def)

lemma overtaken_read:
  "\<exists>s t j. rreachable disk linear_bitmap_api id fit_request 1 s \<and> t \<in> set (rs_Readers s) \<and> rd_Phase t = RDone j \<and>
     NT_SUCCESS (ir_Status j) \<and> rd_Request t = two_sector_read \<and> queue (rs_World s) = [lazy_item sector_write]"
proof -
  let ?i = "two_sector_read\<lparr>ir_Information := 0\<rparr>" and ?w = "counted two_sector_read volume"
  let ?r = "RWalked good_env ?i (replicate (bitmap_bits (ir_Length two_sector_read)) False) False"
  let ?s1 = "arrived ?w two_sector_read (initial 1 volume) id ?r"
  have 1: "(quiet disk linear_bitmap_api id fit_request)\<^sup>*\<^sup>* (rinitial 1 volume) ?s1"
    unfolding rinitial_def
    by (rule walked_aside) (use two_sector_valid(2) two_sector_asks in \<open>simp_all add: initial_def\<close>)
  have s1: "?s1 = \<lparr>rs_System = initial 1 ?w, rs_Readers = rs_Readers ?s1\<rparr>"
    by (simp add: arrived_def initial_def)
  obtain b where b: "(brings disk sector_write)\<^sup>*\<^sup>* (initial 1 ?w) b" "queue (sy_World b) = [lazy_item sector_write]"
    using inserted_write_by [of ?w good_env sector_write disk] volume_admits sector_write_valid by auto
  from beside_readers [OF b(1) sector_write_fit, of linear_bitmap_api id "rs_Readers ?s1"]
  obtain R' where R': "(rstep disk linear_bitmap_api id fit_request)\<^sup>*\<^sup>* ?s1 \<lparr>rs_System = b, rs_Readers = R'\<rparr>"
    "map rd_Phase R' = map rd_Phase (rs_Readers ?s1)" "map rd_Request R' = map rd_Request (rs_Readers ?s1)"
    unfolding s1 [symmetric] by blast
  then obtain t where t: "R' = [t]" "rd_Phase t = ?r" "rd_Request t = two_sector_read"
    by (auto simp: arrived_def)
  from descends [of "\<lparr>rs_System = b, rs_Readers = R'\<rparr>" t good_env ?i _ linear_bitmap_api] t obtain s' t' j where
    s': "(quiet disk linear_bitmap_api id fit_request)\<^sup>*\<^sup>* \<lparr>rs_System = b, rs_Readers = R'\<rparr> s'" "rs_Readers s' = [t']"
    "rd_Phase t' = RDone j" "rd_Request t' = rd_Request t" "NT_SUCCESS (ir_Status j)"
    "queue (rs_World s') = queue (sy_World b)"
    by auto
  have "(rstep disk linear_bitmap_api id fit_request)\<^sup>*\<^sup>* (rinitial 1 volume) s'"
    using quiet_steps [OF 1] R'(1) quiet_steps [OF s'(1)] by (meson rtranclp_trans)
  then have "rreachable disk linear_bitmap_api id fit_request 1 s'" by (rule volume_rreachable)
  with s' t b(2) show ?thesis
    by (intro exI [of _ s'] exI [of _ t'] exI [of _ j]) simp
qed

theorem concurrent_read_regular_witness:
  "\<exists>s t j. rreachable disk linear_bitmap_api id fit_request 1 s \<and> t \<in> set (rs_Readers s) \<and> rd_Phase t = RDone j \<and>
     rd_Request t = two_sector_read \<and> queue (rs_World s) = [lazy_item sector_write] \<and>
     ir_id j = ir_id (rd_Request t) \<and>
     ir_Buffer j ! 600 \<in> rd_Seen t (sint (ir_ByteOffset (rd_Request t)) + int 600)"
proof -
  obtain s t j where s: "rreachable disk linear_bitmap_api id fit_request 1 s" "t \<in> set (rs_Readers s)" "rd_Phase t = RDone j"
    "NT_SUCCESS (ir_Status j)" "rd_Request t = two_sector_read" "queue (rs_World s) = [lazy_item sector_write]"
    using overtaken_read by blast
  have k: "600 < unat (ir_Length (rd_Request t))" using s(5) by (simp add: two_sector_read_def)
  from concurrent_read_regular [OF linear_runs disk_reads_or_fails disk_bytewise s(1-4) k] s show ?thesis by blast
qed

text \<open>
  A read of a queued sector and of one that is only on the disk, on a device that answers later:
  its lower read is out.
\<close>

definition late_disk :: "contents lower_driver" where
  "late_disk = disk\<lparr>lw_read := (\<lambda>lo d. (None, d))\<rparr>"

lemma late_disk_ok [simp]: "reads_or_fails late_disk id" "bytewise late_disk id"
  "lw_flags late_disk = DO_DIRECT_IO" "lw_read late_disk lo d = (None, d)" "direct_io late_disk good_env"
  by (auto simp: late_disk_def direct_io_def has_flag_def reads_or_fails_def bytewise_def disk_def split: option.splits)

lemma two_sector_walk:
  assumes "queue w = [lazy_item sector_write]"
  shows "\<exists>i' w'. read_locked e (two_sector_read\<lparr>ir_Information := 0\<rparr>) w = Some (RWalked e i' [False, True] True, w') \<and>
     ir_ByteOffset i' = 0 \<and> ir_Length i' = 1024 \<and> queue w' = queue w \<and> lower w' = lower w"
  using assms
  by (simp add: read_locked_def walk_start_def copy_item_def overlaps_def lazy_item_def sector_write_def new_item_def
      two_sector_read_def Let_def ll_max_def ll_min_def RtlCopyMemory_def RtlSetBits_def bitmap_bits_def upd_stats_def
      word_sless_alt word_sle_eq is_write_def)

lemma outstanding_read:
  "\<exists>s t sc. rreachable late_disk linear_bitmap_api id fit_request 1 s \<and> rs_Readers s = [t] \<and>
     rd_Phase t = RLeave 1 sc \<and> length (sc_Outstanding sc) = 1"
proof -
  obtain b where b: "(brings late_disk sector_write)\<^sup>*\<^sup>* (initial 1 volume) b" "queue (sy_World b) = [lazy_item sector_write]"
    "Size (stats (sy_World b)) = 4096"
    using inserted_write_by [of volume good_env sector_write late_disk] volume_admits sector_write_valid by auto
  let ?i = "two_sector_read" and ?C = "id :: contents \<Rightarrow> contents"
  let ?w0 = "sy_World b"
  let ?w1 = "counted ?i ?w0"
  have asks: "asks late_disk good_env ?i" by (simp add: asks_def two_sector_read_def)
  have valid: "valid_read ?w0 ?i"
    using written_sectors b(2,3)
    by (simp add: valid_read_def misaligned_def beyond_media_def two_sector_read_def word_sle_eq
      word_sless_alt written_queue)
  obtain i' w2 where w2: "read_locked good_env (?i\<lparr>ir_Information := 0\<rparr>) ?w1 = Some (RWalked good_env i' [False, True] True, w2)"
    "ir_ByteOffset i' = 0" "ir_Length i' = 1024" "queue w2 = queue ?w1" "lower w2 = lower ?w1"
    using two_sector_walk [of ?w1 good_env] b(2) by auto
  have clear: "RtlFindFirstRunClear linear_bitmap_api [False, True] = (1, 0)"
    "RtlFindNextForwardRunClear linear_bitmap_api [False, True] 1 = (0, 2)"
    by (simp_all add: linear_bitmap_api_def find_clear_def)
  obtain sc w3 where w3: "read_decide late_disk good_env linear_bitmap_api i' [False, True] True w2
      = (RGap good_env [False, True] 0 0 1 0 sc, w3)"
    "queue w3 = queue w2" "lower w3 = lower w2" "sc_Outstanding sc = []" "sc_OriginalIrp sc = i'"
    "sc_OriginalFlags sc = DO_DIRECT_IO"
    using w2(2) by (simp add: read_decide_def clear SCATTERED_IRP_Create_def IoAcquireRemoveLock_def)
  have builds: "irp_alloc (build_alloc good_env 0)" "partial_mdl_alloc (build_alloc good_env 0)"
    by (simp_all add: good_env_def good_build_def)
  obtain sc' w4 where w4: "read_gap late_disk good_env linear_bitmap_api [False, True] 0 0 1 0 sc w3
      = Some (RLeave 1 sc', w4)" "queue w4 = queue w3" "lower w4 = lower w3" "length (sc_Outstanding sc') = 1"
    using w3(2-6) clear(2) builds
    by (simp add: read_gap_def BuildIrp_def build_done_def answered_def upd_stats_def Let_def has_flag_def [of 16 16]
        has_flag_def [of 16 4])
  let ?a = "\<lambda>w r. arrived w ?i b ?C r"
  have "quiet late_disk linear_bitmap_api ?C fit_request \<lparr>rs_System = b, rs_Readers = []\<rparr> (?a ?w0 (REnter good_env ?i))"
    by (rule read_arrives [OF asks])
  moreover have "quiet late_disk linear_bitmap_api ?C fit_request (?a ?w0 (REnter good_env ?i))
      (?a ?w1 (RWalk good_env (?i\<lparr>ir_Information := 0\<rparr>)))"
    by (rule reads_alone) (simp_all add: enter_valid [OF valid])
  moreover have "quiet late_disk linear_bitmap_api ?C fit_request (?a ?w1 (RWalk good_env (?i\<lparr>ir_Information := 0\<rparr>)))
      (?a w2 (RWalked good_env i' [False, True] True))"
    by (rule reads_alone) (use w2 in simp_all)
  moreover have "quiet late_disk linear_bitmap_api ?C fit_request (?a w2 (RWalked good_env i' [False, True] True))
      (?a w3 (RGap good_env [False, True] 0 0 1 0 sc))"
    by (rule reads_alone) (use w3 in simp_all)
  moreover have "quiet late_disk linear_bitmap_api ?C fit_request (?a w3 (RGap good_env [False, True] 0 0 1 0 sc))
      (?a w4 (RLeave 1 sc'))"
    by (rule reads_alone) (use w4 in simp_all)
  ultimately have "(quiet late_disk linear_bitmap_api ?C fit_request)\<^sup>*\<^sup>* \<lparr>rs_System = b, rs_Readers = []\<rparr> (?a w4 (RLeave 1 sc'))"
    by (meson quiet_then r_into_rtranclp)
  moreover have "(rstep late_disk linear_bitmap_api ?C fit_request)\<^sup>*\<^sup>* (rinitial 1 volume) \<lparr>rs_System = b, rs_Readers = []\<rparr>"
    using beside_readers [OF b(1) sector_write_fit, of linear_bitmap_api ?C "[]"] by (auto simp: rinitial_def)
  ultimately have "(rstep late_disk linear_bitmap_api ?C fit_request)\<^sup>*\<^sup>* (rinitial 1 volume) (?a w4 (RLeave 1 sc'))"
    by (meson quiet_steps rtranclp_trans)
  then have "rreachable late_disk linear_bitmap_api ?C fit_request 1 (?a w4 (RLeave 1 sc'))"
    unfolding rreachable_def by (intro exI [of _ volume]) simp
  with w4(4) show ?thesis
    by (intro exI [of _ "?a w4 (RLeave 1 sc')"]) (simp add: arrived_def)
qed

theorem concurrent_typed_witness:
  "\<exists>s t sc. rreachable late_disk linear_bitmap_api id fit_request 1 s \<and> t \<in> set (rs_Readers s) \<and>
     scatter_of (rd_Phase t) = Some (1, sc) \<and> sint (sc_ScatterCount sc) = 2 \<and>
     list_all (\<lambda>lo. case lo_Target lo of
            OriginalMdl k \<Rightarrow> k + unat (lo_Length lo) \<le> unat (ir_Length (rd_Request t)) \<and>
              sint (lo_ByteOffset lo) = sint (ir_ByteOffset (rd_Request t)) + int k
          | _ \<Rightarrow> False) (sc_Outstanding sc)"
proof -
  obtain s t sc where s: "rreachable late_disk linear_bitmap_api id fit_request 1 s" "rs_Readers s = [t]"
    "rd_Phase t = RLeave 1 sc" "length (sc_Outstanding sc) = 1"
    using outstanding_read by blast
  from concurrent_typed [OF linear_runs late_disk_ok(1,2) s(1)] s(2-4)
  have "sint (sc_ScatterCount sc) = 2" "list_all (\<lambda>lo. case lo_Target lo of
            OriginalMdl k \<Rightarrow> k + unat (lo_Length lo) \<le> unat (ir_Length (rd_Request t)) \<and>
              sint (lo_ByteOffset lo) = sint (ir_ByteOffset (rd_Request t)) + int k
          | _ \<Rightarrow> False) (sc_Outstanding sc)"
    by (simp_all add: scatter_of_def)
  with s show ?thesis by (intro exI [of _ s] exI [of _ t] exI [of _ sc]) (simp add: scatter_of_def)
qed

theorem readers_wait_free_witness:
  "\<exists>s t. rreachable disk linear_bitmap_api id fit_request 1 s \<and> t \<in> set (rs_Readers s) \<and>
     (\<exists>r w. read_step disk linear_bitmap_api (rd_Phase t) (rs_World s) = Some (r, w) \<and>
     steps_left r < steps_left (rd_Phase t) \<and>
     steps_left (rd_Phase t) \<le> 5 + unat (ir_Length (rd_Request t)) div 512)"
proof -
  let ?s = "arrived volume two_sector_read (initial 1 volume) id (REnter good_env two_sector_read)"
  have "quiet disk linear_bitmap_api id fit_request (rinitial 1 volume) ?s"
    using read_arrives [OF two_sector_asks, of linear_bitmap_api id "initial 1 volume"]
    by (simp add: rinitial_def initial_def)
  then have s: "rreachable disk linear_bitmap_api id fit_request 1 ?s"
    using quiet_steps [OF r_into_rtranclp] volume_rreachable by blast
  let ?t = "hd (rs_Readers ?s)"
  have "?t \<in> set (rs_Readers ?s)" "\<not> at_rest (rd_Phase ?t)" by (simp_all add: arrived_def)
  with readers_wait_free [OF linear_runs disk_reads_or_fails disk_bytewise s, of ?t] s show ?thesis by blast
qed

subsection \<open>A read while the worker drains the queue\<close>

definition first_sector_read :: irp where
  "first_sector_read = request 5 IRP_MJ_READ 0 512 0"

lemma first_sector_aside:
  "\<not> overlaps (first_sector_read\<lparr>ir_Information := 0\<rparr>) (lazy_item sector_write)"
  by (simp add: overlaps_def first_sector_read_def lazy_item_def sector_write_def word_sless_alt)

lemma first_sector_valid:
  "queue w = [lazy_item sector_write] \<Longrightarrow> Size (stats w) = 4096 \<Longrightarrow> valid_read w first_sector_read"
  using written_sectors
  by (simp add: valid_read_def misaligned_def beyond_media_def first_sector_read_def word_sle_eq
      word_sless_alt written_queue)

lemma drained_read:
  "\<exists>s0 s j. rreachable disk linear_bitmap_api id fit_request 1 s0 \<and> queue (rs_World s0) = [lazy_item sector_write] \<and>
     (quiet disk linear_bitmap_api id fit_request)\<^sup>*\<^sup>* s0 s \<and> queue (rs_World s) = [] \<and> rs_Readers s0 = [] \<and>
     length (rs_Readers s) = 1 \<and> rd_Request (rs_Readers s ! 0) = first_sector_read \<and>
     rd_Phase (rs_Readers s ! 0) = RDone j \<and> NT_SUCCESS (ir_Status j)"
proof -
  obtain b where b: "(brings disk sector_write)\<^sup>*\<^sup>* (initial 1 volume) b" "sy_Worker b = Checking"
    "queue (sy_World b) = [lazy_item sector_write]" "Size (stats (sy_World b)) = 4096"
    using inserted_write_by [of volume good_env sector_write disk] volume_admits sector_write_valid by auto
  let ?s0 = "\<lparr>rs_System = b, rs_Readers = []\<rparr>" and ?i = "first_sector_read"
  have "(rstep disk linear_bitmap_api id fit_request)\<^sup>*\<^sup>* (rinitial 1 volume) ?s0"
    using beside_readers [OF b(1) sector_write_fit, of linear_bitmap_api id "[]"] by (auto simp: rinitial_def)
  then have r0: "rreachable disk linear_bitmap_api id fit_request 1 ?s0" by (rule volume_rreachable)
  have arr: "list_all (arrival_ok fit_request) (sy_Producers b)"
    using rreachable_ok [OF r0 linear_runs disk_reads_or_fails disk_bytewise]
    by (auto simp: rsystem_ok_def system_ok_def list_all_iff intro: fit_arrives)
  let ?r = "RWalked good_env (?i\<lparr>ir_Information := 0\<rparr>) (replicate (bitmap_bits (ir_Length ?i)) False) False"
  let ?s1 = "arrived (counted ?i (sy_World b)) ?i b id ?r"
  have 1: "(quiet disk linear_bitmap_api id fit_request)\<^sup>*\<^sup>* ?s0 ?s1"
    by (rule walked_aside [OF first_sector_valid [OF b(3,4)]])
      (use b(3) first_sector_aside in \<open>simp_all add: asks_def first_sector_read_def\<close>)
  let ?y = "rs_System ?s1"
  have s1: "?s1 = \<lparr>rs_System = ?y, rs_Readers = rs_Readers ?s1\<rparr>" by simp
  from worker_quiet [of ?y "lazy_item sector_write" linear_bitmap_api "rs_Readers ?s1"] b(2,3) arr obtain y' R' where
    2: "(quiet disk linear_bitmap_api id fit_request)\<^sup>*\<^sup>* ?s1 \<lparr>rs_System = y', rs_Readers = R'\<rparr>" "queue (sy_World y') = []"
    "map rd_Phase R' = map rd_Phase (rs_Readers ?s1)" "map rd_Request R' = map rd_Request (rs_Readers ?s1)"
    unfolding s1 [symmetric] by (auto simp: arrived_def)
  then obtain t where t: "R' = [t]" "rd_Phase t = ?r" "rd_Request t = ?i" by (auto simp: arrived_def)
  from descends [of "\<lparr>rs_System = y', rs_Readers = R'\<rparr>" t good_env "?i\<lparr>ir_Information := 0\<rparr>" _ linear_bitmap_api] t
  obtain s' t' j where
    s': "(quiet disk linear_bitmap_api id fit_request)\<^sup>*\<^sup>* \<lparr>rs_System = y', rs_Readers = R'\<rparr> s'" "rs_Readers s' = [t']"
    "rd_Phase t' = RDone j" "rd_Request t' = rd_Request t" "NT_SUCCESS (ir_Status j)"
    "queue (rs_World s') = queue (sy_World y')"
    by auto
  have "(quiet disk linear_bitmap_api id fit_request)\<^sup>*\<^sup>* ?s0 s'" using 1 2(1) s'(1) by (meson rtranclp_trans)
  with r0 b(3) 2(2) s' t show ?thesis
    by (intro exI [of _ ?s0] exI [of _ s'] exI [of _ j]) simp
qed

theorem quiet_read_exact_witness:
  "\<exists>s0 s j. rreachable disk linear_bitmap_api id fit_request 1 s0 \<and> queue (rs_World s0) = [lazy_item sector_write] \<and>
     (quiet disk linear_bitmap_api id fit_request)\<^sup>*\<^sup>* s0 s \<and> queue (rs_World s) = [] \<and>
     rd_Request (rs_Readers s ! 0) = first_sector_read \<and> rd_Phase (rs_Readers s ! 0) = RDone j \<and>
     ir_Buffer j ! 100 =
       view id (rs_World s0) (sint (ir_ByteOffset (rd_Request (rs_Readers s ! 0))) + int 100)"
proof -
  obtain s0 s j where s: "rreachable disk linear_bitmap_api id fit_request 1 s0" "(quiet disk linear_bitmap_api id fit_request)\<^sup>*\<^sup>* s0 s"
    "queue (rs_World s0) = [lazy_item sector_write]" "queue (rs_World s) = []" "rs_Readers s0 = []"
    "length (rs_Readers s) = 1" "rd_Request (rs_Readers s ! 0) = first_sector_read"
    "rd_Phase (rs_Readers s ! 0) = RDone j" "NT_SUCCESS (ir_Status j)"
    using drained_read by blast
  have "length (rs_Readers s0) \<le> 0" "0 < length (rs_Readers s)"
    "100 < unat (ir_Length (rd_Request (rs_Readers s ! 0)))"
    using s(5-7) by (simp_all add: first_sector_read_def)
  note m = this
  from quiet_read_exact [OF linear_runs disk_reads_or_fails disk_bytewise s(1,2) m(1,2) s(8,9) m(3)] s show ?thesis
    by blast
qed


subsection \<open>Counters, ownership and progress with readers\<close>

theorem counts_exact_with_readers_witness:
  "\<exists>s. rreachable disk linear_bitmap_api id fit_request 1 s \<and> queue (rs_World s) = [lazy_item sector_write] \<and>
     rs_Readers s \<noteq> [] \<and>
     WriteQueueItems (stats (rs_World s)) = of_nat (length (queue (rs_World s))) \<and>
     WriteQueueSize (stats (rs_World s)) = sum_list (map item_cost (queue (rs_World s))) \<and>
     length (queue (rs_World s)) + splits_live s \<le> RemoveLock (ext (rs_World s)) \<and>
     sy_Inserted (rs_System s) = sy_Retired (rs_System s) @ map plain (queue (rs_World s))"
proof -
  obtain s t j where s: "rreachable disk linear_bitmap_api id fit_request 1 s" "t \<in> set (rs_Readers s)" "rd_Phase t = RDone j"
    "NT_SUCCESS (ir_Status j)" "rd_Request t = two_sector_read" "queue (rs_World s) = [lazy_item sector_write]"
    using overtaken_read by blast
  from counts_exact_with_readers [OF s(1)] s(1,2,6) show ?thesis by (metis empty_iff list.set(1))
qed

lemma handed_in_run:
  "(rstep L api C fit_request)\<^sup>*\<^sup>* a s \<Longrightarrow> handed_in L api C fit_request A a \<Longrightarrow> \<exists>B. handed_in L api C fit_request (A + B) s"
proof (induction rule: rtranclp_induct)
  case base
  then show ?case by (intro exI [of _ "{#}"]) simp
next
  case (step y z)
  then obtain B where "handed_in L api C fit_request (A + B) y" by blast
  from handed_in.next_step [OF this step(2)] show ?case by (auto simp: add.assoc)
qed

text \<open>The read has arrived, and what comes after it is counted on top.\<close>

lemma read_handed_in:
  "handed_in disk linear_bitmap_api id fit_request (owned volume + {#ir_id two_sector_read#})
     (arrived volume two_sector_read (initial 1 volume) id (REnter good_env two_sector_read))"
proof -
  let ?s = "arrived volume two_sector_read (initial 1 volume) id (REnter good_env two_sector_read)"
  have "handed_in disk linear_bitmap_api id fit_request (owned volume) (rinitial 1 volume)"
    by (rule handed_in.start) simp_all
  moreover have "rstep disk linear_bitmap_api id fit_request (rinitial 1 volume) ?s"
    using rstep.arrives [OF two_sector_asks, of linear_bitmap_api id fit_request "rinitial 1 volume"]
    by (simp add: arrived_def rinitial_def initial_def)
  moreover have "arriving (rinitial 1 volume) ?s = {#ir_id two_sector_read#}"
    by (simp add: arriving_same arrived_def rinitial_def)
  ultimately show ?thesis by (metis handed_in.next_step)
qed

theorem each_request_in_one_place_witness:
  "\<exists>s A. handed_in disk linear_bitmap_api id fit_request A s \<and> ir_id two_sector_read \<in># A \<and>
     rd_Phase (rs_Readers s ! 0) = REnter good_env two_sector_read \<and>
     queue (rs_World s) = [lazy_item sector_write] \<and>
     places s = A \<and> (\<forall>x. count (mset (map ir_id (Completed (rs_World s)))) x \<le> count A x)"
proof -
  let ?a = "arrived volume two_sector_read (initial 1 volume) id (REnter good_env two_sector_read)"
  have a: "?a = \<lparr>rs_System = initial 1 volume, rs_Readers = rs_Readers ?a\<rparr>" by (simp add: arrived_def initial_def)
  obtain b where b: "(brings disk sector_write)\<^sup>*\<^sup>* (initial 1 volume) b" "queue (sy_World b) = [lazy_item sector_write]"
    using inserted_write_by [of volume good_env sector_write disk] volume_admits sector_write_valid by auto
  from beside_readers [OF b(1) sector_write_fit, of linear_bitmap_api id "rs_Readers ?a"]
  obtain R where R: "(rstep disk linear_bitmap_api id fit_request)\<^sup>*\<^sup>* ?a \<lparr>rs_System = b, rs_Readers = R\<rparr>"
    "map rd_Phase R = map rd_Phase (rs_Readers ?a)"
    unfolding a [symmetric] by blast
  from handed_in_run [OF R(1) read_handed_in] obtain B where
    B: "handed_in disk linear_bitmap_api id fit_request (owned volume + {#ir_id two_sector_read#} + B)
          \<lparr>rs_System = b, rs_Readers = R\<rparr>" (is "handed_in _ _ _ _ ?A ?s")
    by blast
  have "rd_Phase (R ! 0) = REnter good_env two_sector_read" using R(2) by (auto simp: arrived_def)
  moreover have "ir_id two_sector_read \<in># ?A" by simp
  moreover note each_request_in_one_place [OF linear_runs disk_reads_or_fails disk_bytewise disk_same_irp B]
  ultimately show ?thesis using B b(2) by (intro exI [of _ ?s] exI [of _ ?A]) simp
qed

theorem readers_complete_witness:
  "\<exists>s s' j. rreachable disk linear_bitmap_api id fit_request 1 s \<and> queue (rs_World s) = [lazy_item sector_write] \<and>
     rd_Phase (rs_Readers s ! 0) = REnter good_env two_sector_read \<and>
     (alone disk linear_bitmap_api id fit_request 0)\<^sup>*\<^sup>* s s' \<and> rd_Phase (rs_Readers s' ! 0) = RDone j \<and>
     queue (rs_World s') = queue (rs_World s) \<and> same_request (rd_Request (rs_Readers s ! 0)) j"
proof -
  obtain b where b: "(brings disk sector_write)\<^sup>*\<^sup>* (initial 1 volume) b" "queue (sy_World b) = [lazy_item sector_write]"
    using inserted_write_by [of volume good_env sector_write disk] volume_admits sector_write_valid by auto
  let ?s = "arrived (sy_World b) two_sector_read b id (REnter good_env two_sector_read)"
  have "(rstep disk linear_bitmap_api id fit_request)\<^sup>*\<^sup>* (rinitial 1 volume) \<lparr>rs_System = b, rs_Readers = []\<rparr>"
    using beside_readers [OF b(1) sector_write_fit, of linear_bitmap_api id "[]"] by (auto simp: rinitial_def)
  moreover have "quiet disk linear_bitmap_api id fit_request \<lparr>rs_System = b, rs_Readers = []\<rparr> ?s"
    by (rule read_arrives [OF two_sector_asks])
  ultimately have s: "rreachable disk linear_bitmap_api id fit_request 1 ?s"
    by (meson quiet_steps r_into_rtranclp rtranclp_trans volume_rreachable)
  have "0 < length (rs_Readers ?s)" by (simp add: arrived_def)
  note c = readers_complete [OF linear_runs disk_reads_or_fails disk_bytewise s this]
  have "queue (rs_World ?s) = [lazy_item sector_write]"
    "rd_Phase (rs_Readers ?s ! 0) = REnter good_env two_sector_read"
    using b(2) by (simp_all add: arrived_def)
  with c s show ?thesis by blast
qed

end
