(* ===== verification/QC_Later.thy ===== *)
theory QC_Later
  imports QC_Handlers QC_ReadSteps
begin

section \<open>What comes after a write\<close>

text \<open>
  The requests that may follow an acknowledged write before it is read back: further cached
  writes, cached flushes, reads of any kind with any outcome, and the work of the worker thread,
  in any order. None of them changes the logical contents except the writes, which change them as
  writes to a device would.
\<close>

subsection \<open>Cached writes and flushes\<close>

lemma write_keeps [simp]:
  "IsCached (stats (note_write_size i (count_write i w))) = IsCached (stats w)"
  "admits e (stats (note_write_size i (count_write i w))) = admits e (stats w)"
  "beyond_media (stats (count_write i w)) i = beyond_media (stats w) i"
  "LowMemCondition (note_write_size i (count_write i w)) = LowMemCondition w"
  by (simp_all add: note_write_size_def count_write_def upd_stats_def admits_def beyond_media_def)

definition cached_write :: "env \<Rightarrow> irp \<Rightarrow> 'd world \<Rightarrow> bool" where
  "cached_write e i w \<longleftrightarrow>
     IsCached (stats w) \<and> Size (stats w) \<noteq> 0 \<and> LowMemCondition w \<noteq> None \<and> admits e (stats w) \<and>
     lazy_resources e i \<and> ir_MajorFunction i = IRP_MJ_WRITE \<and> ir_Length i \<noteq> 0 \<and> wf_transfer i \<and>
     \<not> beyond_media (stats w) i"

lemma cached_write_accepts:
  assumes "cached_write e i w"
  shows "QCacheWrite L e i w =
     Some (STATUS_SUCCESS, accepted i ((note_write_size i (count_write i w))\<lparr>LowMemCondition := Some False\<rparr>))"
proof -
  let ?w = "note_write_size i (count_write i w)"
  obtain b where "LowMemCondition w = Some b" using assms by (auto simp: cached_write_def)
  then have "KeSetLowMem False ?w = Some (?w\<lparr>LowMemCondition := Some False\<rparr>)"
    by (simp add: KeSetLowMem_def)
  then show ?thesis
    using assms lazy_write_accepts [of e i "?w\<lparr>LowMemCondition := Some False\<rparr>"]
    by (simp add: QCacheWrite_def QCacheQueueIrp_def cached_write_def Let_def)
qed

lemma write_frame:
  "view C ((note_write_size i (count_write i w))\<lparr>LowMemCondition := b\<rparr>) = view C w"
  "lower ((note_write_size i (count_write i w))\<lparr>LowMemCondition := b\<rparr>) = lower w"
  "queue ((note_write_size i (count_write i w))\<lparr>LowMemCondition := b\<rparr>) = queue w"
  "Completed ((note_write_size i (count_write i w))\<lparr>LowMemCondition := b\<rparr>) = Completed w"
  "queue_inv ((note_write_size i (count_write i w))\<lparr>LowMemCondition := b\<rparr>) = queue_inv w"
  "Scatters ((note_write_size i (count_write i w))\<lparr>LowMemCondition := b\<rparr>) = Scatters w"
  by (simp_all add: note_write_size_def count_write_def upd_stats_def view_def queue_inv_def)

lemma accepted_frame:
  "lower (accepted i w) = lower w" "queue (accepted i w) = queue w @ [lazy_item i]"
  "Completed (accepted i w) = Completed w @ [lazy_completion i]"
  "Scatters (accepted i w) = Scatters w" "Size (stats (accepted i w)) = Size (stats w)"
  by (simp_all add: accepted_def Let_def insert_item_eq qc_simps)

subsection \<open>Reads leave queue and contents alone\<close>

definition kept :: "('d \<Rightarrow> contents) \<Rightarrow> 'd world \<Rightarrow> 'd world \<Rightarrow> bool" where
  "kept C w w' \<longleftrightarrow> queue w' = queue w \<and> C (lower w') = C (lower w)"

lemma kept_trans: "kept C w1 w2 \<Longrightarrow> kept C w2 w3 \<Longrightarrow> kept C w1 w3"
  by (simp add: kept_def)

lemma kept_frame [simp]:
  "kept C w (upd_stats f w)" "kept C w (IoCompleteRequest i w)" "kept C w (IoReleaseRemoveLock w)"
  "kept C w (snd (IoAcquireRemoveLock e w))" "kept C w (w\<lparr>Scatters := s\<rparr>)" "kept C w w"
  "kept C w (count_read i w)" "kept C w (note_read_size j (count_read i w))"
  by (simp_all add: kept_def qc_simps count_read_def note_read_size_def)

lemma built_major:
  "BuildIrp b mf flags off n loff sc = Some (Some lo, sc') \<Longrightarrow> lo_MajorFunction lo = mf"
  by (auto simp: BuildIrp_def build_failed_def build_done_def Let_def bind_eq_Some_conv split: if_splits)

lemma gaps_kept:
  assumes "reads_or_fails L C"
  shows "read_gaps n L e api bm off ci cb s sc w = Some (s', sc', w') \<Longrightarrow> kept C w w'"
proof (induction n arbitrary: ci cb s sc w)
  case 0
  then show ?case by simp
next
  case (Suc n)
  let ?w1 = "upd_stats (\<lambda>st. st\<lparr>ReadBytesFromOriginal :=
                  ReadBytesFromOriginal st + push_bit 9 (of_nat cb)\<rparr>) w"
  obtain cb' ci' where nx: "RtlFindNextForwardRunClear api bm (ci + cb) = (cb', ci')" by fastforce
  obtain r sc1 where B: "BuildIrp (build_alloc e s) IRP_MJ_READ (lw_flags L) (push_bit 9 (of_nat ci))
      (push_bit 9 (of_nat cb)) (off + push_bit 9 (of_nat ci)) sc = Some (r, sc1)"
    using Suc.prems by (auto simp: bind_eq_Some_conv)
  show ?case
  proof (cases r)
    case None
    with Suc.prems B show ?thesis by simp
  next
    case (Some lo)
    obtain ans d where ad: "lw_read L lo (lower ?w1) = (ans, d)" by fastforce
    have "C (snd (lw_read L lo (lower ?w1))) = C (lower ?w1)"
      using assms built_major [OF B [unfolded Some]] by (simp add: reads_or_fails_def)
    moreover have "lw_read L lo (lower w) = (ans, d)" "lower ?w1 = lower w" using ad by (simp_all add: upd_stats_def)
    ultimately have low: "kept C w (?w1\<lparr>lower := d\<rparr>)" by (simp add: kept_def) (simp add: upd_stats_def)
    from Suc.prems B Some ad nx obtain sc2 where
      "(if 0 < cb' then read_gaps n L e api bm off ci' cb' (Suc s) sc2 (?w1\<lparr>lower := d\<rparr>)
        else Some (Suc s, sc2, ?w1\<lparr>lower := d\<rparr>)) = Some (s', sc', w')"
      by (auto simp: Let_def bind_eq_Some_conv)
    with Suc.IH low show ?thesis by (cases "0 < cb'") (auto intro: kept_trans)
  qed
qed

lemma settle_kept: "settle sc w = Some w' \<Longrightarrow> kept C w w'"
  by (auto simp: settle_def scatter_destroy_def kept_def qc_simps bind_eq_Some_conv split: if_splits)

lemma mixed_kept:
  assumes "reads_or_fails L C" "read_mixed L e api bm cb ci i w = Some (st, w')"
  shows "kept C w w'"
proof -
  obtain s1 o1 w1 where c: "SCATTERED_IRP_Create e (device_flags e) i
      (if has_flag (device_flags e) DO_BUFFERED_IO then AssociatedBuffer else NoBuffer) w = (s1, o1, w1)"
    by (metis prod_cases3)
  then have k: "kept C w w1"
    by (auto simp: SCATTERED_IRP_Create_def Let_def kept_def qc_simps split: if_splits)
  show ?thesis
  proof (cases o1)
    case None
    with assms(2) c k show ?thesis by (auto simp: read_mixed_def complete_with_def kept_def IoCompleteRequest_def)
  next
    case (Some sc)
    with assms(2) c obtain n sc2 w2 where g:
      "read_gaps (Suc (length bm)) L e api bm (ir_ByteOffset i) ci cb 0 sc w1 = Some (n, sc2, w2)"
      "settle (drop_count sc2) (if 1 < n then upd_stats (\<lambda>s. s\<lparr>SplitReads := SplitReads s + of_nat n\<rparr>) w2 else w2)
         = Some w'"
      by (auto simp: read_mixed_def Let_def bind_eq_Some_conv simp del: read_gaps.simps)
    have "kept C w2 w'" using settle_kept [OF g(2), of C] by (auto simp: kept_def upd_stats_def split: if_splits)
    with k gaps_kept [OF assms(1) g(1)] show ?thesis by (blast intro: kept_trans)
  qed
qed

lemma send_kept:
  assumes "reads_or_fails L C" "ir_MajorFunction i = IRP_MJ_READ" "QCacheSendToNextDriver L i w = (st, w')"
  shows "kept C w w'"
proof -
  have "C (snd (lw_pass L i (lower w))) = C (lower w)" using assms(1,2) by (simp add: reads_or_fails_def)
  with assms(3) show ?thesis by (auto simp: QCacheSendToNextDriver_def kept_def split: prod.splits)
qed

lemma cached_kept:
  assumes "reads_or_fails L C" "ir_MajorFunction i = IRP_MJ_READ" "read_cached L e api i w = Some (st, w')"
  shows "kept C w w'"
proof -
  obtain b where b: "walk_queue i (queue w) (walk_start i w) = Some b"
    using assms(3) by (auto simp: read_cached_def walk_start_def bind_eq_Some_conv)
  obtain cb ci where f: "RtlFindFirstRunClear api (rw_Bitmap b) = (cb, ci)" by fastforce
  have u: "kept C w w'" if "kept C (upd_stats f w) w'" for f
    using that by (simp add: kept_def upd_stats_def)
  show ?thesis
    using assms b f
    by (cases "rw_Any b"; cases "cb = 0")
      (auto simp: read_cached_def Let_def complete_with_def simp flip: walk_start_def
        dest!: mixed_kept [OF assms(1)] send_kept [OF assms(1), rotated] dest: u, simp_all add: kept_def qc_simps)
qed

lemma read_kept:
  assumes "reads_or_fails L C" "ir_MajorFunction i = IRP_MJ_READ" "QCacheRead L e api i w = Some (st, w')"
  shows "kept C w w'"
proof (cases rule: read_exits [of w L e api i])
  case pass
  with assms send_kept [OF assms(1,2), of w st w'] show ?thesis by simp
next
  case empty
  with assms(3) show ?thesis
    by (auto simp: QCacheIgnore_def kept_def count_read_def qc_simps)
next
  case (error x)
  with assms(3) show ?thesis
    by (auto simp: complete_with_def kept_def count_read_def note_read_size_def qc_simps)
next
  case walk
  let ?i = "i\<lparr>ir_Information := 0\<rparr>"
  have "kept C (note_read_size ?i (count_read ?i w)) w'"
    using walk(6) assms by (intro cached_kept [of L C ?i e api _ st]) simp_all
  then show ?thesis by (simp add: kept_def count_read_def note_read_size_def upd_stats_def)
qed

lemma kept_view: "kept C w w' \<Longrightarrow> view C w' = view C w \<and> lazy_only w' = lazy_only w"
  by (simp add: kept_def view_def lazy_only_def)

subsection \<open>Traffic\<close>

text \<open>
  \<open>Served\<close>: the worker serves the head of the queue, if there is one. \<open>Issued\<close>: a request reaches
  the dispatch table. The run stops (\<open>None\<close>) at a request of another kind, such as a write over
  the limits.
\<close>

datatype traffic = Served | Issued env irp

definition cached_flush :: "env \<Rightarrow> irp \<Rightarrow> 'd world \<Rightarrow> bool" where
  "cached_flush e i w \<longleftrightarrow> IsCached (stats w) \<and> admits e (stats w) \<and> LowMemCondition w \<noteq> None \<and>
     lazy_resources e i \<and> ir_MajorFunction i = IRP_MJ_FLUSH_BUFFERS"

definition plain_request :: "env \<Rightarrow> irp \<Rightarrow> 'd world \<Rightarrow> bool" where
  "plain_request e i w \<longleftrightarrow> wf_request (e, i) \<and>
     (ir_MajorFunction i = IRP_MJ_READ \<or> cached_write e i w \<or> cached_flush e i w)"

fun traffic_run ::
  "'d lower_driver \<Rightarrow> bitmap_api \<Rightarrow> traffic list \<Rightarrow> 'd world \<Rightarrow> 'd world option" where
  "traffic_run L api [] w = Some w"
| "traffic_run L api (Served # es) w = traffic_run L api es (if 0 < length (queue w) then drain_one L w else w)"
| "traffic_run L api (Issued e i # es) w =
     (if plain_request e i w
      then do {
        (_, w1) \<leftarrow> driver_dispatch L api (e, i) w;
        traffic_run L api es w1
      }
      else None)"

definition write_of :: "traffic \<Rightarrow> contents \<Rightarrow> contents" where
  "write_of t = (case t of Served \<Rightarrow> id | Issued e i \<Rightarrow> act_irp i)"

lemma cached_flush_accepts:
  assumes "cached_flush e i w"
  shows "QCacheFlushBuffers e i w = Some (STATUS_SUCCESS, accepted i (w\<lparr>LowMemCondition := Some False\<rparr>))"
proof -
  obtain b where b: "LowMemCondition w = Some b" using assms by (auto simp: cached_flush_def)
  have "QCacheQueueLazyWriteIrp e i (w\<lparr>LowMemCondition := Some False\<rparr>) =
      Some (STATUS_SUCCESS, accepted i (w\<lparr>LowMemCondition := Some False\<rparr>))"
    using assms
    by (simp add: cached_flush_def QCacheQueueLazyWriteIrp_def lazy_resources_def lazy_insert_def accepted_def
        lazy_item_def lazy_completion_def Let_def IoAcquireRemoveLock_def IoCompleteRequest_def new_item_def
        status_information)
  with b assms show ?thesis
    by (simp add: cached_flush_def QCacheFlushBuffers_def QCacheQueueIrp_def KeSetLowMem_def)
qed

lemma dispatch_low_mem: "LowMemCondition (dispatch_item L built it w) = LowMemCondition w"
  by (auto simp: dispatch_item_def dispatch_finish_eq qc_simps Let_def split: option.splits)

definition steady :: "'d world \<Rightarrow> bool" where
  "steady w \<longleftrightarrow> driver_good w \<and> lazy_only w"

lemma served_steady:
  assumes "all_succeed L C" "steady w" "0 < length (queue w)"
  shows "steady (drain_one L w) \<and> view C (drain_one L w) = view C w"
proof -
  obtain it q where q: "queue w = it # q" using assms(3) by (cases "queue w") auto
  have d: "drain_one L w = dispatch_item L True it w"
    using drain_one_cons [OF q] assms(1) by (simp add: all_succeed_def)
  have "queue_inv w" "scatters_ok w" "LowMemCondition w \<noteq> None" "lazy_only w"
    using assms(2) by (simp_all add: steady_def driver_good_def device_ok_def)
  moreover from this have "queue_inv (dispatch_item L True it w)" using queue_inv_dispatch q by blast
  moreover have "queue (dispatch_item L True it w) = q" using dispatch_removes_head [OF q] by simp
  ultimately have "steady (drain_one L w)"
    by (simp add: d steady_def driver_good_def device_ok_def scatters_ok_def dispatch_low_mem lazy_only_def q)
  then show ?thesis using cache.look_drain [of L C w] assms by (simp add: steady_def)
qed

lemma issued_steady:
  assumes "clear_runs api" "answers_fit L" "reads_or_fails L C" "steady w" "plain_request e i w"
    and "driver_dispatch L api (e, i) w = Some (st, w')"
  shows "steady w' \<and> view C w' = act_irp i (view C w)"
proof -
  have good: "driver_good w'"
    using dispatch_handled [OF assms(1,2), of w "(e, i)"] assms(4-6) by (auto simp: steady_def plain_request_def)
  consider (rd) "ir_MajorFunction i = IRP_MJ_READ" | (wr) "cached_write e i w" | (fl) "cached_flush e i w"
    using assms(5) by (auto simp: plain_request_def)
  then have "lazy_only w' \<and> view C w' = act_irp i (view C w)"
  proof cases
    case rd
    then have "QCacheRead L e api i w = Some (st, w')" using assms(6) by (simp add: driver_dispatch_def)
    from kept_view [OF read_kept [OF assms(3) rd this]] rd assms(4) show ?thesis by (simp add: steady_def act_irp_def)
  next
    case wr
    then have "QCacheWrite L e i w = Some (st, w')" "ir_MajorFunction i = IRP_MJ_WRITE"
      using assms(6) by (simp_all add: driver_dispatch_def cached_write_def)
    moreover have "lazy_only ((note_write_size i (count_write i w))\<lparr>LowMemCondition := Some False\<rparr>)"
      using assms(4) by (simp add: lazy_only_def steady_def write_frame)
    ultimately show ?thesis
      using cached_write_accepts [OF wr, of L]
      by (auto simp: view_accepted_write write_frame act_irp_def lazy_only_accepted)
  next
    case fl
    then have "QCacheFlushBuffers e i w = Some (st, w')" "ir_MajorFunction i = IRP_MJ_FLUSH_BUFFERS"
      using assms(6) by (simp_all add: driver_dispatch_def cached_flush_def)
    moreover have "lazy_only (w\<lparr>LowMemCondition := Some False\<rparr>)" "view C (w\<lparr>LowMemCondition := Some False\<rparr>) = view C w"
      using assms(4) by (simp_all add: lazy_only_def steady_def view_def)
    ultimately show ?thesis
      using cached_flush_accepts [OF fl]
      by (auto simp: view_accepted_flush act_irp_def lazy_only_accepted)
  qed
  with good show ?thesis by (simp add: steady_def)
qed

lemma traffic_contents:
  assumes "clear_runs api" "answers_fit L" "reads_or_fails L C" "all_succeed L C"
  shows "traffic_run L api es w = Some w' \<Longrightarrow> steady w \<Longrightarrow>
     steady w' \<and> view C w' = fold write_of es (view C w)"
proof (induction es arbitrary: w)
  case Nil
  then show ?case by simp
next
  case (Cons t es)
  show ?case
  proof (cases t)
    case Served
    let ?w = "if 0 < length (queue w) then drain_one L w else w"
    have "steady ?w" "view C ?w = view C w"
      using served_steady [OF assms(4) Cons.prems(2)] Cons.prems(2) by simp_all
    with Cons.IH [of ?w] Cons.prems(1) Served show ?thesis by (simp add: write_of_def)
  next
    case (Issued e i)
    with Cons.prems(1) obtain st w1 where w1: "plain_request e i w" "driver_dispatch L api (e, i) w = Some (st, w1)"
      "traffic_run L api es w1 = Some w'"
      by (auto simp: bind_eq_Some_conv split: if_splits)
    from issued_steady [OF assms(1-3) Cons.prems(2) w1(1,2)] Cons.IH [OF w1(3)] Issued show ?thesis
      by (simp add: write_of_def)
  qed
qed

end
