(* ===== verification/ScsiLog_Record.thy ===== *)
theory ScsiLog_Record
  imports QC_Prelude
begin

section \<open>The record of one SCSI request\<close>

text \<open>
  \<open>src/scsichk/scsichk.h\<close>: the structure the logger driver fills in for every SCSI request
  and the log reader finds in the log file. Its bytes are those of a 64-bit build: natural
  alignment, the packed \<open>CDB\<close> (16 bytes) and \<open>SENSE_DATA\<close> (18 bytes) of \<open>scsi.h\<close>, little
  endian integers. The driver clears a record before it fills it in, so the padding is zero.
\<close>

subsection \<open>Integers as bytes\<close>

fun nat_bytes :: "nat \<Rightarrow> nat \<Rightarrow> byte list" where
  "nat_bytes 0 v = []"
| "nat_bytes (Suc n) v = of_nat (v mod 256) # nat_bytes n (v div 256)"

fun bytes_nat :: "byte list \<Rightarrow> nat" where
  "bytes_nat [] = 0"
| "bytes_nat (b # bs) = unat b + 256 * bytes_nat bs"

lemma nat_bytes_length [simp]: "length (nat_bytes n v) = n"
  by (induction n arbitrary: v) auto

lemma bytes_nat_bytes: "v < 256 ^ n \<Longrightarrow> bytes_nat (nat_bytes n v) = v"
proof (induction n arbitrary: v)
  case 0
  then show ?case by simp
next
  case (Suc n)
  then have "v div 256 < 256 ^ n"
    by (metis less_mult_imp_div_less power_Suc mult.commute)
  with Suc.IH show ?case
    by (simp add: unat_of_nat_eq)
qed

lemma bytes_nat_zero [simp]: "bytes_nat (replicate n 0) = 0"
  by (induction n) auto

lemma nat_bytes_word [simp]:
  fixes w :: "'a::len word"
  assumes "2 ^ LENGTH('a) = (256 :: nat) ^ n"
  shows "of_nat (bytes_nat (nat_bytes n (unat w))) = w"
  using bytes_nat_bytes [of "unat w" n] unsigned_less [of w, where 'a = nat] assms
  by (simp add: word_of_nat_unat)

subsection \<open>Records\<close>

record IO_STATUS_BLOCK =
  isb_Status :: NTSTATUS
  isb_Information :: ULONG_PTR

record LOGDATA =
  ld_Next :: ULONG_PTR
  ld_TimeStamp :: LONGLONG
  ld_Irql :: UCHAR
  ld_IoStatus :: IO_STATUS_BLOCK
  ld_SrbFunction :: ULONG
  ld_Cdb :: "byte list"
  ld_ScsiStatus :: UCHAR
  ld_SystemStatus :: NTSTATUS
  ld_SrbStatus :: UCHAR
  ld_SenseBufferLength :: UCHAR
  ld_SenseData :: "byte list"
  ld_DataLength :: ULONG
  ld_Data :: "byte list"

definition sizeof_CDB :: nat where "sizeof_CDB = 16"
definition sizeof_SENSE_DATA :: nat where "sizeof_SENSE_DATA = 18"

text \<open>\<open>FIELD_OFFSET(LOGDATA, Data)\<close>, and the size with the one byte of \<open>Data\<close> and its padding.\<close>

definition offset_Data :: nat where "offset_Data = 92"
definition sizeof_LOGDATA :: nat where "sizeof_LOGDATA = 96"

text \<open>A record as the driver builds it: the fixed arrays have their sizes, the data its length.\<close>

definition wf_log :: "LOGDATA \<Rightarrow> bool" where
  "wf_log d \<longleftrightarrow> length (ld_Cdb d) = sizeof_CDB \<and> length (ld_SenseData d) = sizeof_SENSE_DATA \<and>
     length (ld_Data d) = unat (ld_DataLength d)"

text \<open>The memory of a record, the first \<open>FIELD_OFFSET(LOGDATA, Data)\<close> bytes and the data.\<close>

definition log_header :: "LOGDATA \<Rightarrow> byte list" where
  "log_header d =
     nat_bytes 8 (unat (ld_Next d)) @ nat_bytes 8 (unat (ld_TimeStamp d)) @ [ld_Irql d] @ replicate 7 0 @
     nat_bytes 4 (unat (isb_Status (ld_IoStatus d))) @ replicate 4 0 @
     nat_bytes 8 (unat (isb_Information (ld_IoStatus d))) @ nat_bytes 4 (unat (ld_SrbFunction d)) @
     ld_Cdb d @ [ld_ScsiStatus d] @ replicate 3 0 @ nat_bytes 4 (unat (ld_SystemStatus d)) @
     [ld_SrbStatus d, ld_SenseBufferLength d] @ ld_SenseData d @ nat_bytes 4 (unat (ld_DataLength d))"

definition log_bytes :: "LOGDATA \<Rightarrow> byte list" where
  "log_bytes d = log_header d @ ld_Data d"

text \<open>Reading the fields back from the memory a \<open>PLOGDATA\<close> points to; the data stays there.\<close>

definition field :: "nat \<Rightarrow> nat \<Rightarrow> byte list \<Rightarrow> byte list" where
  "field off n m = take n (drop off m)"

definition read_header :: "byte list \<Rightarrow> LOGDATA" where
  "read_header m =
     \<lparr>ld_Next = of_nat (bytes_nat (field 0 8 m)), ld_TimeStamp = of_nat (bytes_nat (field 8 8 m)),
      ld_Irql = m ! 16,
      ld_IoStatus = \<lparr>isb_Status = of_nat (bytes_nat (field 24 4 m)),
                     isb_Information = of_nat (bytes_nat (field 32 8 m))\<rparr>,
      ld_SrbFunction = of_nat (bytes_nat (field 40 4 m)), ld_Cdb = field 44 16 m,
      ld_ScsiStatus = m ! 60, ld_SystemStatus = of_nat (bytes_nat (field 64 4 m)),
      ld_SrbStatus = m ! 68, ld_SenseBufferLength = m ! 69, ld_SenseData = field 70 18 m,
      ld_DataLength = of_nat (bytes_nat (field 88 4 m)), ld_Data = []\<rparr>"

lemma log_header_length: "wf_log d \<Longrightarrow> length (log_header d) = offset_Data"
  by (simp add: log_header_def wf_log_def sizeof_CDB_def sizeof_SENSE_DATA_def offset_Data_def)

lemma log_bytes_length:
  "wf_log d \<Longrightarrow> length (log_bytes d) = offset_Data + unat (ld_DataLength d)"
  by (simp add: log_bytes_def log_header_length) (simp add: wf_log_def)

lemma field_skip: "length xs \<le> off \<Longrightarrow> field off n (xs @ ys) = field (off - length xs) n ys"
  by (simp add: field_def)

lemma field_skip1: "0 < off \<Longrightarrow> field off n (y # ys) = field (off - 1) n ys"
  by (cases off) (simp_all add: field_def)

lemma field_here: "length xs = n \<Longrightarrow> field 0 n (xs @ ys) = xs"
  by (simp add: field_def)

lemma nth_skip: "length xs \<le> k \<Longrightarrow> (xs @ ys) ! k = ys ! (k - length xs)"
  by (simp add: nth_append)

lemma nth_skip1: "0 < k \<Longrightarrow> (y # ys) ! k = ys ! (k - 1)"
  by (cases k) simp_all

lemma read_log_header:
  assumes "wf_log d"
  shows "read_header (log_header d @ rest) = d\<lparr>ld_Data := []\<rparr>"
proof -
  have l: "length (ld_Cdb d) = 16" "length (ld_SenseData d) = 18"
    using assms by (simp_all add: wf_log_def sizeof_CDB_def sizeof_SENSE_DATA_def)
  note skip = field_skip field_skip1 field_here nth_skip nth_skip1
  let ?m = "log_header d @ rest"
  have *: "field 0 8 ?m = nat_bytes 8 (unat (ld_Next d))" "field 8 8 ?m = nat_bytes 8 (unat (ld_TimeStamp d))"
    "field 24 4 ?m = nat_bytes 4 (unat (isb_Status (ld_IoStatus d)))"
    "field 32 8 ?m = nat_bytes 8 (unat (isb_Information (ld_IoStatus d)))"
    "field 40 4 ?m = nat_bytes 4 (unat (ld_SrbFunction d))" "field 44 16 ?m = ld_Cdb d"
    "field 64 4 ?m = nat_bytes 4 (unat (ld_SystemStatus d))" "field 70 18 ?m = ld_SenseData d"
    "field 88 4 ?m = nat_bytes 4 (unat (ld_DataLength d))"
    "?m ! 16 = ld_Irql d" "?m ! 60 = ld_ScsiStatus d" "?m ! 68 = ld_SrbStatus d"
    "?m ! 69 = ld_SenseBufferLength d"
    unfolding log_header_def by (simp_all add: skip l)
  have "read_header ?m = \<lparr>ld_Next = ld_Next d, ld_TimeStamp = ld_TimeStamp d, ld_Irql = ld_Irql d,
      ld_IoStatus = \<lparr>isb_Status = isb_Status (ld_IoStatus d), isb_Information = isb_Information (ld_IoStatus d)\<rparr>,
      ld_SrbFunction = ld_SrbFunction d, ld_Cdb = ld_Cdb d, ld_ScsiStatus = ld_ScsiStatus d,
      ld_SystemStatus = ld_SystemStatus d, ld_SrbStatus = ld_SrbStatus d,
      ld_SenseBufferLength = ld_SenseBufferLength d, ld_SenseData = ld_SenseData d,
      ld_DataLength = ld_DataLength d, ld_Data = []\<rparr>"
    by (simp add: read_header_def *)
  then show ?thesis by (cases d) simp
qed

end
