(* ===== verification/ScsiChk_Counters.thy ===== *)
theory ScsiChk_Counters
  imports ScsiLog_Record "HOL-Library.Signed_Division"
begin

section \<open>The SCSI logger: counters, log and requests\<close>

text \<open>
  The request paths of \<open>src/scsichk/scsichk.c\<close>: the device extension, the performance counters
  of every processor, reads and writes, SCSI requests, the completion routine that updates the
  counters and prepends a record to the log, and the two places that report the counters. A
  handler is \<open>None\<close> where the kernel would fault: a null pointer, freed or missing memory.
\<close>

named_theorems sc_simps \<open>small updates of the logger's state, unfolded by its proofs\<close>

subsection \<open>Counters\<close>

text \<open>
  \<open>DISK_PERFORMANCE\<close> of \<open>ntdddisk.h\<close>. A processor keeps the part before \<open>QueryTime\<close>, which is
  \<open>PROCESSOR_COUNTERS_SIZE\<close> bytes.
\<close>

record processor_counters =
  dp_BytesRead :: LONGLONG
  dp_BytesWritten :: LONGLONG
  dp_ReadTime :: LONGLONG
  dp_WriteTime :: LONGLONG
  dp_IdleTime :: LONGLONG
  dp_ReadCount :: ULONG
  dp_WriteCount :: ULONG
  dp_QueueDepth :: ULONG
  dp_SplitCount :: ULONG

record DISK_PERFORMANCE = processor_counters +
  dp_QueryTime :: LONGLONG
  dp_StorageDeviceNumber :: ULONG
  dp_StorageManagerName :: "WCHAR list"

definition sizeof_DISK_PERFORMANCE :: nat where "sizeof_DISK_PERFORMANCE = 88"

definition zero_counters :: processor_counters where
  "zero_counters = \<lparr>dp_BytesRead = 0, dp_BytesWritten = 0, dp_ReadTime = 0, dp_WriteTime = 0,
     dp_IdleTime = 0, dp_ReadCount = 0, dp_WriteCount = 0, dp_QueueDepth = 0, dp_SplitCount = 0\<rparr>"

definition zero_performance :: DISK_PERFORMANCE where
  "zero_performance = processor_counters.extend zero_counters
     \<lparr>dp_QueryTime = 0, dp_StorageDeviceNumber = 0, dp_StorageManagerName = replicate 8 0\<rparr>"

text \<open>The memory behind \<open>DiskCounters\<close>: a null pointer, one block per processor, or freed.\<close>

datatype counter_memory = NoCounters | Counters "processor_counters list" | FreedCounters

subsection \<open>The device extension\<close>

record scsichk_extension =
  sx_RemoveLock :: nat
  sx_DiskNumber :: ULONG
  sx_EnabledAlways :: LONG
  sx_StorageManagerName :: "WCHAR list"
  sx_Processors :: ULONG
  sx_DiskCounters :: counter_memory
  sx_LastIdleClock :: LONGLONG
  sx_QueueDepth :: LONG
  sx_CountersEnabled :: LONG
  sx_PagingPathCountEvent :: bool
  sx_PagingPathCount :: LONG
  sx_PhysicalDeviceNameBuffer :: "WCHAR list"
  sx_PhysicalDeviceName :: "WCHAR list"
  sx_GuidCount :: ULONG
  sx_LogData :: "(ULONG_PTR \<times> LOGDATA) list"

text \<open>
  What the accessors of \<open>srbhelper.h\<close> return for a request block, and a request. A transfer
  keeps its start time in the stack location of the driver. Buffers are null or bytes.
\<close>

record srb_values =
  srb_Function :: ULONG
  srb_Cdb :: "byte list"
  srb_DataTransferLength :: ULONG
  srb_ScsiStatus :: UCHAR
  srb_SenseInfoBufferLength :: UCHAR
  srb_SenseInfoBuffer :: "byte list"
  srb_SystemStatus :: NTSTATUS
  srb_SrbStatus :: UCHAR
  srb_DataBuffer :: "byte list option"

record sc_irp =
  si_id :: nat
  si_MajorFunction :: UCHAR
  si_MinorFunction :: UCHAR
  si_IoStatus :: IO_STATUS_BLOCK
  si_Flags :: ULONG
  si_TimeStamp :: LONGLONG
  si_IoControlCode :: ULONG
  si_OutputBufferLength :: ULONG
  si_Srb :: srb_values
  si_SystemBuffer :: "byte list option"
  si_MdlAddress :: "byte list option"
  si_Performance :: "DISK_PERFORMANCE option"

text \<open>
  The driver's view of the system: its extension, and where requests went. Requests passed down
  with the completion routine are in flight until the lower driver completes them.
\<close>

record sc_world =
  sw_ext :: scsichk_extension
  sw_Completed :: "sc_irp list"
  sw_SentDown :: "sc_irp list"
  sw_InFlight :: "sc_irp list"

text \<open>
  The answers of the kernel during one call. The clock is read once in a request path or a
  completion; a query reads it again after the counters may have been enabled
  (\<open>se_query_clock\<close>).
\<close>

record sc_env =
  se_acquire :: NTSTATUS
  se_processor :: ULONG
  se_clock :: LONGLONG
  se_query_clock :: LONGLONG
  se_frequency :: LONGLONG
  se_system_time :: LONGLONG
  se_call :: NTSTATUS
  se_irql :: UCHAR
  se_log_address :: "ULONG_PTR option"
  se_mdl_mapped :: bool
  se_address_valid :: bool

definition upd_ext :: "(scsichk_extension \<Rightarrow> scsichk_extension) \<Rightarrow> sc_world \<Rightarrow> sc_world" where
  [sc_simps]: "upd_ext f w = w\<lparr>sw_ext := f (sw_ext w)\<rparr>"

definition sc_complete :: "sc_irp \<Rightarrow> sc_world \<Rightarrow> sc_world" where
  [sc_simps]: "sc_complete i w = w\<lparr>sw_Completed := sw_Completed w @ [i]\<rparr>"

definition sc_status :: "NTSTATUS \<Rightarrow> sc_irp \<Rightarrow> sc_irp" where
  [sc_simps]: "sc_status s i = i\<lparr>si_IoStatus := (si_IoStatus i)\<lparr>isb_Status := s\<rparr>\<rparr>"

definition sc_information :: "ULONG_PTR \<Rightarrow> sc_irp \<Rightarrow> sc_irp" where
  [sc_simps]: "sc_information n i = i\<lparr>si_IoStatus := (si_IoStatus i)\<lparr>isb_Information := n\<rparr>\<rparr>"

definition sc_acquire :: "sc_env \<Rightarrow> sc_world \<Rightarrow> NTSTATUS \<times> sc_world" where
  [sc_simps]: "sc_acquire e w =
     (se_acquire e, if NT_SUCCESS (se_acquire e)
                    then upd_ext (\<lambda>x. x\<lparr>sx_RemoveLock := Suc (sx_RemoveLock x)\<rparr>) w else w)"

definition sc_release :: "sc_world \<Rightarrow> sc_world" where
  [sc_simps]: "sc_release w = upd_ext (\<lambda>x. x\<lparr>sx_RemoveLock := sx_RemoveLock x - 1\<rparr>) w"

definition ScsiChkSendToNextDriver :: "sc_env \<Rightarrow> sc_irp \<Rightarrow> sc_world \<Rightarrow> NTSTATUS \<times> sc_world" where
  "ScsiChkSendToNextDriver e i w = (se_call e, w\<lparr>sw_SentDown := sw_SentDown w @ [i]\<rparr>)"

subsection \<open>The counters of the current processor\<close>

text \<open>
  The pointer test compares the pointer with null only; memory that was freed meanwhile passes
  it and faults on use.
\<close>

definition current_counters :: "sc_env \<Rightarrow> scsichk_extension \<Rightarrow> nat option" where
  "current_counters e x =
     (if sx_DiskCounters x \<noteq> NoCounters \<and> se_processor e < sx_Processors x
      then Some (unat (se_processor e)) else None)"

definition upd_counters ::
  "nat \<Rightarrow> (processor_counters \<Rightarrow> processor_counters) \<Rightarrow> scsichk_extension \<Rightarrow> scsichk_extension option" where
  "upd_counters k f x =
     (case sx_DiskCounters x of
        Counters cs \<Rightarrow>
          if k < length cs then Some (x\<lparr>sx_DiskCounters := Counters (cs[k := f (cs ! k)])\<rparr>) else None
      | _ \<Rightarrow> None)"

text \<open>\<open>RtlZeroMemory\<close> of the blocks of all processors.\<close>

definition reset_counters :: "scsichk_extension \<Rightarrow> scsichk_extension option" where
  "reset_counters x =
     (case sx_DiskCounters x of
        NoCounters \<Rightarrow> Some x
      | Counters cs \<Rightarrow>
          if unat (sx_Processors x) = length cs
          then Some (x\<lparr>sx_DiskCounters := Counters (replicate (length cs) zero_counters)\<rparr>) else None
      | FreedCounters \<Rightarrow> None)"

subsection \<open>Reads and writes\<close>

definition ScsiChkReadWrite :: "sc_env \<Rightarrow> sc_irp \<Rightarrow> sc_world \<Rightarrow> (NTSTATUS \<times> sc_world) option" where
  "ScsiChkReadWrite e i w0 =
     (let (status, w) = sc_acquire e w0 in
      if \<not> NT_SUCCESS status then Some (status, sc_complete (sc_status status i) w)
      else
        let x = sw_ext w in
        (case current_counters e x of
           None \<Rightarrow> (case ScsiChkSendToNextDriver e i w of (st, w1) \<Rightarrow> Some (st, sc_release w1))
         | Some k \<Rightarrow>
             if sx_CountersEnabled x <=s 0 \<or> sx_PhysicalDeviceNameBuffer x ! 0 = 0
             then (case ScsiChkSendToNextDriver e i w of (st, w1) \<Rightarrow> Some (st, sc_release w1))
             else
               let queueLen = sx_QueueDepth x + 1;
                   x1 = x\<lparr>sx_QueueDepth := queueLen\<rparr>;
                   i1 = i\<lparr>si_TimeStamp := se_clock e\<rparr>
               in do {
                 x2 \<leftarrow> (if queueLen = 1
                        then map_option (\<lambda>y. y\<lparr>sx_LastIdleClock := se_clock e\<rparr>)
                               (upd_counters k (\<lambda>c. c\<lparr>dp_IdleTime := dp_IdleTime c +
                                  (se_clock e - sx_LastIdleClock x1)\<rparr>) x1)
                        else Some x1);
                 Some (se_call e, w\<lparr>sw_ext := x2, sw_InFlight := sw_InFlight w @ [i1]\<rparr>)
               }))"

subsection \<open>SCSI requests\<close>

text \<open>Only debug output depends on the request block here.\<close>

definition ScsiChkScsi :: "sc_env \<Rightarrow> sc_irp \<Rightarrow> sc_world \<Rightarrow> NTSTATUS \<times> sc_world" where
  "ScsiChkScsi e i w0 =
     (let (status, w) = sc_acquire e w0 in
      if \<not> NT_SUCCESS status then (status, sc_complete (sc_status status i) w)
      else
        let w1 = upd_ext (\<lambda>x. x\<lparr>sx_QueueDepth := sx_QueueDepth x + 1\<rparr>) w
        in (se_call e, w1\<lparr>sw_InFlight := sw_InFlight w1 @ [i]\<rparr>))"

abbreviation (input) SRB_FUNCTION_EXECUTE_SCSI :: ULONG where "SRB_FUNCTION_EXECUTE_SCSI \<equiv> 0"

text \<open>
  The record. Its length is a 32-bit sum; when it wraps round, the block is smaller than the
  fields stored in it. The data comes from the request block, the system buffer or the MDL, in
  this order, and stays zero when there is none. \<open>Next\<close> is set when the record is linked.
\<close>

definition log_data_buffer :: "sc_env \<Rightarrow> sc_irp \<Rightarrow> byte list option" where
  "log_data_buffer e i =
     (case srb_DataBuffer (si_Srb i) of
        Some b \<Rightarrow> Some b
      | None \<Rightarrow>
          (case si_SystemBuffer i of
             Some b \<Rightarrow> Some b
           | None \<Rightarrow> if se_mdl_mapped e then si_MdlAddress i else None))"

definition log_record_length :: "sc_irp \<Rightarrow> ULONG" where
  "log_record_length i = of_nat offset_Data + srb_DataTransferLength (si_Srb i)"

definition build_log :: "sc_env \<Rightarrow> sc_irp \<Rightarrow> (ULONG_PTR \<times> LOGDATA) option" where
  "build_log e i =
     (let s = si_Srb i; n = unat (srb_DataTransferLength s) in do {
        address \<leftarrow> se_log_address e;
        room \<leftarrow> (if offset_Data \<le> unat (log_record_length i)
                 then Some (unat (log_record_length i) - offset_Data) else None);
        sense \<leftarrow> (if 0 < srb_SenseInfoBufferLength s
                  then RtlCopyMemory (replicate sizeof_SENSE_DATA 0) 0 (srb_SenseInfoBuffer s) 0
                         (min (unat (srb_SenseInfoBufferLength s)) sizeof_SENSE_DATA)
                  else Some (replicate sizeof_SENSE_DATA 0));
        data \<leftarrow> (case log_data_buffer e i of
                   Some b \<Rightarrow> if 0 < n \<and> se_address_valid e
                             then RtlCopyMemory (replicate room 0) 0 b 0 n
                             else Some (replicate room 0)
                 | None \<Rightarrow> Some (replicate room 0));
        cdb \<leftarrow> (if srb_Function s = SRB_FUNCTION_EXECUTE_SCSI
                then RtlCopyMemory (replicate sizeof_CDB 0) 0 (srb_Cdb s) 0 sizeof_CDB
                else Some (replicate sizeof_CDB 0));
        Some (address,
          \<lparr>ld_Next = 0, ld_TimeStamp = se_clock e, ld_Irql = se_irql e, ld_IoStatus = si_IoStatus i,
           ld_SrbFunction = srb_Function s, ld_Cdb = cdb, ld_ScsiStatus = srb_ScsiStatus s,
           ld_SystemStatus = srb_SystemStatus s, ld_SrbStatus = srb_SrbStatus s,
           ld_SenseBufferLength = srb_SenseInfoBufferLength s, ld_SenseData = sense,
           ld_DataLength = srb_DataTransferLength s, ld_Data = data\<rparr>)
      })"

definition log_head :: "(ULONG_PTR \<times> LOGDATA) list \<Rightarrow> ULONG_PTR" where
  "log_head ls = (case ls of [] \<Rightarrow> 0 | (a, _) # _ \<Rightarrow> a)"

text \<open>The section under \<open>LogLock\<close>.\<close>

definition push_log :: "ULONG_PTR \<times> LOGDATA \<Rightarrow> scsichk_extension \<Rightarrow> scsichk_extension" where
  "push_log r x =
     (case r of (a, d) \<Rightarrow> x\<lparr>sx_LogData := (a, d\<lparr>ld_Next := log_head (sx_LogData x)\<rparr>) # sx_LogData x\<rparr>)"

subsection \<open>Completion\<close>

text \<open>
  The queue depth is not decremented below zero. The counters are updated only where the
  current processor has a block of them; the log is written under the same condition.
\<close>

definition is_transfer :: "sc_irp \<Rightarrow> bool" where
  "is_transfer i \<longleftrightarrow> si_MajorFunction i = IRP_MJ_READ \<or> si_MajorFunction i = IRP_MJ_WRITE"

text \<open>
  Leaving the queue is two interlocked steps: the decrement, and the increment that puts back a
  depth that became negative. Other processors may run between them.
\<close>

definition depth_decrement :: "scsichk_extension \<Rightarrow> LONG \<times> scsichk_extension" where
  "depth_decrement x = (let q = sx_QueueDepth x - 1 in (q, x\<lparr>sx_QueueDepth := q\<rparr>))"

definition depth_correct :: "LONG \<Rightarrow> scsichk_extension \<Rightarrow> LONG \<times> scsichk_extension" where
  "depth_correct queueLen x =
     (if queueLen <s 0
      then let q = sx_QueueDepth x + 1 in (q, x\<lparr>sx_QueueDepth := q\<rparr>)
      else (queueLen, x))"

definition note_idle :: "sc_env \<Rightarrow> LONG \<Rightarrow> scsichk_extension \<Rightarrow> scsichk_extension" where
  "note_idle e queueLen x = (if queueLen = 0 then x\<lparr>sx_LastIdleClock := se_clock e\<rparr> else x)"

definition leave_queue :: "sc_env \<Rightarrow> scsichk_extension \<Rightarrow> scsichk_extension" where
  "leave_queue e x =
     (let (q, x1) = depth_decrement x; (q1, x2) = depth_correct q x1 in note_idle e q1 x2)"

lemma leave_queue_eq:
  "leave_queue e x =
     (let q = sx_QueueDepth x - 1;
          q1 = (if q <s 0 then q + 1 else q);
          x1 = x\<lparr>sx_QueueDepth := q1\<rparr>
      in if q1 = 0 then x1\<lparr>sx_LastIdleClock := se_clock e\<rparr> else x1)"
  by (simp add: leave_queue_def depth_decrement_def depth_correct_def note_idle_def Let_def)

definition count_completion :: "sc_env \<Rightarrow> sc_irp \<Rightarrow> nat \<Rightarrow> scsichk_extension \<Rightarrow> scsichk_extension option" where
  "count_completion e i k x =
     (let difference = se_clock e - si_TimeStamp i; bytes = isb_Information (si_IoStatus i) in
      if si_MajorFunction i = IRP_MJ_READ
      then upd_counters k (\<lambda>c. c\<lparr>dp_BytesRead := dp_BytesRead c + bytes,
                                dp_ReadCount := dp_ReadCount c + 1,
                                dp_ReadTime := dp_ReadTime c + difference\<rparr>) x
      else if si_MajorFunction i = IRP_MJ_WRITE
      then upd_counters k (\<lambda>c. c\<lparr>dp_BytesWritten := dp_BytesWritten c + bytes,
                                dp_WriteCount := dp_WriteCount c + 1,
                                dp_WriteTime := dp_WriteTime c + difference\<rparr>) x
      else if si_MajorFunction i = IRP_MJ_SCSI
      then map_option (\<lambda>r. push_log r x) (build_log e i)
      else Some x)"

definition ScsiChkIoCompletion :: "sc_env \<Rightarrow> sc_irp \<Rightarrow> sc_world \<Rightarrow> (NTSTATUS \<times> sc_world) option" where
  "ScsiChkIoCompletion e i w =
     (let x = leave_queue e (sw_ext w) in
      case current_counters e x of
        None \<Rightarrow> Some (STATUS_SUCCESS, sc_release (w\<lparr>sw_ext := x\<rparr>))
      | Some k \<Rightarrow> do {
          x1 \<leftarrow> count_completion e i k x;
          x2 \<leftarrow> (if si_Flags i AND IRP_ASSOCIATED_IRP \<noteq> 0
                 then upd_counters k (\<lambda>c. c\<lparr>dp_SplitCount := dp_SplitCount c + 1\<rparr>) x1 else Some x1);
          Some (STATUS_SUCCESS, sc_release (w\<lparr>sw_ext := x2\<rparr>))
        })"

text \<open>
  The lower driver completes a request that is in flight: it stores the status block and the
  results of the request block, the completion routine runs, and the request goes back to its
  owner.
\<close>

definition sc_answer ::
  "sc_env \<Rightarrow> sc_irp \<Rightarrow> IO_STATUS_BLOCK \<Rightarrow> srb_values \<Rightarrow> sc_world \<Rightarrow> sc_world option" where
  "sc_answer e i b s w =
     (let i' = i\<lparr>si_IoStatus := b, si_Srb := s\<rparr> in do {
        (_, w1) \<leftarrow> ScsiChkIoCompletion e i' w;
        Some (sc_complete i' (w1\<lparr>sw_InFlight := remove1 i (sw_InFlight w1)\<rparr>))
      })"

end
