(* ===== verification/ScsiChk_Control.thy ===== *)
theory ScsiChk_Control
  imports ScsiChk_Counters
begin

section \<open>The SCSI logger: reporting and enabling the counters\<close>

text \<open>
  The control paths of \<open>src/scsichk/scsichk.c\<close>: adding up the counters of the processors, the
  performance control code, and the callbacks of the WMI library.
\<close>

subsection \<open>Adding up\<close>

text \<open>
  Signed 64-bit division as the processor does it: the quotient is cut towards zero, a zero
  divisor and an overflowing quotient are faults.
\<close>

definition ll_div :: "LONGLONG \<Rightarrow> LONGLONG \<Rightarrow> LONGLONG option" where
  "ll_div a b =
     (if b = 0 \<or> (a = 0x8000000000000000 \<and> b = -1) then None
      else Some (word_of_int (sint a sdiv sint b)))"

text \<open>Times are kept in ticks of the performance counter and reported in 100 ns.\<close>

definition in_time_units :: "LONGLONG \<Rightarrow> LONGLONG \<Rightarrow> LONGLONG option" where
  "in_time_units frequency t = (if 0 <s frequency then ll_div (t * 10000000) frequency else Some t)"

definition ScsiChkAddCounters ::
  "DISK_PERFORMANCE \<Rightarrow> processor_counters \<Rightarrow> LONGLONG \<Rightarrow> DISK_PERFORMANCE option" where
  "ScsiChkAddCounters acc new frequency = do {
     r \<leftarrow> in_time_units frequency (dp_ReadTime new);
     w \<leftarrow> in_time_units frequency (dp_WriteTime new);
     d \<leftarrow> in_time_units frequency (dp_IdleTime new);
     Some (acc\<lparr>dp_BytesRead := dp_BytesRead acc + dp_BytesRead new,
                 dp_BytesWritten := dp_BytesWritten acc + dp_BytesWritten new,
                 dp_ReadCount := dp_ReadCount acc + dp_ReadCount new,
                 dp_WriteCount := dp_WriteCount acc + dp_WriteCount new,
                 dp_SplitCount := dp_SplitCount acc + dp_SplitCount new,
                 dp_ReadTime := dp_ReadTime acc + r,
                 dp_WriteTime := dp_WriteTime acc + w,
                 dp_IdleTime := dp_IdleTime acc + d\<rparr>)
   }"

text \<open>The loop over the processors reads as many blocks as there are processors.\<close>

fun add_counters ::
  "nat \<Rightarrow> DISK_PERFORMANCE \<Rightarrow> processor_counters list \<Rightarrow> LONGLONG \<Rightarrow> DISK_PERFORMANCE option" where
  "add_counters 0 acc cs f = Some acc"
| "add_counters (Suc n) acc [] f = None"
| "add_counters (Suc n) acc (c # cs) f = do {
     t \<leftarrow> ScsiChkAddCounters acc c f;
     add_counters n t cs f
   }"

definition total_counters :: "sc_env \<Rightarrow> scsichk_extension \<Rightarrow> DISK_PERFORMANCE option" where
  "total_counters e x =
     (case sx_DiskCounters x of
        Counters cs \<Rightarrow>
          map_option (\<lambda>t. t\<lparr>dp_QueueDepth := sx_QueueDepth x\<rparr>)
            (add_counters (unat (sx_Processors x))
               (zero_performance\<lparr>dp_QueryTime := se_system_time e\<rparr>) cs (se_frequency e))
      | _ \<Rightarrow> None)"

definition add_idle :: "LONGLONG \<Rightarrow> LONGLONG \<Rightarrow> DISK_PERFORMANCE \<Rightarrow> DISK_PERFORMANCE option" where
  "add_idle difference frequency t = do {
     d \<leftarrow> ll_div (10000000 * difference) frequency;
     Some (t\<lparr>dp_IdleTime := dp_IdleTime t + d\<rparr>)
   }"

definition identify :: "scsichk_extension \<Rightarrow> DISK_PERFORMANCE \<Rightarrow> DISK_PERFORMANCE" where
  "identify x t = t\<lparr>dp_StorageDeviceNumber := sx_DiskNumber x, dp_StorageManagerName := sx_StorageManagerName x\<rparr>"

subsection \<open>Device control\<close>

abbreviation (input) IOCTL_DISK_PERFORMANCE :: ULONG where "IOCTL_DISK_PERFORMANCE \<equiv> 0x70020"

text \<open>The first query enables the counters for good and starts them anew.\<close>

definition enable_always :: "sc_env \<Rightarrow> scsichk_extension \<Rightarrow> scsichk_extension option" where
  "enable_always e x =
     (if sx_EnabledAlways x = 0
      then do {
        y \<leftarrow> reset_counters (x\<lparr>sx_EnabledAlways := 1, sx_CountersEnabled := sx_CountersEnabled x + 1\<rparr>);
        Some (y\<lparr>sx_LastIdleClock := se_clock e, sx_QueueDepth := 0\<rparr>)
      }
      else Some x)"

definition query_performance :: "sc_env \<Rightarrow> scsichk_extension \<Rightarrow> DISK_PERFORMANCE option" where
  "query_performance e x = do {
     t \<leftarrow> total_counters e x;
     u \<leftarrow> (let difference = se_query_clock e - sx_LastIdleClock x in
           if dp_QueueDepth t = 0 \<and> 0 <s difference then add_idle difference (se_frequency e) t else Some t);
     Some (identify x u)
   }"

definition ScsiChkDeviceControl :: "sc_env \<Rightarrow> sc_irp \<Rightarrow> sc_world \<Rightarrow> (NTSTATUS \<times> sc_world) option" where
  "ScsiChkDeviceControl e i w0 =
     (let (status, w) = sc_acquire e w0 in
      if \<not> NT_SUCCESS status then Some (status, sc_complete (sc_status status i) w)
      else if si_IoControlCode i = IOCTL_DISK_PERFORMANCE
      then if unat (si_OutputBufferLength i) < sizeof_DISK_PERFORMANCE
           then Some (STATUS_BUFFER_TOO_SMALL,
                  sc_complete (sc_status STATUS_BUFFER_TOO_SMALL (sc_information 0 i)) (sc_release w))
           else if sx_DiskCounters (sw_ext w) = NoCounters
           then Some (STATUS_UNSUCCESSFUL, sc_complete (sc_status STATUS_UNSUCCESSFUL i) (sc_release w))
           else do {
             x \<leftarrow> enable_always e (sw_ext w);
             t \<leftarrow> query_performance e x;
             let i' = sc_information (of_nat sizeof_DISK_PERFORMANCE) (i\<lparr>si_Performance := Some t\<rparr>);
             Some (STATUS_SUCCESS,
               sc_complete (sc_status STATUS_SUCCESS i') (sc_release (w\<lparr>sw_ext := x\<rparr>)))
           }
      else (case ScsiChkSendToNextDriver e i w of (_, w1) \<Rightarrow> Some (STATUS_PENDING, sc_release w1)))"

subsection \<open>WMI callbacks\<close>

text \<open>
  The block a WMI consumer gets: the counters, then, after \<open>sizeof(DISK_PERFORMANCE)\<close> bytes
  rounded up to a multiple of two, the length of the device name and the name.
  \<open>wmi_size\<close> is \<open>sizeof(WMI_DISK_PERFORMANCE)\<close> of the generated header \<open>wmidata.h\<close>. Bytes
  stored behind the \<open>available\<close> ones are a fault.
\<close>

definition round_up2 :: "nat \<Rightarrow> nat" where
  "round_up2 n = 2 * ((n + 1) div 2)"

record wmi_block =
  wb_Counters :: DISK_PERFORMANCE
  wb_NameLength :: USHORT
  wb_Name :: "WCHAR list"

definition name_bytes :: "scsichk_extension \<Rightarrow> nat" where
  "name_bytes x = 2 * length (sx_PhysicalDeviceName x)"

definition wmi_size_needed :: "nat \<Rightarrow> scsichk_extension \<Rightarrow> nat" where
  "wmi_size_needed wmi_size x = round_up2 wmi_size + (name_bytes x + 2)"

definition query_wmi :: "sc_env \<Rightarrow> scsichk_extension \<Rightarrow> DISK_PERFORMANCE option" where
  "query_wmi e x = do {
     t \<leftarrow> total_counters e x;
     u \<leftarrow> (let difference = se_query_clock e - sx_LastIdleClock x in
           if dp_QueueDepth t = 0 \<and> 0 <s se_frequency e then add_idle difference (se_frequency e) t else Some t);
     Some (identify x u)
   }"

definition DiskperfQueryWmiDataBlock ::
  "nat \<Rightarrow> sc_env \<Rightarrow> nat \<Rightarrow> bool \<Rightarrow> nat \<Rightarrow> scsichk_extension \<Rightarrow>
     (NTSTATUS \<times> nat \<times> wmi_block option) option" where
  "DiskperfQueryWmiDataBlock wmi_size e guid_index has_buffer available x =
     (if guid_index \<noteq> 0 then Some (STATUS_WMI_GUID_NOT_FOUND, 0, None)
      else
        let needed = wmi_size_needed wmi_size x in
        if sx_DiskCounters x = NoCounters then Some (STATUS_UNSUCCESSFUL, needed, None)
        else if needed \<le> available \<and> has_buffer
        then do {
          t \<leftarrow> query_wmi e x;
          b \<leftarrow> (if wmi_size \<le> available \<and> round_up2 sizeof_DISK_PERFORMANCE + 2 + name_bytes x \<le> available
               then Some \<lparr>wb_Counters = t, wb_NameLength = of_nat (name_bytes x), wb_Name = sx_PhysicalDeviceName x\<rparr>
               else None);
          Some (STATUS_SUCCESS, needed, Some b)
        }
        else Some (STATUS_BUFFER_TOO_SMALL, needed, None))"

text \<open>Collection is enabled and disabled by counting; disabling below one clears the queue depth.\<close>

definition wmi_data_block_control :: "sc_env \<Rightarrow> bool \<Rightarrow> scsichk_extension \<Rightarrow> scsichk_extension option" where
  "wmi_data_block_control e enable x =
     (if enable
      then
        let x1 = x\<lparr>sx_CountersEnabled := sx_CountersEnabled x + 1\<rparr> in
        if sx_CountersEnabled x1 = 1
        then do {
          y \<leftarrow> reset_counters x1;
          Some (y\<lparr>sx_LastIdleClock := se_clock e, sx_QueueDepth := 0\<rparr>)
        }
        else Some x1
      else
        let x1 = x\<lparr>sx_CountersEnabled := sx_CountersEnabled x - 1\<rparr> in
        Some (if sx_CountersEnabled x1 <=s 0
              then x1\<lparr>sx_CountersEnabled := 0, sx_QueueDepth := 0\<rparr> else x1))"

definition DiskperfWmiFunctionControl ::
  "sc_env \<Rightarrow> nat \<Rightarrow> bool \<Rightarrow> bool \<Rightarrow> scsichk_extension \<Rightarrow> (NTSTATUS \<times> scsichk_extension) option" where
  "DiskperfWmiFunctionControl e guid_index data_block enable x =
     (if guid_index \<noteq> 0 then Some (STATUS_WMI_GUID_NOT_FOUND, x)
      else if data_block then map_option (Pair STATUS_SUCCESS) (wmi_data_block_control e enable x)
      else Some (STATUS_SUCCESS, x))"

text \<open>Only the buffer of the instance name is allocated; its contents are not used.\<close>

definition DiskperfQueryWmiRegInfo :: "bool \<Rightarrow> NTSTATUS" where
  "DiskperfQueryWmiRegInfo allocated = (if allocated then STATUS_SUCCESS else STATUS_INSUFFICIENT_RESOURCES)"

subsection \<open>System control\<close>

text \<open>
  \<open>WmiSystemControl\<close> belongs to the WMI library: it runs at most one of the callbacks, and says
  what is left to do with the request. A callback completes the request through
  \<open>WmiCompleteRequest\<close>, then the disposition is \<open>IrpProcessed\<close>; so it is when the library
  completed the request itself.
\<close>

datatype wmi_callback =
    NoCallback
  | QueryDataBlock nat bool nat
  | FunctionControl nat bool bool

datatype disposition = IrpProcessed | IrpNotCompleted | IrpForward | IrpNotWmi

record wmi_library =
  wl_sizeof :: nat
  wl_callback :: wmi_callback
  wl_disposition :: disposition
  wl_status :: NTSTATUS

definition run_callback ::
  "wmi_library \<Rightarrow> sc_env \<Rightarrow> sc_irp \<Rightarrow> sc_world \<Rightarrow> (NTSTATUS \<times> sc_world) option" where
  "run_callback wl e i w =
     (case wl_callback wl of
        NoCallback \<Rightarrow>
          Some (wl_status wl, if wl_disposition wl = IrpProcessed
                              then sc_complete (sc_status (wl_status wl) i) w else w)
      | QueryDataBlock g b n \<Rightarrow> do {
          (st, size, blk) \<leftarrow> DiskperfQueryWmiDataBlock (wl_sizeof wl) e g b n (sw_ext w);
          Some (st, sc_complete
            (sc_status st (sc_information (of_nat size) (i\<lparr>si_Performance := map_option wb_Counters blk\<rparr>))) w)
        }
      | FunctionControl g d en \<Rightarrow> do {
          (st, x) \<leftarrow> DiskperfWmiFunctionControl e g d en (sw_ext w);
          Some (st, sc_complete (sc_status st (sc_information 0 i)) (w\<lparr>sw_ext := x\<rparr>))
        })"

definition ScsiChkWmi ::
  "wmi_library \<Rightarrow> sc_env \<Rightarrow> sc_irp \<Rightarrow> sc_world \<Rightarrow> (NTSTATUS \<times> sc_world) option" where
  "ScsiChkWmi wl e i w0 =
     (let (status, w) = sc_acquire e w0 in
      if \<not> NT_SUCCESS status then Some (status, sc_complete (sc_status status i) w)
      else if sx_GuidCount (sw_ext w) = 0
      then Some (ScsiChkSendToNextDriver e i (sc_release w))
      else do {
        (st, w1) \<leftarrow> run_callback wl e i w;
        Some (case wl_disposition wl of
          IrpProcessed \<Rightarrow> (st, sc_release w1)
        | IrpNotCompleted \<Rightarrow> (st, sc_release (sc_complete (sc_status st i) w1))
        | _ \<Rightarrow> ScsiChkSendToNextDriver e i (sc_release w1))
      })"

subsection \<open>Requests that are passed on, and the dispatch table\<close>

definition ScsiChkShutdownFlush :: "sc_env \<Rightarrow> sc_irp \<Rightarrow> sc_world \<Rightarrow> NTSTATUS \<times> sc_world" where
  "ScsiChkShutdownFlush e i w = (se_call e, w\<lparr>sw_SentDown := sw_SentDown w @ [i]\<rparr>)"

definition ScsiChkDispatchPower :: "sc_env \<Rightarrow> sc_irp \<Rightarrow> sc_world \<Rightarrow> NTSTATUS \<times> sc_world" where
  "ScsiChkDispatchPower e i w = (se_call e, w\<lparr>sw_SentDown := sw_SentDown w @ [i]\<rparr>)"

definition ScsiChkCreate :: "sc_irp \<Rightarrow> sc_world \<Rightarrow> NTSTATUS \<times> sc_world" where
  "ScsiChkCreate i w = (STATUS_SUCCESS, sc_complete (sc_status STATUS_SUCCESS i) w)"

text \<open>The table \<open>DriverEntry\<close> sets up, plug and play requests apart.\<close>

definition sc_dispatch ::
  "wmi_library \<Rightarrow> sc_env \<times> sc_irp \<Rightarrow> sc_world \<Rightarrow> (NTSTATUS \<times> sc_world) option" where
  "sc_dispatch wl q w =
     (case q of (e, i) \<Rightarrow>
        if si_MajorFunction i = IRP_MJ_CREATE then Some (ScsiChkCreate i w)
        else if si_MajorFunction i = IRP_MJ_READ \<or> si_MajorFunction i = IRP_MJ_WRITE
        then ScsiChkReadWrite e i w
        else if si_MajorFunction i = IRP_MJ_DEVICE_CONTROL then ScsiChkDeviceControl e i w
        else if si_MajorFunction i = IRP_MJ_SCSI then Some (ScsiChkScsi e i w)
        else if si_MajorFunction i = IRP_MJ_SYSTEM_CONTROL then ScsiChkWmi wl e i w
        else if si_MajorFunction i = IRP_MJ_SHUTDOWN \<or> si_MajorFunction i = IRP_MJ_FLUSH_BUFFERS
        then Some (ScsiChkShutdownFlush e i w)
        else if si_MajorFunction i = IRP_MJ_POWER then Some (ScsiChkDispatchPower e i w)
        else Some (ScsiChkSendToNextDriver e i w))"

end
