(* ===== verification/ScsiChk_Inv.thy ===== *)
theory ScsiChk_Inv
  imports ScsiChk_Control QC_Handlers
begin

section \<open>The SCSI logger: invariants and ownership\<close>

text \<open>
  What holds of the logger's state between two calls, whichever requests arrive and in
  whichever order the lower driver answers them: the counter memory is as large as the number of
  processors, one remove-lock acquisition stands for every request in flight, the queue depth
  never exceeds them, and the log is a chain. Then the contract \<open>request_handler\<close> for the
  logger's dispatch table.
\<close>

lemmas sc_defs = sc_simps ScsiChkSendToNextDriver_def

subsection \<open>Counter memory\<close>

definition counters_ok :: "scsichk_extension \<Rightarrow> bool" where
  "counters_ok x \<longleftrightarrow> length (sx_PhysicalDeviceNameBuffer x) = 64 \<and>
     (case sx_DiskCounters x of
        NoCounters \<Rightarrow> True
      | Counters cs \<Rightarrow> length cs = unat (sx_Processors x)
      | FreedCounters \<Rightarrow> False)"

text \<open>What an operation on the counters leaves alone.\<close>

definition same_but_counters :: "scsichk_extension \<Rightarrow> scsichk_extension \<Rightarrow> bool" where
  "same_but_counters x y \<longleftrightarrow>
     sx_RemoveLock y = sx_RemoveLock x \<and> sx_LogData y = sx_LogData x \<and> sx_QueueDepth y = sx_QueueDepth x \<and>
     sx_Processors y = sx_Processors x"

lemma upd_counters_ok:
  assumes "counters_ok x" "current_counters e x = Some k"
  shows "\<exists>cs. sx_DiskCounters x = Counters cs \<and> k < length cs \<and>
     upd_counters k f x = Some (x\<lparr>sx_DiskCounters := Counters (cs[k := f (cs ! k)])\<rparr>)"
  using assms
  by (auto simp: counters_ok_def current_counters_def upd_counters_def word_less_nat_alt
      split: counter_memory.splits if_splits)

lemma upd_counters_frame:
  "upd_counters k f x = Some y \<Longrightarrow> counters_ok x \<Longrightarrow> counters_ok y \<and> same_but_counters x y"
  by (auto simp: upd_counters_def counters_ok_def same_but_counters_def
      split: counter_memory.splits if_splits)

lemma reset_counters_ok:
  "counters_ok x \<Longrightarrow> \<exists>y. reset_counters x = Some y \<and> counters_ok y \<and> same_but_counters x y"
  by (auto simp: counters_ok_def reset_counters_def same_but_counters_def split: counter_memory.splits)

subsection \<open>The log as a chain\<close>

text \<open>A record as the completion routine builds it: its length is a 32-bit number.\<close>

definition writable :: "LOGDATA \<Rightarrow> bool" where
  "writable d \<longleftrightarrow> wf_log d \<and> unat (ld_DataLength d) < 4294967204"

fun log_chain :: "(ULONG_PTR \<times> LOGDATA) list \<Rightarrow> bool" where
  "log_chain [] = True"
| "log_chain ((a, d) # ls) \<longleftrightarrow> writable d \<and> ld_Next d = log_head ls \<and> log_chain ls"

lemma build_log_wf: "build_log e i = Some (a, d) \<Longrightarrow> writable d"
proof -
  assume b: "build_log e i = Some (a, d)"
  let ?n = "srb_DataTransferLength (si_Srb i)"
  have off: "offset_Data \<le> unat (log_record_length i)" and n: "ld_DataLength d = ?n"
    using b by (auto simp: build_log_def Let_def split: bind_splits if_splits)
  have sum: "unat (log_record_length i) = offset_Data + unat ?n"
    using off unat_range32 [of ?n] unfolding log_record_length_def offset_Data_def
    by (auto simp: unat_word_ariths mod_if split: if_splits)
  then have "unat ?n < 4294967204"
    using unat_range32 [of "log_record_length i"] by (simp add: offset_Data_def)
  moreover have "wf_log d"
    using b sum copy_memory_length
    by (fastforce simp: build_log_def Let_def wf_log_def sizeof_CDB_def sizeof_SENSE_DATA_def
        split: bind_splits if_splits option.splits)
  ultimately show ?thesis by (simp add: writable_def n)
qed

lemma push_log_chain:
  "log_chain (sx_LogData x) \<Longrightarrow> writable d \<Longrightarrow> log_chain (sx_LogData (push_log (a, d) x))"
  by (simp add: push_log_def writable_def wf_log_def)

lemma push_log_frame:
  "counters_ok (push_log r x) = counters_ok x" "sx_RemoveLock (push_log r x) = sx_RemoveLock x"
  "sx_QueueDepth (push_log r x) = sx_QueueDepth x" "sx_Processors (push_log r x) = sx_Processors x"
  "current_counters e (push_log r x) = current_counters e x"
  "sx_DiskCounters (push_log r x) = sx_DiskCounters x"
  by (simp_all add: push_log_def counters_ok_def current_counters_def
      split: prod.split counter_memory.split)

subsection \<open>Requests settled and requests launched\<close>

definition sc_owned :: "sc_world \<Rightarrow> nat multiset" where
  "sc_owned w = mset (map si_id (sw_Completed w)) + mset (map si_id (sw_SentDown w)) +
     mset (map si_id (sw_InFlight w))"

text \<open>
  A request is settled when it was completed or passed down for good; it is launched when it
  was passed down with the completion routine.
\<close>

definition sc_settled :: "sc_irp \<Rightarrow> sc_world \<Rightarrow> sc_world \<Rightarrow> bool" where
  "sc_settled i w w' \<longleftrightarrow>
     counters_ok (sw_ext w') \<and> sw_InFlight w' = sw_InFlight w \<and>
     sx_RemoveLock (sw_ext w') = sx_RemoveLock (sw_ext w) \<and> sx_LogData (sw_ext w') = sx_LogData (sw_ext w) \<and>
     (sx_QueueDepth (sw_ext w') = sx_QueueDepth (sw_ext w) \<or> sx_QueueDepth (sw_ext w') = 0) \<and>
     sc_owned w' = add_mset (si_id i) (sc_owned w)"

definition launched :: "sc_irp \<Rightarrow> sc_world \<Rightarrow> sc_world \<Rightarrow> bool" where
  "launched i w w' \<longleftrightarrow>
     counters_ok (sw_ext w') \<and>
     (\<exists>i'. si_id i' = si_id i \<and> si_MajorFunction i' = si_MajorFunction i \<and>
           sw_InFlight w' = sw_InFlight w @ [i']) \<and>
     sx_RemoveLock (sw_ext w') = Suc (sx_RemoveLock (sw_ext w)) \<and>
     sx_LogData (sw_ext w') = sx_LogData (sw_ext w) \<and>
     sx_QueueDepth (sw_ext w') = sx_QueueDepth (sw_ext w) + 1 \<and>
     sw_Completed w' = sw_Completed w \<and> sw_SentDown w' = sw_SentDown w"

lemma launched_owned: "launched i w w' \<Longrightarrow> sc_owned w' = add_mset (si_id i) (sc_owned w)"
  by (auto simp: launched_def sc_owned_def)

lemma acquire_cases:
  "\<not> NT_SUCCESS (se_acquire e) \<Longrightarrow> sc_acquire e w = (se_acquire e, w)"
  "NT_SUCCESS (se_acquire e) \<Longrightarrow>
     sc_acquire e w = (se_acquire e, w\<lparr>sw_ext := (sw_ext w)\<lparr>sx_RemoveLock := Suc (sx_RemoveLock (sw_ext w))\<rparr>\<rparr>)"
  by (simp_all add: sc_simps)

lemma counters_ok_simps [simp]:
  "counters_ok (x\<lparr>sx_RemoveLock := n\<rparr>) = counters_ok x"
  "counters_ok (x\<lparr>sx_QueueDepth := q\<rparr>) = counters_ok x"
  "counters_ok (x\<lparr>sx_LastIdleClock := t\<rparr>) = counters_ok x"
  "counters_ok (x\<lparr>sx_EnabledAlways := a\<rparr>) = counters_ok x"
  "counters_ok (x\<lparr>sx_CountersEnabled := c\<rparr>) = counters_ok x"
  "counters_ok (x\<lparr>sx_LogData := l\<rparr>) = counters_ok x"
  by (simp_all add: counters_ok_def split: counter_memory.split)

lemma current_simps [simp]:
  "current_counters e (x\<lparr>sx_RemoveLock := n\<rparr>) = current_counters e x"
  "current_counters e (x\<lparr>sx_QueueDepth := q\<rparr>) = current_counters e x"
  "current_counters e (x\<lparr>sx_LastIdleClock := t\<rparr>) = current_counters e x"
  by (simp_all add: current_counters_def)

lemma send_settled:
  assumes "counters_ok (sw_ext w)"
  shows "sc_settled i w (snd (ScsiChkSendToNextDriver e i w))"
  using assms by (simp add: sc_settled_def ScsiChkSendToNextDriver_def sc_owned_def)

lemma complete_settled:
  assumes "counters_ok (sw_ext w)" "si_id j = si_id i"
  shows "sc_settled i w (sc_complete j w)"
  using assms by (simp add: sc_settled_def sc_defs sc_owned_def)

lemma status_id [simp]: "si_id (sc_status s i) = si_id i" "si_id (sc_information n i) = si_id i"
  by (simp_all add: sc_simps)

subsection \<open>Reads, writes and SCSI requests\<close>

lemma read_write_cases:
  assumes "counters_ok (sw_ext w)"
  shows "\<exists>st w'. ScsiChkReadWrite e i w = Some (st, w') \<and> (sc_settled i w w' \<or> launched i w w')"
proof (cases "NT_SUCCESS (se_acquire e)")
  case False
  then show ?thesis
    using complete_settled [OF assms, of "sc_status (se_acquire e) i" i]
    by (simp add: ScsiChkReadWrite_def acquire_cases)
next
  case acq: True
  let ?x = "sw_ext w"
  let ?w = "w\<lparr>sw_ext := ?x\<lparr>sx_RemoveLock := Suc (sx_RemoveLock ?x)\<rparr>\<rparr>"
  have send: "sc_settled i w (sc_release (snd (ScsiChkSendToNextDriver e i ?w)))"
    using assms by (simp add: sc_settled_def sc_defs sc_owned_def)
  show ?thesis
  proof (cases "current_counters e ?x")
    case None
    with acq send show ?thesis
      by (auto simp: ScsiChkReadWrite_def acquire_cases split: prod.split)
  next
    case (Some k)
    show ?thesis
    proof (cases "sx_CountersEnabled ?x <=s 0 \<or> sx_PhysicalDeviceNameBuffer ?x ! 0 = 0")
      case True
      with acq send Some show ?thesis
        by (auto simp: ScsiChkReadWrite_def acquire_cases split: prod.split)
    next
      case enabled: False
      define x1 where "x1 = ?x\<lparr>sx_RemoveLock := Suc (sx_RemoveLock ?x), sx_QueueDepth := sx_QueueDepth ?x + 1\<rparr>"
      define f where "f = (\<lambda>c. c\<lparr>dp_IdleTime := dp_IdleTime c + (se_clock e - sx_LastIdleClock x1)\<rparr> :: processor_counters)"
      have ok: "counters_ok x1" "current_counters e x1 = Some k"
        using assms Some by (simp_all add: x1_def)
      from upd_counters_ok [OF this, of f] obtain y where y: "upd_counters k f x1 = Some y" by auto
      from upd_counters_frame [OF y ok(1)] have fr: "counters_ok y" "same_but_counters x1 y" by simp_all
      let ?x2 = "if sx_QueueDepth ?x + 1 = 1 then y\<lparr>sx_LastIdleClock := se_clock e\<rparr> else x1"
      have "ScsiChkReadWrite e i w =
          Some (se_call e, ?w\<lparr>sw_ext := ?x2, sw_InFlight := sw_InFlight w @ [i\<lparr>si_TimeStamp := se_clock e\<rparr>]\<rparr>)"
        using acq Some enabled y
        by (simp add: ScsiChkReadWrite_def acquire_cases x1_def [symmetric] f_def [symmetric])
      moreover have "launched i w (?w\<lparr>sw_ext := ?x2, sw_InFlight := sw_InFlight w @ [i\<lparr>si_TimeStamp := se_clock e\<rparr>]\<rparr>)"
        using fr ok(1) by (auto simp: launched_def same_but_counters_def x1_def)
      ultimately show ?thesis by blast
    qed
  qed
qed

lemma scsi_cases:
  assumes "counters_ok (sw_ext w)"
  shows "sc_settled i w (snd (ScsiChkScsi e i w)) \<or> launched i w (snd (ScsiChkScsi e i w))"
proof (cases "NT_SUCCESS (se_acquire e)")
  case False
  then show ?thesis
    using complete_settled [OF assms, of "sc_status (se_acquire e) i" i]
    by (simp add: ScsiChkScsi_def acquire_cases)
next
  case True
  then show ?thesis
    using assms by (auto simp: ScsiChkScsi_def acquire_cases launched_def sc_simps)
qed

subsection \<open>Control requests\<close>

definition valid_clock :: "sc_env \<Rightarrow> bool" where
  "valid_clock e \<longleftrightarrow> 0 <s se_frequency e"

lemma ll_div_positive: "0 <s b \<Longrightarrow> \<exists>q. ll_div a b = Some q"
  by (auto simp: ll_div_def word_sless_alt)

lemma time_units_exist: "valid_clock e \<Longrightarrow> \<exists>q. in_time_units (se_frequency e) t = Some q"
  using ll_div_positive unfolding in_time_units_def valid_clock_def by simp

lemma add_exists: "valid_clock e \<Longrightarrow> \<exists>t'. ScsiChkAddCounters t c (se_frequency e) = Some t'"
proof -
  assume v: "valid_clock e"
  obtain a b d where "in_time_units (se_frequency e) (dp_ReadTime c) = Some a"
    "in_time_units (se_frequency e) (dp_WriteTime c) = Some b"
    "in_time_units (se_frequency e) (dp_IdleTime c) = Some d"
    using time_units_exist [OF v] by metis
  then show ?thesis by (simp add: ScsiChkAddCounters_def)
qed

lemma add_counters_total:
  assumes "valid_clock e" "n \<le> length cs"
  shows "\<exists>t'. add_counters n t cs (se_frequency e) = Some t'"
  using assms(2)
proof (induction n arbitrary: t cs)
  case (Suc n)
  then obtain c cs' where cs: "cs = c # cs'" "n \<le> length cs'" by (cases cs) auto
  obtain t1 where "ScsiChkAddCounters t c (se_frequency e) = Some t1" using add_exists [OF assms(1)] by blast
  with Suc.IH [OF cs(2)] show ?case by (auto simp: cs(1))
qed simp

lemma totals_exist:
  assumes "valid_clock e" "counters_ok x" "sx_DiskCounters x \<noteq> NoCounters"
  shows "\<exists>t. total_counters e x = Some t"
  using assms add_counters_total [OF assms(1), of "unat (sx_Processors x)"]
  by (fastforce simp: counters_ok_def total_counters_def split: counter_memory.splits)

lemma queries_exist:
  assumes "valid_clock e" "counters_ok x" "sx_DiskCounters x \<noteq> NoCounters"
  shows "\<exists>t. query_performance e x = Some t" "\<exists>t. query_wmi e x = Some t"
proof -
  obtain t where t: "total_counters e x = Some t" using totals_exist [OF assms] by blast
  obtain q where "ll_div (10000000 * (se_query_clock e - sx_LastIdleClock x)) (se_frequency e) = Some q"
    using ll_div_positive assms(1) unfolding valid_clock_def by blast
  with t show "\<exists>t. query_performance e x = Some t" "\<exists>t. query_wmi e x = Some t"
    by (simp_all add: query_performance_def query_wmi_def add_idle_def Let_def)
qed

lemma enable_always_ok:
  assumes "counters_ok x"
  shows "\<exists>y. enable_always e x = Some y \<and> counters_ok y \<and> sx_RemoveLock y = sx_RemoveLock x \<and>
     sx_LogData y = sx_LogData x \<and> (sx_QueueDepth y = sx_QueueDepth x \<or> sx_QueueDepth y = 0) \<and>
     (sx_DiskCounters x \<noteq> NoCounters \<longrightarrow> sx_DiskCounters y \<noteq> NoCounters)"
proof (cases "sx_EnabledAlways x = 0")
  case True
  let ?x = "x\<lparr>sx_EnabledAlways := 1, sx_CountersEnabled := sx_CountersEnabled x + 1\<rparr>"
  obtain y where y: "reset_counters ?x = Some y" "counters_ok y" "same_but_counters ?x y"
    using reset_counters_ok [of ?x] assms by auto
  moreover have "sx_DiskCounters x \<noteq> NoCounters \<Longrightarrow> sx_DiskCounters y \<noteq> NoCounters"
    using y(1) by (auto simp: reset_counters_def split: counter_memory.splits if_splits)
  ultimately show ?thesis
    using True by (simp add: enable_always_def same_but_counters_def)
next
  case False
  with assms show ?thesis by (simp add: enable_always_def)
qed

lemma control_cases:
  assumes "counters_ok (sw_ext w)" "valid_clock e"
  shows "\<exists>st w'. ScsiChkDeviceControl e i w = Some (st, w') \<and> sc_settled i w w'"
proof (cases "NT_SUCCESS (se_acquire e)")
  case False
  then show ?thesis
    using complete_settled [OF assms(1), of "sc_status (se_acquire e) i" i]
    by (simp add: ScsiChkDeviceControl_def acquire_cases)
next
  case acq: True
  let ?x = "sw_ext w"
  let ?x1 = "?x\<lparr>sx_RemoveLock := Suc (sx_RemoveLock ?x)\<rparr>"
  show ?thesis
  proof (cases "si_IoControlCode i = IOCTL_DISK_PERFORMANCE \<and>
      \<not> unat (si_OutputBufferLength i) < sizeof_DISK_PERFORMANCE \<and> sx_DiskCounters ?x \<noteq> NoCounters")
    case True
    obtain y where y: "enable_always e ?x1 = Some y" "counters_ok y" "sx_RemoveLock y = Suc (sx_RemoveLock ?x)"
      "sx_LogData y = sx_LogData ?x" "sx_QueueDepth y = sx_QueueDepth ?x \<or> sx_QueueDepth y = 0"
      "sx_DiskCounters y \<noteq> NoCounters"
      using enable_always_ok [of ?x1 e] assms(1) True by auto
    obtain t where "query_performance e y = Some t"
      using queries_exist(1) [OF assms(2) y(2,6)] by blast
    with acq True y show ?thesis
      by (auto simp: ScsiChkDeviceControl_def acquire_cases sc_settled_def sc_owned_def sc_simps Let_def)
  next
    case False
    with acq assms(1) show ?thesis
      by (auto simp: ScsiChkDeviceControl_def acquire_cases sc_settled_def sc_owned_def sc_defs)
  qed
qed

subsection \<open>WMI\<close>

text \<open>
  The generated structure has room for the counters up to the manager name, and a callback
  leaves nothing to do with the request.
\<close>

definition wmi_ok :: "wmi_library \<Rightarrow> bool" where
  "wmi_ok wl \<longleftrightarrow> 87 \<le> wl_sizeof wl \<and>
     (wl_callback wl \<noteq> NoCallback \<longrightarrow> wl_disposition wl = IrpProcessed)"

lemma data_block_exists:
  assumes "valid_clock e" "counters_ok x" "87 \<le> n"
  shows "\<exists>r. DiskperfQueryWmiDataBlock n e g b a x = Some r"
proof (cases "g = 0 \<and> sx_DiskCounters x \<noteq> NoCounters")
  case True
  then obtain t where "query_wmi e x = Some t" using queries_exist(2) [OF assms(1,2)] by blast
  moreover have "88 \<le> round_up2 n" "n \<le> round_up2 n" "round_up2 sizeof_DISK_PERFORMANCE = 88"
    using assms(3) by (simp_all add: round_up2_def sizeof_DISK_PERFORMANCE_def; linarith)+
  ultimately show ?thesis
    using True by (auto simp: DiskperfQueryWmiDataBlock_def wmi_size_needed_def Let_def)
next
  case False
  then show ?thesis by (auto simp: DiskperfQueryWmiDataBlock_def Let_def)
qed

lemma function_control_ok:
  assumes "counters_ok x"
  shows "\<exists>st y. DiskperfWmiFunctionControl e g d en x = Some (st, y) \<and> counters_ok y \<and>
     sx_RemoveLock y = sx_RemoveLock x \<and> sx_LogData y = sx_LogData x \<and>
     (sx_QueueDepth y = sx_QueueDepth x \<or> sx_QueueDepth y = 0)"
proof (cases "g = 0 \<and> d \<and> en \<and> sx_CountersEnabled x + 1 = 1")
  case True
  let ?x = "x\<lparr>sx_CountersEnabled := sx_CountersEnabled x + 1\<rparr>"
  obtain y where y: "reset_counters ?x = Some y" "counters_ok y" "same_but_counters ?x y"
    using reset_counters_ok [of ?x] assms by auto
  with True show ?thesis
    by (auto simp: DiskperfWmiFunctionControl_def wmi_data_block_control_def same_but_counters_def)
next
  case False
  with assms show ?thesis
    by (auto simp: DiskperfWmiFunctionControl_def wmi_data_block_control_def Let_def)
qed

lemma wmi_cases:
  assumes "counters_ok (sw_ext w)" "valid_clock e" "wmi_ok wl"
  shows "\<exists>st w'. ScsiChkWmi wl e i w = Some (st, w') \<and> sc_settled i w w'"
proof (cases "NT_SUCCESS (se_acquire e)")
  case False
  then show ?thesis
    using complete_settled [OF assms(1), of "sc_status (se_acquire e) i" i]
    by (simp add: ScsiChkWmi_def acquire_cases)
next
  case acq: True
  let ?x = "sw_ext w"
  let ?x1 = "?x\<lparr>sx_RemoveLock := Suc (sx_RemoveLock ?x)\<rparr>"
  show ?thesis
  proof (cases "sx_GuidCount ?x = 0")
    case True
    with acq assms(1) show ?thesis
      by (simp add: ScsiChkWmi_def acquire_cases sc_settled_def sc_owned_def sc_defs)
  next
    case guid: False
    show ?thesis
    proof (cases "wl_callback wl")
      case NoCallback
      with acq guid assms(1) show ?thesis
        by (cases "wl_disposition wl")
          (simp_all add: ScsiChkWmi_def acquire_cases run_callback_def sc_settled_def sc_owned_def sc_defs)
    next
      case (QueryDataBlock g b a)
      have n: "87 \<le> wl_sizeof wl" using assms(3) by (simp add: wmi_ok_def)
      obtain st size blk where "DiskperfQueryWmiDataBlock (wl_sizeof wl) e g b a ?x1 = Some (st, size, blk)"
        using data_block_exists [of e ?x1 "wl_sizeof wl" g b a] assms(1,2) n by fastforce
      with acq guid QueryDataBlock assms(1,3) show ?thesis
        by (simp add: ScsiChkWmi_def acquire_cases run_callback_def sc_settled_def sc_owned_def sc_simps wmi_ok_def)
    next
      case (FunctionControl g d en)
      obtain st y where y: "DiskperfWmiFunctionControl e g d en ?x1 = Some (st, y)" "counters_ok y"
        "sx_RemoveLock y = Suc (sx_RemoveLock ?x)" "sx_LogData y = sx_LogData ?x"
        "sx_QueueDepth y = sx_QueueDepth ?x \<or> sx_QueueDepth y = 0"
        using function_control_ok [of ?x1 e g d en] assms(1) by auto
      with acq guid FunctionControl assms(1,3) show ?thesis
        by (auto simp: ScsiChkWmi_def acquire_cases run_callback_def sc_settled_def sc_owned_def sc_simps wmi_ok_def)
    qed
  qed
qed

subsection \<open>The dispatch table\<close>

lemma dispatch_cases:
  assumes "counters_ok (sw_ext w)" "valid_clock e" "wmi_ok wl"
  shows "\<exists>st w'. sc_dispatch wl (e, i) w = Some (st, w') \<and> (sc_settled i w w' \<or> launched i w w')"
proof -
  let ?m = "si_MajorFunction i"
  consider "?m = IRP_MJ_READ \<or> ?m = IRP_MJ_WRITE" | "?m = IRP_MJ_DEVICE_CONTROL" | "?m = IRP_MJ_SCSI"
    | "?m = IRP_MJ_SYSTEM_CONTROL" | "?m = IRP_MJ_CREATE" | "?m = IRP_MJ_SHUTDOWN \<or> ?m = IRP_MJ_FLUSH_BUFFERS"
    | "?m = IRP_MJ_POWER"
    | "?m \<notin> {IRP_MJ_READ, IRP_MJ_WRITE, IRP_MJ_DEVICE_CONTROL, IRP_MJ_SCSI, IRP_MJ_SYSTEM_CONTROL,
        IRP_MJ_CREATE, IRP_MJ_SHUTDOWN, IRP_MJ_FLUSH_BUFFERS, IRP_MJ_POWER}"
    by blast
  then show ?thesis
  proof cases
    case 1
    then show ?thesis using read_write_cases [OF assms(1)] by (auto simp: sc_dispatch_def)
  next
    case 2
    then show ?thesis using control_cases [OF assms(1,2)] by (fastforce simp: sc_dispatch_def)
  next
    case 3
    then show ?thesis using scsi_cases [OF assms(1), of i e]
      by (cases "ScsiChkScsi e i w") (simp add: sc_dispatch_def)
  next
    case 4
    then show ?thesis using wmi_cases [OF assms] by (fastforce simp: sc_dispatch_def)
  next
    case 5
    then show ?thesis using complete_settled [OF assms(1), of "sc_status STATUS_SUCCESS i" i]
      by (simp add: sc_dispatch_def ScsiChkCreate_def)
  next
    case 6
    then show ?thesis using assms(1)
      by (auto simp: sc_dispatch_def ScsiChkShutdownFlush_def sc_settled_def sc_owned_def)
  next
    case 7
    then show ?thesis using assms(1)
      by (simp add: sc_dispatch_def ScsiChkDispatchPower_def sc_settled_def sc_owned_def)
  next
    case 8
    then show ?thesis using send_settled [OF assms(1), of i e]
      by (cases "ScsiChkSendToNextDriver e i w") (simp add: sc_dispatch_def)
  qed
qed

interpretation logger: request_handler "sc_dispatch wl" "\<lambda>q. si_id (snd q)" "\<lambda>q. valid_clock (fst q)"
  "\<lambda>w :: sc_world. wmi_ok wl \<and> counters_ok (sw_ext w)" sc_owned
  for wl
proof unfold_locales
  fix w :: sc_world and q :: "sc_env \<times> sc_irp"
  assume a: "wmi_ok wl \<and> counters_ok (sw_ext w)" "valid_clock (fst q)"
  obtain e i where q: "q = (e, i)" by fastforce
  from dispatch_cases [of w e wl i] a obtain st w' where
    "sc_dispatch wl q w = Some (st, w')" "sc_settled i w w' \<or> launched i w w'"
    by (auto simp: q)
  then show "\<exists>r s'. sc_dispatch wl q w = Some (r, s') \<and> (wmi_ok wl \<and> counters_ok (sw_ext s')) \<and>
      sc_owned s' = add_mset (si_id (snd q)) (sc_owned w)"
    using a launched_owned [of i w w'] by (auto simp: q sc_settled_def launched_def)
qed

subsection \<open>Completion\<close>

lemma leave_queue_frame:
  "counters_ok (leave_queue e x) = counters_ok x" "current_counters f (leave_queue e x) = current_counters f x"
  "sx_RemoveLock (leave_queue e x) = sx_RemoveLock x" "sx_LogData (leave_queue e x) = sx_LogData x"
  "sx_DiskCounters (leave_queue e x) = sx_DiskCounters x"
  by (simp_all add: leave_queue_eq Let_def)

text \<open>The depth never becomes negative, and it drops by one or stays at zero.\<close>

lemma leave_queue_depth:
  assumes "0 \<le> sint (sx_QueueDepth x)"
  shows "0 \<le> sint (sx_QueueDepth (leave_queue e x))"
    "sint (sx_QueueDepth (leave_queue e x)) = max 0 (sint (sx_QueueDepth x) - 1)"
proof -
  let ?q = "sx_QueueDepth x"
  have r: "sint ?q < 2147483648" using sint_range_size [of ?q] by (simp add: word_size)
  have d: "sint (?q - 1) = sint ?q - 1"
    using assms r by (simp add: sint_word_ariths signed_take_bit_int_eq_self)
  have "sx_QueueDepth (leave_queue e x) = (if sint ?q = 0 then ?q else ?q - 1)"
    using assms d by (auto simp: leave_queue_eq Let_def word_sless_alt)
  then show "sint (sx_QueueDepth (leave_queue e x)) = max 0 (sint ?q - 1)"
    "0 \<le> sint (sx_QueueDepth (leave_queue e x))"
    using assms d by auto
qed

definition answer_log :: "sc_env \<Rightarrow> sc_irp \<Rightarrow> sc_world \<Rightarrow> sc_world \<Rightarrow> bool" where
  "answer_log e i w w' \<longleftrightarrow>
     (if si_MajorFunction i = IRP_MJ_SCSI \<and> current_counters e (sw_ext w) \<noteq> None
      then \<exists>a d. build_log e i = Some (a, d) \<and>
             sx_LogData (sw_ext w') = (a, d\<lparr>ld_Next := log_head (sx_LogData (sw_ext w))\<rparr>) # sx_LogData (sw_ext w)
      else sx_LogData (sw_ext w') = sx_LogData (sw_ext w))"

lemma count_completion_frame:
  assumes "count_completion e i k x = Some y" "counters_ok x"
  shows "counters_ok y \<and> sx_RemoveLock y = sx_RemoveLock x \<and> sx_QueueDepth y = sx_QueueDepth x \<and>
     (if si_MajorFunction i = IRP_MJ_SCSI
      then \<exists>r. build_log e i = Some r \<and> y = push_log r x else sx_LogData y = sx_LogData x)"
  using assms upd_counters_frame
  by (fastforce simp: count_completion_def Let_def same_but_counters_def push_log_frame split: if_splits)

lemma completion_frame:
  assumes "ScsiChkIoCompletion e i w = Some (st, w')" "counters_ok (sw_ext w)"
  shows "counters_ok (sw_ext w') \<and> sx_RemoveLock (sw_ext w') = sx_RemoveLock (sw_ext w) - 1 \<and>
     sx_QueueDepth (sw_ext w') = sx_QueueDepth (leave_queue e (sw_ext w)) \<and>
     sw_InFlight w' = sw_InFlight w \<and> sw_Completed w' = sw_Completed w \<and> sw_SentDown w' = sw_SentDown w \<and>
     answer_log e i w w'"
proof (cases "current_counters e (sw_ext w)")
  case None
  with assms show ?thesis
    by (auto simp: ScsiChkIoCompletion_def Let_def leave_queue_frame sc_simps answer_log_def)
next
  case (Some k)
  let ?x = "leave_queue e (sw_ext w)"
  from assms(1) Some obtain x1 x2 where x: "count_completion e i k ?x = Some x1"
    "(if si_Flags i AND IRP_ASSOCIATED_IRP \<noteq> 0
      then upd_counters k (\<lambda>c. c\<lparr>dp_SplitCount := dp_SplitCount c + 1\<rparr>) x1 else Some x1) = Some x2"
    "w' = sc_release (w\<lparr>sw_ext := x2\<rparr>)"
    by (auto simp: ScsiChkIoCompletion_def Let_def leave_queue_frame split: bind_splits)
  have "counters_ok ?x" using assms(2) by (simp add: leave_queue_frame)
  note c = count_completion_frame [OF x(1) this]
  have "counters_ok x2 \<and> same_but_counters x1 x2"
    using x(2) c upd_counters_frame [of k _ x1 x2]
    by (auto simp: same_but_counters_def split: if_splits)
  with c x(3) Some show ?thesis
    by (auto simp: sc_simps same_but_counters_def leave_queue_frame answer_log_def push_log_def
        split: if_splits prod.splits)
qed

subsection \<open>Every reachable state\<close>

text \<open>
  A request arrives (at most $2^{31} - 1$ are outstanding: each of them occupies memory), or the
  lower driver completes one that is in flight, with whatever status, data and request block.
\<close>

inductive sc_step :: "sc_world \<Rightarrow> sc_world \<Rightarrow> bool" where
  arrive: "length (sw_InFlight w) < 2147483647 \<Longrightarrow> valid_clock e \<Longrightarrow> wmi_ok wl \<Longrightarrow>
    sc_dispatch wl (e, i) w = Some (st, w') \<Longrightarrow> sc_step w w'"
| answered: "i \<in> set (sw_InFlight w) \<Longrightarrow> sc_answer e i b s w = Some w' \<Longrightarrow> sc_step w w'"

inductive_cases sc_stepE: "sc_step w w'"

definition sc_inv :: "sc_world \<Rightarrow> bool" where
  "sc_inv w \<longleftrightarrow>
     counters_ok (sw_ext w) \<and> sx_RemoveLock (sw_ext w) = length (sw_InFlight w) \<and>
     length (sw_InFlight w) \<le> 2147483647 \<and> 0 \<le> sint (sx_QueueDepth (sw_ext w)) \<and>
     sint (sx_QueueDepth (sw_ext w)) \<le> int (length (sw_InFlight w)) \<and> log_chain (sx_LogData (sw_ext w))"

lemma depth_increment:
  "0 \<le> sint (q :: LONG) \<Longrightarrow> sint q < 2147483647 \<Longrightarrow> sint (q + 1) = sint q + 1"
  by (simp add: sint_word_ariths signed_take_bit_int_eq_self)

lemma sc_settled_inv: "sc_inv w \<Longrightarrow> sc_settled i w w' \<Longrightarrow> sc_inv w'"
  by (auto simp: sc_inv_def sc_settled_def)

lemma launched_inv:
  "sc_inv w \<Longrightarrow> length (sw_InFlight w) < 2147483647 \<Longrightarrow> launched i w w' \<Longrightarrow> sc_inv w'"
  by (auto simp: sc_inv_def launched_def depth_increment)

lemma answer_inv:
  assumes "sc_inv w" "i \<in> set (sw_InFlight w)" "sc_answer e i b s w = Some w'"
  shows "sc_inv w'"
proof -
  let ?i = "i\<lparr>si_IoStatus := b, si_Srb := s\<rparr>"
  obtain st w1 where w1: "ScsiChkIoCompletion e ?i w = Some (st, w1)"
    "w' = sc_complete ?i (w1\<lparr>sw_InFlight := remove1 i (sw_InFlight w1)\<rparr>)"
    using assms(3) by (auto simp: sc_answer_def Let_def split: bind_splits)
  have ok: "counters_ok (sw_ext w)" using assms(1) by (simp add: sc_inv_def)
  note f = completion_frame [OF w1(1) ok]
  have len: "length (remove1 i (sw_InFlight w)) = length (sw_InFlight w) - 1" "0 < length (sw_InFlight w)"
    using assms(2) by (auto simp: length_remove1)
  have "log_chain (sx_LogData (sw_ext w1))"
    using f assms(1) by (auto simp: answer_log_def sc_inv_def writable_def wf_log_def split: if_splits dest!: build_log_wf)
  moreover have "0 \<le> sint (sx_QueueDepth (sw_ext w1))"
    "sint (sx_QueueDepth (sw_ext w1)) \<le> int (length (sw_InFlight w) - 1)"
    using f leave_queue_depth [of "sw_ext w" e] assms(1) len by (auto simp: sc_inv_def)
  ultimately show ?thesis
    using f assms(1) len w1(2) by (auto simp: sc_inv_def sc_simps)
qed

lemma step_inv:
  assumes "sc_step w w'" "sc_inv w"
  shows "sc_inv w'"
proof -
  from assms(1) consider
    (1) e wl i st where "length (sw_InFlight w) < 2147483647" "valid_clock e" "wmi_ok wl"
      "sc_dispatch wl (e, i) w = Some (st, w')"
  | (2) i e b s where "i \<in> set (sw_InFlight w)" "sc_answer e i b s w = Some w'"
    by (rule sc_stepE)
  then show ?thesis
  proof cases
    case 1
    have "counters_ok (sw_ext w)" using assms(2) by (simp add: sc_inv_def)
    from dispatch_cases [OF this 1(2,3), of i] 1(4) have "sc_settled i w w' \<or> launched i w w'" by simp
    with 1(1) assms(2) show ?thesis by (blast intro: sc_settled_inv launched_inv)
  next
    case 2
    then show ?thesis using answer_inv assms(2) by blast
  qed
qed

definition sc_started :: "sc_world \<Rightarrow> bool" where
  "sc_started w \<longleftrightarrow>
     counters_ok (sw_ext w) \<and> sx_RemoveLock (sw_ext w) = 0 \<and> sw_InFlight w = [] \<and>
     sx_QueueDepth (sw_ext w) = 0 \<and> sx_LogData (sw_ext w) = []"

lemma sc_reachable_inv:
  assumes "sc_step\<^sup>*\<^sup>* w0 w" "sc_started w0"
  shows "sc_inv w"
  using assms(1)
proof (induction rule: rtranclp_induct)
  case base
  then show ?case using assms(2) by (simp add: sc_inv_def sc_started_def)
next
  case (step w w')
  then show ?case using step_inv by blast
qed

text \<open>
  C22: In every state of the logger reached by requests and answers in any order, each handler
  and each completion running as a whole: the remove lock is held exactly by the requests in
  flight, the queue depth lies between zero and their number, every processor keeps its
  counters, and every record of the log is linked to the next one. Assumed: fewer than
  2147483647 requests in flight, a running performance counter, a WMI library that keeps its
  documented rules. The bound on the queue depth does not survive a query inside a completion:
  that is C21.
\<close>

theorem logger_state_invariant:
  assumes "sc_step\<^sup>*\<^sup>* w0 w" "sc_started w0"
  shows "sx_RemoveLock (sw_ext w) = length (sw_InFlight w) \<and>
     0 \<le> sint (sx_QueueDepth (sw_ext w)) \<and> sint (sx_QueueDepth (sw_ext w)) \<le> int (length (sw_InFlight w)) \<and>
     counters_ok (sw_ext w) \<and> log_chain (sx_LogData (sw_ext w))"
  using sc_reachable_inv [OF assms] by (simp add: sc_inv_def)

text \<open>
  C23: Whatever requests other than plug and play reach the dispatch table of the logger, no
  handler faults and every request is in exactly one of the places completed, passed down and
  in flight, given a WMI library that keeps its documented rules and a running performance
  counter.
\<close>

theorem logger_owns_requests_once:
  assumes "wmi_ok wl" "counters_ok (sw_ext w)" "sc_owned w = {#}"
    and "list_all (\<lambda>q. valid_clock (fst q)) qs" "distinct (map (\<lambda>q. si_id (snd q)) qs)"
  shows "\<exists>w'. run_requests (sc_dispatch wl) qs w = Some w' \<and> counters_ok (sw_ext w') \<and>
     sc_owned w' = mset (map (\<lambda>q. si_id (snd q)) qs) \<and> (\<forall>n. count (sc_owned w') n \<le> 1)"
proof -
  have g: "wmi_ok wl \<and> counters_ok (sw_ext w)" using assms(1,2) by simp
  from logger.runs [OF g assms(4)] obtain w' where "run_requests (sc_dispatch wl) qs w = Some w'"
    "counters_ok (sw_ext w')" "sc_owned w' = mset (map (\<lambda>q. si_id (snd q)) qs)"
    using assms(3) by auto
  moreover from logger.runs_distinct [OF g assms(4,3,5)] this(1) have "\<forall>n. count (sc_owned w') n \<le> 1"
    by simp
  ultimately show ?thesis by blast
qed

text \<open>The allocation of the record is only asserted: a debug build stops, any other build faults.\<close>

theorem unlogged_allocation_faults:
  assumes "si_MajorFunction i = IRP_MJ_SCSI" "current_counters e (sw_ext w) \<noteq> None"
    and "se_log_address e = None"
  shows "sc_answer e i b s w = None"
  using assms
  by (auto simp: sc_answer_def ScsiChkIoCompletion_def Let_def leave_queue_frame count_completion_def build_log_def)

end
