(* ===== verification/ScsiChk_Totals.thy ===== *)
theory ScsiChk_Totals
  imports ScsiChk_Inv
begin

section \<open>The SCSI logger: what the counters count\<close>

text \<open>
  The specification of the performance counters: a commutative monoid of totals, to which every
  completed request contributes once. The processors keep parts of the totals; which processor
  a completion runs on makes no difference to their sum, and the control code reports this sum.
\<close>

subsection \<open>Totals\<close>

datatype io_totals =
  Totals (t_BytesRead: LONGLONG) (t_BytesWritten: LONGLONG) (t_ReadCount: ULONG) (t_WriteCount: ULONG)
    (t_ReadTime: LONGLONG) (t_WriteTime: LONGLONG) (t_SplitCount: ULONG)

instantiation io_totals :: comm_monoid_add
begin

definition zero_io_totals :: io_totals where
  "zero_io_totals = Totals 0 0 0 0 0 0 0"

definition plus_io_totals :: "io_totals \<Rightarrow> io_totals \<Rightarrow> io_totals" where
  "plus_io_totals a b =
     Totals (t_BytesRead a + t_BytesRead b) (t_BytesWritten a + t_BytesWritten b)
       (t_ReadCount a + t_ReadCount b) (t_WriteCount a + t_WriteCount b)
       (t_ReadTime a + t_ReadTime b) (t_WriteTime a + t_WriteTime b) (t_SplitCount a + t_SplitCount b)"

instance
  by standard (simp_all add: zero_io_totals_def plus_io_totals_def add_ac)

end

lemmas io_totals_simps = zero_io_totals_def plus_io_totals_def

definition totals_of :: "processor_counters \<Rightarrow> io_totals" where
  "totals_of c = Totals (dp_BytesRead c) (dp_BytesWritten c) (dp_ReadCount c) (dp_WriteCount c)
     (dp_ReadTime c) (dp_WriteTime c) (dp_SplitCount c)"

definition device_totals :: "scsichk_extension \<Rightarrow> io_totals" where
  "device_totals x = (case sx_DiskCounters x of Counters cs \<Rightarrow> (\<Sum>c\<leftarrow>cs. totals_of c) | _ \<Rightarrow> 0)"

text \<open>What a completion contributes.\<close>

definition contribution :: "sc_env \<Rightarrow> sc_irp \<Rightarrow> io_totals" where
  "contribution e i =
     (let time = se_clock e - si_TimeStamp i; bytes = isb_Information (si_IoStatus i);
          split = (if si_Flags i AND IRP_ASSOCIATED_IRP \<noteq> 0 then 1 else 0)
      in if si_MajorFunction i = IRP_MJ_READ then Totals bytes 0 1 0 time 0 split
         else if si_MajorFunction i = IRP_MJ_WRITE then Totals 0 bytes 0 1 0 time split
         else Totals 0 0 0 0 0 0 split)"

lemma sum_update:
  assumes "k < length cs" "totals_of (f (cs ! k)) = totals_of (cs ! k) + t"
  shows "(\<Sum>c\<leftarrow>cs[k := f (cs ! k)]. totals_of c) = (\<Sum>c\<leftarrow>cs. totals_of c) + t"
  using assms by (induction cs arbitrary: k) (auto simp: add_ac split: nat.splits)

lemma upd_totals:
  assumes "upd_counters k f x = Some y" "\<And>c. totals_of (f c) = totals_of c + t"
  shows "device_totals y = device_totals x + t"
  using assms
  by (auto simp: upd_counters_def device_totals_def sum_update split: counter_memory.splits if_splits)

lemma totals_update:
  "totals_of (c\<lparr>dp_BytesRead := dp_BytesRead c + b, dp_ReadCount := dp_ReadCount c + 1,
      dp_ReadTime := dp_ReadTime c + d\<rparr>) = totals_of c + Totals b 0 1 0 d 0 0"
  "totals_of (c\<lparr>dp_BytesWritten := dp_BytesWritten c + b, dp_WriteCount := dp_WriteCount c + 1,
      dp_WriteTime := dp_WriteTime c + d\<rparr>) = totals_of c + Totals 0 b 0 1 0 d 0"
  "totals_of (c\<lparr>dp_SplitCount := dp_SplitCount c + 1\<rparr>) = totals_of c + Totals 0 0 0 0 0 0 1"
  "totals_of (c\<lparr>dp_IdleTime := v\<rparr>) = totals_of c + 0"
  by (simp_all add: totals_of_def io_totals_simps)

lemma device_totals_frame [simp]:
  "device_totals (x\<lparr>sx_RemoveLock := n\<rparr>) = device_totals x"
  "device_totals (x\<lparr>sx_QueueDepth := q\<rparr>) = device_totals x"
  "device_totals (x\<lparr>sx_LastIdleClock := t\<rparr>) = device_totals x"
  "device_totals (leave_queue e x) = device_totals x"
  "device_totals (push_log r x) = device_totals x"
  by (simp_all add: device_totals_def leave_queue_frame push_log_frame cong: counter_memory.case_cong)

subsection \<open>One completion\<close>

lemma count_completion_totals:
  assumes "count_completion e i k x = Some y"
  shows "device_totals y = device_totals x + contribution e (i\<lparr>si_Flags := 0\<rparr>)"
proof -
  note up = upd_totals [of k _ x y]
  consider "si_MajorFunction i = IRP_MJ_READ" | "si_MajorFunction i = IRP_MJ_WRITE"
    | "si_MajorFunction i = IRP_MJ_SCSI"
    | "si_MajorFunction i \<notin> {IRP_MJ_READ, IRP_MJ_WRITE, IRP_MJ_SCSI}" by blast
  then show ?thesis
  proof cases
    case 1
    with assms show ?thesis
      by (simp add: count_completion_def contribution_def Let_def) (erule up, rule totals_update)
  next
    case 2
    with assms show ?thesis
      by (simp add: count_completion_def contribution_def Let_def) (erule up, rule totals_update)
  next
    case 3
    with assms show ?thesis
      by (auto simp: count_completion_def contribution_def Let_def io_totals_simps)
  next
    case 4
    with assms show ?thesis
      by (auto simp: count_completion_def contribution_def Let_def io_totals_simps)
  qed
qed

lemma contribution_split:
  "contribution e i = contribution e (i\<lparr>si_Flags := 0\<rparr>) +
     (if si_Flags i AND IRP_ASSOCIATED_IRP \<noteq> 0 then Totals 0 0 0 0 0 0 1 else 0)"
  by (simp add: contribution_def Let_def io_totals_simps)

lemma completion_totals:
  assumes "ScsiChkIoCompletion e i w = Some (st, w')" "current_counters e (sw_ext w) \<noteq> None"
  shows "device_totals (sw_ext w') = device_totals (sw_ext w) + contribution e i"
proof -
  obtain k where k: "current_counters e (sw_ext w) = Some k" using assms(2) by auto
  with assms(1) obtain x1 x2 where x: "count_completion e i k (leave_queue e (sw_ext w)) = Some x1"
    "(if si_Flags i AND IRP_ASSOCIATED_IRP \<noteq> 0
      then upd_counters k (\<lambda>c. c\<lparr>dp_SplitCount := dp_SplitCount c + 1\<rparr>) x1 else Some x1) = Some x2"
    "w' = sc_release (w\<lparr>sw_ext := x2\<rparr>)"
    by (auto simp: ScsiChkIoCompletion_def Let_def leave_queue_frame split: bind_splits)
  have "device_totals x2 = device_totals x1 +
      (if si_Flags i AND IRP_ASSOCIATED_IRP \<noteq> 0 then Totals 0 0 0 0 0 0 1 else 0)"
  proof (cases "si_Flags i AND IRP_ASSOCIATED_IRP \<noteq> 0")
    case True
    with x(2) upd_totals [OF _ totals_update(3), of k x1 x2] show ?thesis by simp
  next
    case False
    with x(2) show ?thesis by simp
  qed
  with count_completion_totals [OF x(1)] x(3) contribution_split [of e i] show ?thesis
    by (simp add: sc_simps add_ac)
qed

subsection \<open>Histories\<close>

text \<open>Requests arrive and are answered; an answer concerns a request that is in flight.\<close>

datatype sc_event =
    Arrives wmi_library sc_env sc_irp
  | Answered sc_env sc_irp IO_STATUS_BLOCK srb_values

fun sc_run :: "sc_event list \<Rightarrow> sc_world \<Rightarrow> sc_world option" where
  "sc_run [] w = Some w"
| "sc_run (Arrives wl e i # evs) w = do { (_, w') \<leftarrow> sc_dispatch wl (e, i) w; sc_run evs w' }"
| "sc_run (Answered e i b s # evs) w =
     (if i \<in> set (sw_InFlight w) then do { w' \<leftarrow> sc_answer e i b s w; sc_run evs w' } else None)"

text \<open>
  What an event adds: an answer on a processor that has counters contributes its request. The
  driver has counters for the processors that existed when the device was attached, \<open>n\<close> of them;
  it counts and logs nothing on a processor added later.
\<close>

fun event_totals :: "ULONG \<Rightarrow> sc_event \<Rightarrow> io_totals" where
  "event_totals n (Arrives wl e i) = 0"
| "event_totals n (Answered e i b s) =
     (if se_processor e < n then contribution e (i\<lparr>si_IoStatus := b, si_Srb := s\<rparr>) else 0)"

text \<open>
  Which requests start the counters anew: the first performance query of the control code, and
  the WMI request that enables collection.
\<close>

definition restarts :: "wmi_library \<Rightarrow> sc_env \<Rightarrow> sc_irp \<Rightarrow> sc_world \<Rightarrow> bool" where
  "restarts wl e i w \<longleftrightarrow> NT_SUCCESS (se_acquire e) \<and>
     (si_MajorFunction i = IRP_MJ_DEVICE_CONTROL \<and> si_IoControlCode i = IOCTL_DISK_PERFORMANCE \<and>
        sizeof_DISK_PERFORMANCE \<le> unat (si_OutputBufferLength i) \<and> sx_EnabledAlways (sw_ext w) = 0 \<or>
      si_MajorFunction i = IRP_MJ_SYSTEM_CONTROL \<and> sx_GuidCount (sw_ext w) \<noteq> 0 \<and>
        wl_callback wl = FunctionControl 0 True True \<and> sx_CountersEnabled (sw_ext w) + 1 = 1)"

text \<open>The totals a run should end with: all contributions since the counters were last started.\<close>

fun expected_totals :: "sc_event list \<Rightarrow> sc_world \<Rightarrow> io_totals \<Rightarrow> io_totals" where
  "expected_totals [] w t = t"
| "expected_totals (Arrives wl e i # evs) w t =
     (case sc_dispatch wl (e, i) w of
        None \<Rightarrow> t
      | Some (_, w') \<Rightarrow> expected_totals evs w' (if restarts wl e i w then 0 else t))"
| "expected_totals (Answered e i b s # evs) w t =
     (case sc_answer e i b s w of
        None \<Rightarrow> t
      | Some w' \<Rightarrow> expected_totals evs w' (t + event_totals (sx_Processors (sw_ext w)) (Answered e i b s)))"

definition counting :: "sc_world \<Rightarrow> bool" where
  "counting w \<longleftrightarrow> counters_ok (sw_ext w) \<and> sx_DiskCounters (sw_ext w) \<noteq> NoCounters"

definition totals_become :: "io_totals \<Rightarrow> sc_world \<Rightarrow> sc_world \<Rightarrow> bool" where
  "totals_become t w w' \<longleftrightarrow>
     device_totals (sw_ext w') = t \<and>
     sx_Processors (sw_ext w') = sx_Processors (sw_ext w) \<and>
     sx_LogData (sw_ext w') = sx_LogData (sw_ext w) \<and> counting w'"

abbreviation same_totals :: "sc_world \<Rightarrow> sc_world \<Rightarrow> bool" where
  "same_totals w w' \<equiv> totals_become (device_totals (sw_ext w)) w w'"

lemma upd_counters_counting:
  "upd_counters k f x = Some y \<Longrightarrow> sx_DiskCounters y \<noteq> NoCounters \<and> sx_Processors y = sx_Processors x"
  by (auto simp: upd_counters_def split: counter_memory.splits if_splits)

lemma read_write_totals:
  assumes "ScsiChkReadWrite e i w = Some (st, w')" "counting w"
  shows "same_totals w w'"
proof (cases "NT_SUCCESS (se_acquire e)")
  case False
  with assms show ?thesis
    by (auto simp: ScsiChkReadWrite_def acquire_cases totals_become_def counting_def sc_simps)
next
  case acq: True
  let ?x = "sw_ext w"
  show ?thesis
  proof (cases "\<exists>k. current_counters e ?x = Some k \<and>
      \<not> (sx_CountersEnabled ?x <=s 0 \<or> sx_PhysicalDeviceNameBuffer ?x ! 0 = 0) \<and> sx_QueueDepth ?x + 1 = 1")
    case False
    with acq assms show ?thesis
      by (auto simp: ScsiChkReadWrite_def acquire_cases totals_become_def counting_def sc_defs Let_def
          split: option.splits if_splits)
  next
    case True
    then obtain k where k: "current_counters e ?x = Some k" by blast
    define x1 where "x1 = ?x\<lparr>sx_RemoveLock := Suc (sx_RemoveLock ?x), sx_QueueDepth := 1\<rparr>"
    define f where "f = (\<lambda>c. c\<lparr>dp_IdleTime := dp_IdleTime c + (se_clock e - sx_LastIdleClock x1)\<rparr> :: processor_counters)"
    have r: "ScsiChkReadWrite e i w =
        map_option (\<lambda>y. (se_call e, w\<lparr>sw_ext := y\<lparr>sx_LastIdleClock := se_clock e\<rparr>,
          sw_InFlight := sw_InFlight w @ [i\<lparr>si_TimeStamp := se_clock e\<rparr>]\<rparr>)) (upd_counters k f x1)"
      using acq True k
      by (auto simp: ScsiChkReadWrite_def acquire_cases x1_def [symmetric] f_def [symmetric] Let_def
          map_option_case split: option.splits)
    from r assms(1) obtain y where y: "upd_counters k f x1 = Some y"
      "sw_ext w' = y\<lparr>sx_LastIdleClock := se_clock e\<rparr>" by (cases "upd_counters k f x1") auto
    have "device_totals y = device_totals x1 + 0"
      using y(1) by (rule upd_totals) (simp only: f_def totals_update)
    moreover have "counters_ok y" "sx_LogData y = sx_LogData ?x"
      using upd_counters_frame [OF y(1)] assms(2) by (simp_all add: x1_def counting_def same_but_counters_def)
    ultimately show ?thesis
      using upd_counters_counting [OF y(1)] y(2) by (simp add: totals_become_def counting_def x1_def)
  qed
qed

lemma zero_totals: "(\<Sum>c\<leftarrow>replicate n zero_counters. totals_of c) = 0"
  by (induction n) (simp_all add: totals_of_def zero_counters_def io_totals_simps)

lemma reset_totals:
  assumes "reset_counters x = Some y" "counters_ok x" "sx_DiskCounters x \<noteq> NoCounters"
  shows "device_totals y = 0" "counters_ok y" "sx_DiskCounters y \<noteq> NoCounters" "same_but_counters x y"
    "sx_Processors y = sx_Processors x"
proof -
  obtain cs where cs: "sx_DiskCounters x = Counters cs" "length cs = unat (sx_Processors x)"
    using assms by (auto simp: reset_counters_def counters_ok_def split: counter_memory.splits)
  with assms(1) have y: "y = x\<lparr>sx_DiskCounters := Counters (replicate (unat (sx_Processors x)) zero_counters)\<rparr>"
    by (simp add: reset_counters_def)
  show "device_totals y = 0" "sx_DiskCounters y \<noteq> NoCounters" "sx_Processors y = sx_Processors x"
    using zero_totals by (simp_all add: y device_totals_def)
  show "counters_ok y" "same_but_counters x y"
    using assms(2) cs by (simp_all add: y counters_ok_def same_but_counters_def)
qed

lemma control_totals:
  assumes "ScsiChkDeviceControl e i w = Some (st, w')" "counting w" "si_MajorFunction i = IRP_MJ_DEVICE_CONTROL"
  shows "totals_become (if restarts wl e i w then 0 else device_totals (sw_ext w)) w w'"
proof (cases "NT_SUCCESS (se_acquire e) \<and> si_IoControlCode i = IOCTL_DISK_PERFORMANCE \<and>
    sizeof_DISK_PERFORMANCE \<le> unat (si_OutputBufferLength i) \<and> sx_EnabledAlways (sw_ext w) = 0")
  case True
  let ?x = "(sw_ext w)\<lparr>sx_RemoveLock := Suc (sx_RemoveLock (sw_ext w)), sx_EnabledAlways := 1,
      sx_CountersEnabled := sx_CountersEnabled (sw_ext w) + 1\<rparr>"
  from True assms obtain y where y: "reset_counters ?x = Some y"
    "sw_ext w' = y\<lparr>sx_LastIdleClock := se_clock e, sx_QueueDepth := 0, sx_RemoveLock := sx_RemoveLock y - 1\<rparr>"
    by (auto simp: ScsiChkDeviceControl_def acquire_cases enable_always_def counting_def Let_def sc_simps
        split: bind_splits if_splits)
  have "counters_ok ?x" "sx_DiskCounters ?x \<noteq> NoCounters"
    using assms(2) by (simp_all add: counting_def)
  note z = reset_totals [OF y(1) this]
  have "restarts wl e i w" using True assms(3) by (simp add: restarts_def)
  with z y(2) show ?thesis by (simp add: totals_become_def counting_def same_but_counters_def)
next
  case False
  then have "\<not> restarts wl e i w" using assms(3) by (auto simp: restarts_def)
  moreover have "same_totals w w'"
    using False assms(1,2)
    by (auto simp: ScsiChkDeviceControl_def acquire_cases enable_always_def totals_become_def counting_def Let_def
        sc_simps ScsiChkSendToNextDriver_def split: bind_splits if_splits)
  ultimately show ?thesis by simp
qed

lemma wmi_control_totals:
  assumes "wmi_data_block_control e enable x = Some y" "counters_ok x" "sx_DiskCounters x \<noteq> NoCounters"
  shows "device_totals y = (if enable \<and> sx_CountersEnabled x + 1 = 1 then 0 else device_totals x)"
    "counters_ok y" "sx_DiskCounters y \<noteq> NoCounters" "sx_Processors y = sx_Processors x"
    "sx_LogData y = sx_LogData x"
proof -
  let ?x = "x\<lparr>sx_CountersEnabled := sx_CountersEnabled x + 1\<rparr>"
  have x: "counters_ok ?x" "sx_DiskCounters ?x \<noteq> NoCounters" "device_totals ?x = device_totals x"
    using assms(2,3) by (simp_all add: device_totals_def)
  have "device_totals y = (if enable \<and> sx_CountersEnabled x + 1 = 1 then 0 else device_totals x) \<and>
     counters_ok y \<and> sx_DiskCounters y \<noteq> NoCounters \<and> sx_Processors y = sx_Processors x \<and> sx_LogData y = sx_LogData x"
  proof (cases "enable \<and> sx_CountersEnabled x + 1 = 1")
    case True
    with assms(1) obtain z where z: "reset_counters ?x = Some z"
      "y = z\<lparr>sx_LastIdleClock := se_clock e, sx_QueueDepth := 0\<rparr>"
      by (auto simp: wmi_data_block_control_def Let_def split: bind_splits)
    from reset_totals [OF z(1) x(1,2)] show ?thesis
      using True z(2) by (simp add: same_but_counters_def)
  next
    case False
    with assms show ?thesis
      by (auto simp: wmi_data_block_control_def Let_def device_totals_def split: if_splits)
  qed
  then show "device_totals y = (if enable \<and> sx_CountersEnabled x + 1 = 1 then 0 else device_totals x)"
    "counters_ok y" "sx_DiskCounters y \<noteq> NoCounters" "sx_Processors y = sx_Processors x"
    "sx_LogData y = sx_LogData x" by blast+
qed

lemma callback_totals:
  assumes "run_callback wl e i w = Some (st, w')" "counting w"
  shows "totals_become (if wl_callback wl = FunctionControl 0 True True \<and> sx_CountersEnabled (sw_ext w) + 1 = 1
     then 0 else device_totals (sw_ext w)) w w'"
proof (cases "\<exists>g d en. wl_callback wl = FunctionControl g d en")
  case True
  then obtain g d en where cb: "wl_callback wl = FunctionControl g d en" by blast
  show ?thesis
  proof (cases "g = 0 \<and> d")
    case True
    with cb assms(1) obtain y where y: "wmi_data_block_control e en (sw_ext w) = Some y" "sw_ext w' = y"
      by (auto simp: run_callback_def DiskperfWmiFunctionControl_def sc_simps split: bind_splits)
    with wmi_control_totals [OF y(1)] assms(2) cb True show ?thesis
      by (auto simp: totals_become_def counting_def)
  next
    case False
    with cb assms show ?thesis
      by (auto simp: run_callback_def DiskperfWmiFunctionControl_def totals_become_def counting_def sc_simps
          split: bind_splits if_splits)
  qed
next
  case False
  with assms show ?thesis
    by (auto simp: run_callback_def totals_become_def counting_def sc_simps
        split: wmi_callback.splits bind_splits if_splits)
qed

lemma wmi_totals:
  assumes "ScsiChkWmi wl e i w = Some (st, w')" "counting w" "si_MajorFunction i = IRP_MJ_SYSTEM_CONTROL"
  shows "totals_become (if restarts wl e i w then 0 else device_totals (sw_ext w)) w w'"
proof (cases "NT_SUCCESS (se_acquire e) \<and> sx_GuidCount (sw_ext w) \<noteq> 0")
  case True
  let ?w = "w\<lparr>sw_ext := (sw_ext w)\<lparr>sx_RemoveLock := Suc (sx_RemoveLock (sw_ext w))\<rparr>\<rparr>"
  from True assms(1) obtain s w1 where w1: "run_callback wl e i ?w = Some (s, w1)"
    "sw_ext w' = (sw_ext w1)\<lparr>sx_RemoveLock := sx_RemoveLock (sw_ext w1) - 1\<rparr>"
    by (auto simp: ScsiChkWmi_def acquire_cases sc_simps ScsiChkSendToNextDriver_def
        split: bind_splits disposition.splits)
  have "counting ?w" using assms(2) by (simp add: counting_def)
  from callback_totals [OF w1(1) this] w1(2) True assms(3) show ?thesis
    by (simp add: totals_become_def counting_def restarts_def)
next
  case False
  then have "\<not> restarts wl e i w" using assms(3) by (auto simp: restarts_def)
  with False assms(1,2) show ?thesis
    by (auto simp: ScsiChkWmi_def acquire_cases totals_become_def counting_def sc_simps ScsiChkSendToNextDriver_def
        split: if_splits)
qed

lemma dispatch_totals:
  assumes "sc_dispatch wl (e, i) w = Some (st, w')" "counting w"
  shows "totals_become (if restarts wl e i w then 0 else device_totals (sw_ext w)) w w'"
proof -
  let ?m = "si_MajorFunction i"
  consider (rw) "?m = IRP_MJ_READ \<or> ?m = IRP_MJ_WRITE" | (control) "?m = IRP_MJ_DEVICE_CONTROL"
    | (wmi) "?m = IRP_MJ_SYSTEM_CONTROL"
    | (other) "?m \<notin> {IRP_MJ_READ, IRP_MJ_WRITE, IRP_MJ_DEVICE_CONTROL, IRP_MJ_SYSTEM_CONTROL}"
    by blast
  then show ?thesis
  proof cases
    case rw
    with assms(1) have "ScsiChkReadWrite e i w = Some (st, w')" by (auto simp: sc_dispatch_def)
    from read_write_totals [OF this assms(2)] rw show ?thesis by (auto simp: restarts_def)
  next
    case control
    with assms(1) have "ScsiChkDeviceControl e i w = Some (st, w')" by (simp add: sc_dispatch_def)
    then show ?thesis using assms(2) control by (rule control_totals)
  next
    case wmi
    with assms(1) have "ScsiChkWmi wl e i w = Some (st, w')" by (simp add: sc_dispatch_def)
    then show ?thesis using assms(2) wmi by (rule wmi_totals)
  next
    case other
    then have "\<not> restarts wl e i w" by (simp add: restarts_def)
    with other assms show ?thesis
      by (auto simp: sc_dispatch_def ScsiChkCreate_def ScsiChkScsi_def ScsiChkShutdownFlush_def
        ScsiChkDispatchPower_def totals_become_def counting_def sc_defs split: if_splits)
  qed
qed

lemma count_completion_counting:
  "count_completion e i k x = Some y \<Longrightarrow> sx_DiskCounters x \<noteq> NoCounters \<Longrightarrow>
   sx_DiskCounters y \<noteq> NoCounters \<and> sx_Processors y = sx_Processors x"
  using upd_counters_counting
  by (fastforce simp: count_completion_def Let_def push_log_frame split: if_splits)

lemma completion_counting:
  assumes "ScsiChkIoCompletion e i w = Some (st, w')" "sx_DiskCounters (sw_ext w) \<noteq> NoCounters"
  shows "sx_Processors (sw_ext w') = sx_Processors (sw_ext w) \<and> sx_DiskCounters (sw_ext w') \<noteq> NoCounters"
proof -
  have p: "sx_Processors (leave_queue e (sw_ext w)) = sx_Processors (sw_ext w)"
    by (simp add: leave_queue_eq Let_def)
  show ?thesis
    using assms p
    by (auto simp: ScsiChkIoCompletion_def Let_def leave_queue_frame sc_simps
        split: option.splits bind_splits if_splits
        dest!: count_completion_counting upd_counters_counting)
qed

lemma uncounted_completion:
  assumes "ScsiChkIoCompletion e i w = Some (st, w')" "current_counters e (sw_ext w) = None"
  shows "device_totals (sw_ext w') = device_totals (sw_ext w)" "sx_LogData (sw_ext w') = sx_LogData (sw_ext w)"
  using assms by (auto simp: ScsiChkIoCompletion_def Let_def leave_queue_frame sc_simps)

lemma answer_totals:
  assumes "sc_answer e i b s w = Some w'" "counting w"
  shows "device_totals (sw_ext w') =
      device_totals (sw_ext w) + event_totals (sx_Processors (sw_ext w)) (Answered e i b s)"
    and "sx_Processors (sw_ext w') = sx_Processors (sw_ext w)" and "counting w'"
proof -
  let ?i = "i\<lparr>si_IoStatus := b, si_Srb := s\<rparr>"
  obtain st w1 where w1: "ScsiChkIoCompletion e ?i w = Some (st, w1)"
    "w' = sc_complete ?i (w1\<lparr>sw_InFlight := remove1 i (sw_InFlight w1)\<rparr>)"
    using assms(1) by (auto simp: sc_answer_def Let_def split: bind_splits)
  have "current_counters e (sw_ext w) \<noteq> None \<longleftrightarrow> se_processor e < sx_Processors (sw_ext w)"
    using assms(2) by (simp add: current_counters_def counting_def)
  then show "device_totals (sw_ext w') =
      device_totals (sw_ext w) + event_totals (sx_Processors (sw_ext w)) (Answered e i b s)"
    using completion_totals [OF w1(1)] uncounted_completion(1) [OF w1(1)] w1(2)
    by (cases "se_processor e < sx_Processors (sw_ext w)") (auto simp: sc_simps)
  have ok: "counters_ok (sw_ext w1)" using completion_frame [OF w1(1)] assms(2) by (simp add: counting_def)
  have "sx_Processors (sw_ext w1) = sx_Processors (sw_ext w) \<and> sx_DiskCounters (sw_ext w1) \<noteq> NoCounters"
    by (rule completion_counting [OF w1(1)]) (use assms(2) in \<open>simp add: counting_def\<close>)
  then show "sx_Processors (sw_ext w') = sx_Processors (sw_ext w)" "counting w'"
    using ok w1(2) by (simp_all add: counting_def sc_simps)
qed

lemma run_totals:
  "sc_run evs w = Some w' \<Longrightarrow> counting w \<Longrightarrow>
   counting w' \<and> device_totals (sw_ext w') = expected_totals evs w (device_totals (sw_ext w))"
proof (induction evs arbitrary: w)
  case Nil
  then show ?case by simp
next
  case (Cons ev evs)
  show ?case
  proof (cases ev)
    case (Arrives wl e i)
    then obtain st w1 where w1: "sc_dispatch wl (e, i) w = Some (st, w1)" "sc_run evs w1 = Some w'"
      using Cons.prems(1) by (auto split: bind_splits)
    from dispatch_totals [OF w1(1) Cons.prems(2)] Cons.IH [OF w1(2)] Arrives w1(1) show ?thesis
      by (simp add: totals_become_def)
  next
    case (Answered e i b s)
    then obtain w1 where w1: "sc_answer e i b s w = Some w1" "sc_run evs w1 = Some w'"
      using Cons.prems(1) by (auto split: bind_splits if_splits)
    from answer_totals [OF w1(1) Cons.prems(2)] Cons.IH [OF w1(2)] Answered w1(1) show ?thesis by simp
  qed
qed

text \<open>Without a restart these are plain sums.\<close>

definition plain_arrivals :: "sc_event list \<Rightarrow> bool" where
  "plain_arrivals evs \<longleftrightarrow> (\<forall>wl e i. Arrives wl e i \<in> set evs \<longrightarrow>
     si_MajorFunction i \<noteq> IRP_MJ_DEVICE_CONTROL \<and> si_MajorFunction i \<noteq> IRP_MJ_SYSTEM_CONTROL)"

lemma expected_sum:
  assumes "sc_run evs w = Some w'" "counting w" "plain_arrivals evs"
  shows "expected_totals evs w t = t + (\<Sum>ev\<leftarrow>evs. event_totals (sx_Processors (sw_ext w)) ev)"
  using assms
proof (induction evs arbitrary: w t)
  case Nil
  then show ?case by simp
next
  case (Cons ev evs)
  have l: "plain_arrivals evs" using Cons.prems(3) unfolding plain_arrivals_def by (meson list.set_intros(2))
  show ?case
  proof (cases ev)
    case (Arrives wl e i)
    then obtain st w1 where w1: "sc_dispatch wl (e, i) w = Some (st, w1)" "sc_run evs w1 = Some w'"
      using Cons.prems(1) by (auto split: bind_splits)
    have n: "\<not> restarts wl e i w" using Cons.prems(3) Arrives by (auto simp: restarts_def plain_arrivals_def)
    have c: "counting w1" "sx_Processors (sw_ext w1) = sx_Processors (sw_ext w)"
      using dispatch_totals [OF w1(1) Cons.prems(2)] by (simp_all add: totals_become_def)
    show ?thesis
      using Cons.IH [OF w1(2) c(1) l] Arrives w1(1) n c(2) by simp
  next
    case (Answered e i b s)
    then obtain w1 where w1: "sc_answer e i b s w = Some w1" "sc_run evs w1 = Some w'"
      using Cons.prems(1) by (auto split: bind_splits if_splits)
    from answer_totals [OF w1(1) Cons.prems(2)] have "counting w1" by simp
    from Cons.IH [OF w1(2) this l] answer_totals(2) [OF w1(1) Cons.prems(2)] Answered w1(1) show ?thesis
      by (simp add: add_ac)
  qed
qed

subsection \<open>What is reported\<close>

lemma add_totals:
  assumes "add_counters n t cs f = Some t'" "n = length cs"
  shows "dp_BytesRead t' = dp_BytesRead t + t_BytesRead (\<Sum>c\<leftarrow>cs. totals_of c) \<and>
     dp_BytesWritten t' = dp_BytesWritten t + t_BytesWritten (\<Sum>c\<leftarrow>cs. totals_of c) \<and>
     dp_ReadCount t' = dp_ReadCount t + t_ReadCount (\<Sum>c\<leftarrow>cs. totals_of c) \<and>
     dp_WriteCount t' = dp_WriteCount t + t_WriteCount (\<Sum>c\<leftarrow>cs. totals_of c) \<and>
     dp_SplitCount t' = dp_SplitCount t + t_SplitCount (\<Sum>c\<leftarrow>cs. totals_of c)"
  using assms
proof (induction cs arbitrary: n t)
  case Nil
  then show ?case by (simp add: io_totals_simps)
next
  case (Cons c cs)
  from Cons.prems obtain t1 where t1: "ScsiChkAddCounters t c f = Some t1"
    "add_counters (length cs) t1 cs f = Some t'" by (auto split: bind_splits)
  have "dp_BytesRead t1 = dp_BytesRead t + dp_BytesRead c" "dp_BytesWritten t1 = dp_BytesWritten t + dp_BytesWritten c"
    "dp_ReadCount t1 = dp_ReadCount t + dp_ReadCount c" "dp_WriteCount t1 = dp_WriteCount t + dp_WriteCount c"
    "dp_SplitCount t1 = dp_SplitCount t + dp_SplitCount c"
    using t1(1) by (auto simp: ScsiChkAddCounters_def split: bind_splits)
  with Cons.IH [OF t1(2)] show ?case by (simp add: io_totals_simps totals_of_def add_ac)
qed

lemma reported_totals:
  assumes "query_performance e x = Some t" "counters_ok x"
  shows "dp_BytesRead t = t_BytesRead (device_totals x) \<and> dp_BytesWritten t = t_BytesWritten (device_totals x) \<and>
     dp_ReadCount t = t_ReadCount (device_totals x) \<and> dp_WriteCount t = t_WriteCount (device_totals x) \<and>
     dp_SplitCount t = t_SplitCount (device_totals x)"
proof -
  obtain t1 where t1: "total_counters e x = Some t1"
    "dp_BytesRead t = dp_BytesRead t1" "dp_BytesWritten t = dp_BytesWritten t1" "dp_ReadCount t = dp_ReadCount t1"
    "dp_WriteCount t = dp_WriteCount t1" "dp_SplitCount t = dp_SplitCount t1"
    using assms(1)
    by (auto simp: query_performance_def add_idle_def identify_def Let_def split: bind_splits if_splits)
  obtain cs where cs: "sx_DiskCounters x = Counters cs" "length cs = unat (sx_Processors x)"
    using t1(1) assms(2) by (auto simp: total_counters_def counters_ok_def split: counter_memory.splits)
  with t1(1) obtain t2 where t2: "add_counters (length cs)
      (zero_performance\<lparr>dp_QueryTime := se_system_time e\<rparr>) cs (se_frequency e) = Some t2"
    "t1 = t2\<lparr>dp_QueueDepth := sx_QueueDepth x\<rparr>" by (auto simp: total_counters_def)
  have "device_totals x = (\<Sum>c\<leftarrow>cs. totals_of c)" using cs(1) by (simp add: device_totals_def)
  with add_totals [OF t2(1) refl] t2(2) t1 show ?thesis
    by (simp add: zero_performance_def zero_counters_def processor_counters.defs)
qed

text \<open>
  C18: Whatever requests arrive and are answered, control and WMI requests that start the
  counters anew included, on whatever processors and in whatever order: the counters of all
  processors together, and the totals the performance query reports, are the sums of bytes,
  counts and splits over the requests completed since the counters were last started, each
  counted once if its completion ran on a processor the driver has counters for and not at all
  otherwise (modulo the width of the counters). Handlers and completions run as wholes.
  Assumed: the counters were allocated.
\<close>

theorem counters_exact:
  assumes "sc_run evs w = Some w'" "counting w" "query_performance e (sw_ext w') = Some t"
  shows "device_totals (sw_ext w') = expected_totals evs w (device_totals (sw_ext w)) \<and>
     dp_BytesRead t = t_BytesRead (expected_totals evs w (device_totals (sw_ext w))) \<and>
     dp_BytesWritten t = t_BytesWritten (expected_totals evs w (device_totals (sw_ext w))) \<and>
     dp_ReadCount t = t_ReadCount (expected_totals evs w (device_totals (sw_ext w))) \<and>
     dp_WriteCount t = t_WriteCount (expected_totals evs w (device_totals (sw_ext w))) \<and>
     dp_SplitCount t = t_SplitCount (expected_totals evs w (device_totals (sw_ext w)))"
proof -
  have "counting w'" "device_totals (sw_ext w') = expected_totals evs w (device_totals (sw_ext w))"
    using run_totals [OF assms(1,2)] by simp_all
  then show ?thesis using reported_totals [OF assms(3)] by (simp add: counting_def)
qed

text \<open>The first query of the control code starts all totals at zero and enables the counters.\<close>

lemma first_query_resets:
  assumes "counters_ok x" "sx_DiskCounters x \<noteq> NoCounters" "sx_EnabledAlways x = 0"
  shows "\<exists>y. enable_always e x = Some y \<and> device_totals y = 0 \<and> sx_QueueDepth y = 0 \<and>
     sx_CountersEnabled y = sx_CountersEnabled x + 1 \<and> sx_EnabledAlways y = 1"
  using assms zero_totals
  by (auto simp: enable_always_def reset_counters_def counters_ok_def device_totals_def
      split: counter_memory.splits)

text \<open>
  The WMI block and the control code report the same counters whenever time went on since the
  device became idle; the WMI callback tests the frequency where the other tests the difference.
\<close>

theorem wmi_reports_the_same:
  assumes "valid_clock e" "0 <s se_query_clock e - sx_LastIdleClock x"
  shows "query_wmi e x = query_performance e x"
  using assms by (simp add: query_wmi_def query_performance_def valid_clock_def Let_def)

subsection \<open>The correction of the depth is not atomic\<close>

text \<open>
  Leaving the queue and the first query of the control code run as wholes in the step relation.
  In the code a query can come between the two interlocked steps of a completion.
\<close>

definition served_alone :: "sc_env \<Rightarrow> scsichk_extension \<Rightarrow> scsichk_extension" where
  "served_alone e x = leave_queue e (x\<lparr>sx_QueueDepth := sx_QueueDepth x + 1\<rparr>)"

lemma served_alone_depth:
  "sx_QueueDepth x = 1 \<Longrightarrow> sx_QueueDepth ((served_alone e ^^ n) x) = 1"
  by (induction n) (simp_all add: served_alone_def leave_queue_eq Let_def word_sless_alt)

lemma first_query_depth:
  assumes "counters_ok x" "sx_EnabledAlways x = 0"
  shows "\<exists>y. enable_always e x = Some y \<and> sx_QueueDepth y = 0"
  using reset_counters_ok [of "x\<lparr>sx_EnabledAlways := 1, sx_CountersEnabled := sx_CountersEnabled x + 1\<rparr>"] assms
  by (auto simp: enable_always_def)

lemma minus_one_negative: "(0 :: LONG) - 1 <s 0"
  by (simp add: word_sless_alt)

text \<open>
  C21: A completion leaves the queue in two interlocked steps: it decrements the depth, and
  puts back one when the result is negative. At depth zero (collection was started with the
  request in flight), the first performance query can store zero between the two: then the
  depth is one with the request gone, and every later request that is served alone leaves it
  at one, so the device never counts as idle again. Completion and query one after the other,
  in either order, leave the depth at zero.
\<close>

theorem queue_depth_race:
  assumes "counters_ok x" "sx_QueueDepth x = 0" "sx_EnabledAlways x = 0"
  shows "(\<exists>q x1 y q' z. depth_decrement x = (q, x1) \<and> enable_always e x1 = Some y \<and> depth_correct q y = (q', z) \<and>
       (\<forall>n. sx_QueueDepth ((served_alone e' ^^ n) (note_idle e' q' z)) = 1)) \<and>
     (\<exists>y. enable_always e (leave_queue e' x) = Some y \<and> sx_QueueDepth y = 0) \<and>
     (\<exists>y. enable_always e x = Some y \<and> sx_QueueDepth (leave_queue e' y) = 0)"
proof (intro conjI)
  have "counters_ok (x\<lparr>sx_QueueDepth := - 1\<rparr>)" "sx_EnabledAlways (x\<lparr>sx_QueueDepth := - 1\<rparr>) = 0"
    using assms by simp_all
  from first_query_depth [OF this] obtain y where
    y: "enable_always e (x\<lparr>sx_QueueDepth := - 1\<rparr>) = Some y" "sx_QueueDepth y = 0" by blast
  have "depth_decrement x = (- 1, x\<lparr>sx_QueueDepth := - 1\<rparr>)"
    using assms(2) by (simp add: depth_decrement_def Let_def)
  moreover have "depth_correct (- 1) y = (1, y\<lparr>sx_QueueDepth := 1\<rparr>)"
    using minus_one_negative y(2) by (simp add: depth_correct_def Let_def)
  moreover have "\<forall>n. sx_QueueDepth ((served_alone e' ^^ n) (note_idle e' 1 (y\<lparr>sx_QueueDepth := 1\<rparr>))) = 1"
    by (simp add: served_alone_depth note_idle_def)
  ultimately show "\<exists>q x1 y q' z. depth_decrement x = (q, x1) \<and> enable_always e x1 = Some y \<and>
      depth_correct q y = (q', z) \<and> (\<forall>n. sx_QueueDepth ((served_alone e' ^^ n) (note_idle e' q' z)) = 1)"
    using y(1) by blast
next
  have "counters_ok (leave_queue e' x)" "sx_EnabledAlways (leave_queue e' x) = 0"
    using assms by (simp_all add: leave_queue_eq Let_def)
  then show "\<exists>y. enable_always e (leave_queue e' x) = Some y \<and> sx_QueueDepth y = 0"
    by (rule first_query_depth)
next
  from first_query_depth [OF assms(1,3)] obtain y where "enable_always e x = Some y" "sx_QueueDepth y = 0" by blast
  moreover from this(2) have "sx_QueueDepth (leave_queue e' y) = 0"
    using minus_one_negative by (simp add: leave_queue_eq Let_def)
  ultimately show "\<exists>y. enable_always e x = Some y \<and> sx_QueueDepth (leave_queue e' y) = 0" by blast
qed

end
