(* ===== verification/ScsiChk_Device.thy ===== *)
theory ScsiChk_Device
  imports ScsiChk_Inv QC_Usage QC_Entry
begin

section \<open>The SCSI logger: loading, attaching, plug and play, removal\<close>

text \<open>
  The device-object side of \<open>src/scsichk/scsichk.c\<close>: \<open>DriverEntry\<close>, attaching to a device,
  registering it with WMI under a name, and the plug and play requests. At removal the chain of
  log records is written to the log file and freed.
\<close>

subsection \<open>The device object\<close>

record sc_device =
  sd_world :: sc_world
  sd_Flags :: ULONG
  sd_Characteristics :: ULONG
  sd_Attached :: bool
  sd_Deleted :: bool
  sd_ErrorLog :: "(ULONG \<times> NTSTATUS) list"
  sd_Registered :: bool

abbreviation sd_ext :: "sc_device \<Rightarrow> scsichk_extension" where
  "sd_ext D \<equiv> sw_ext (sd_world D)"

abbreviation (input) IO_ERR_INSUFFICIENT_RESOURCES :: NTSTATUS where "IO_ERR_INSUFFICIENT_RESOURCES \<equiv> 0xC0040002"
abbreviation (input) IO_ERR_CONFIGURATION_ERROR :: NTSTATUS where "IO_ERR_CONFIGURATION_ERROR \<equiv> 0xC0040003"
abbreviation (input) IO_ERR_INTERNAL_ERROR :: NTSTATUS where "IO_ERR_INTERNAL_ERROR \<equiv> 0xC004000C"

definition sd_upd :: "(scsichk_extension \<Rightarrow> scsichk_extension) \<Rightarrow> sc_device \<Rightarrow> sc_device" where
  [sc_simps]: "sd_upd f D = D\<lparr>sd_world := upd_ext f (sd_world D)\<rparr>"

text \<open>An entry in the system's error log: its unique value and the final status.\<close>

definition ScsiChkLogError :: "bool \<Rightarrow> ULONG \<Rightarrow> NTSTATUS \<Rightarrow> sc_device \<Rightarrow> sc_device" where
  "ScsiChkLogError allocated unique st D =
     (if allocated then D\<lparr>sd_ErrorLog := sd_ErrorLog D @ [(unique, st)]\<rparr> else D)"

subsection \<open>Loading\<close>

text \<open>
  The copy of the registry path: its maximal length is a 16-bit sum, and
  \<open>RtlCopyUnicodeString\<close> copies what fits. An odd byte at the end is not a character.
\<close>

definition registry_path_maximum :: "USHORT \<Rightarrow> USHORT" where
  "registry_path_maximum len = len + 2"

definition ScsiChkRegistryPath :: "bool \<Rightarrow> WCHAR list \<Rightarrow> WCHAR list option" where
  "ScsiChkRegistryPath allocated path =
     (if allocated
      then Some (take (unat (registry_path_maximum (of_nat (2 * length path))) div 2) path) else None)"

datatype sc_handler =
    ScCreate | ScReadWrite | ScDeviceControl | ScScsi | ScWmi | ScShutdownFlush | ScPnp | ScPower
  | ScSendToNextDriver

definition sc_dispatch_table :: "sc_handler list" where
  "sc_dispatch_table =
     (replicate (Suc IRP_MJ_MAXIMUM_FUNCTION) ScSendToNextDriver)
       [unat IRP_MJ_CREATE := ScCreate, unat IRP_MJ_READ := ScReadWrite, unat IRP_MJ_WRITE := ScReadWrite,
        unat IRP_MJ_DEVICE_CONTROL := ScDeviceControl, unat IRP_MJ_SCSI := ScScsi,
        unat IRP_MJ_SYSTEM_CONTROL := ScWmi, unat IRP_MJ_SHUTDOWN := ScShutdownFlush,
        unat IRP_MJ_FLUSH_BUFFERS := ScShutdownFlush, unat IRP_MJ_PNP := ScPnp, unat IRP_MJ_POWER := ScPower]"

definition run_sc_handler ::
  "wmi_library \<Rightarrow> sc_handler \<Rightarrow> sc_env \<times> sc_irp \<Rightarrow> sc_world \<Rightarrow> (NTSTATUS \<times> sc_world) option" where
  "run_sc_handler wl h q w =
     (case q of (e, i) \<Rightarrow>
        (case h of
           ScCreate \<Rightarrow> Some (ScsiChkCreate i w)
         | ScReadWrite \<Rightarrow> ScsiChkReadWrite e i w
         | ScDeviceControl \<Rightarrow> ScsiChkDeviceControl e i w
         | ScScsi \<Rightarrow> Some (ScsiChkScsi e i w)
         | ScWmi \<Rightarrow> ScsiChkWmi wl e i w
         | ScShutdownFlush \<Rightarrow> Some (ScsiChkShutdownFlush e i w)
         | ScPower \<Rightarrow> Some (ScsiChkDispatchPower e i w)
         | _ \<Rightarrow> Some (ScsiChkSendToNextDriver e i w)))"

subsection \<open>Attaching\<close>

definition ScsiChkSyncFilterWithTarget :: "ULONG \<Rightarrow> sc_device \<Rightarrow> sc_device" where
  "ScsiChkSyncFilterWithTarget target_characteristics D =
     D\<lparr>sd_Flags := sd_Flags D OR 0,
       sd_Characteristics := sd_Characteristics D OR
         (target_characteristics AND
           (FILE_REMOVABLE_MEDIA OR FILE_READ_ONLY_DEVICE OR FILE_FLOPPY_DISKETTE))\<rparr>"

record sc_attach_env =
  sa_create_status :: NTSTATUS
  sa_clock :: LONGLONG
  sa_processors :: ULONG
  sa_counters_alloc :: bool
  sa_error_alloc :: bool
  sa_attached :: bool

definition sc_new_extension :: "sc_attach_env \<Rightarrow> scsichk_extension" where
  "sc_new_extension a =
     \<lparr>sx_RemoveLock = 0, sx_DiskNumber = 0, sx_EnabledAlways = 0, sx_StorageManagerName = replicate 8 0,
      sx_Processors = sa_processors a,
      sx_DiskCounters = (if sa_counters_alloc a
                         then Counters (replicate (unat (sa_processors a)) zero_counters) else NoCounters),
      sx_LastIdleClock = sa_clock a, sx_QueueDepth = 0, sx_CountersEnabled = 0,
      sx_PagingPathCountEvent = True, sx_PagingPathCount = 0,
      sx_PhysicalDeviceNameBuffer = replicate 64 0, sx_PhysicalDeviceName = [], sx_GuidCount = 1,
      sx_LogData = []\<rparr>"

text \<open>
  When the attachment fails, \<open>ExFreePool\<close> gets the pointer to the counters, null or not; a null
  pointer is a fault.
\<close>

definition ScsiChkAddDevice :: "sc_attach_env \<Rightarrow> (NTSTATUS \<times> sc_device option) option" where
  "ScsiChkAddDevice a =
     (if \<not> NT_SUCCESS (sa_create_status a) then Some (sa_create_status a, None)
      else
        let w = \<lparr>sw_ext = sc_new_extension a, sw_Completed = [], sw_SentDown = [], sw_InFlight = []\<rparr>;
            D = \<lparr>sd_world = w, sd_Flags = DO_DEVICE_INITIALIZING OR DO_DIRECT_IO,
                 sd_Characteristics = FILE_DEVICE_SECURE_OPEN, sd_Attached = False, sd_Deleted = False,
                 sd_ErrorLog = [], sd_Registered = False\<rparr>;
            D1 = (if sa_counters_alloc a then D
                  else ScsiChkLogError (sa_error_alloc a) 513 IO_ERR_INSUFFICIENT_RESOURCES D)
        in if \<not> sa_attached a
           then if sa_counters_alloc a
                then Some (STATUS_NO_SUCH_DEVICE,
                       Some (sd_upd (\<lambda>x. x\<lparr>sx_DiskCounters := NoCounters\<rparr>) (D1\<lparr>sd_Deleted := True\<rparr>)))
                else None
           else Some (STATUS_SUCCESS,
                  Some (D1\<lparr>sd_Attached := True,
                           sd_Flags := clear_flag (set_flag (sd_Flags D1) DO_POWER_PAGABLE) DO_DEVICE_INITIALIZING\<rparr>)))"

subsection \<open>Names\<close>

definition backslash :: char where "backslash = CHR 0x5C"

definition wide :: "string \<Rightarrow> WCHAR list" where
  "wide s = map of_char s"

fun decimal :: "nat \<Rightarrow> WCHAR list" where
  "decimal n = (if n < 10 then [0x30 + of_nat n] else decimal (n div 10) @ [0x30 + of_nat (n mod 10)])"

declare decimal.simps [simp del]

text \<open>\<open>%d\<close>\<close>

definition signed_decimal :: "LONG \<Rightarrow> WCHAR list" where
  "signed_decimal v = (if v <s 0 then 0x2D # decimal (nat (- sint v)) else decimal (nat (sint v)))"

definition disk_name :: "ULONG \<Rightarrow> ULONG \<Rightarrow> WCHAR list" where
  "disk_name disk part =
     wide (backslash # ''Device'' @ backslash # ''Harddisk'') @ signed_decimal disk @ wide (backslash # ''Partition'') @ signed_decimal part"

text \<open>Storing a terminated string at the start of a buffer: what is behind it stays.\<close>

definition store_string :: "WCHAR list \<Rightarrow> WCHAR list \<Rightarrow> WCHAR list" where
  "store_string s buf = s @ 0 # drop (length s + 1) buf"

text \<open>
  \<open>RtlStringCbPrintfW\<close> cuts the text at the size of the buffer. \<open>RtlStringCbCopyW\<close> gets the
  size of the destination in bytes, terminator included; it reads the source up to a terminator
  or that many characters. A size below one character is an error that changes nothing.
\<close>

definition RtlStringCbPrintfW :: "WCHAR list \<Rightarrow> WCHAR list \<Rightarrow> WCHAR list" where
  "RtlStringCbPrintfW buf text = store_string (take (length buf - 1) text) buf"

definition RtlStringCbCopyW :: "WCHAR list \<Rightarrow> nat \<Rightarrow> WCHAR list \<Rightarrow> WCHAR list option" where
  "RtlStringCbCopyW dst bytes src =
     (let n = bytes div 2; s = takeWhile (\<lambda>c. c \<noteq> 0) (take n src) in
      if n = 0 then Some dst
      else if length s = n then Some (store_string (take (n - 1) s) dst)
      else if length s < length src then Some (store_string s dst)
      else None)"

definition RtlInitUnicodeString :: "WCHAR list \<Rightarrow> WCHAR list" where
  "RtlInitUnicodeString buf = takeWhile (\<lambda>c. c \<noteq> 0) buf"

definition set_name :: "WCHAR list \<Rightarrow> scsichk_extension \<Rightarrow> scsichk_extension" where
  "set_name buf x = x\<lparr>sx_PhysicalDeviceNameBuffer := buf, sx_PhysicalDeviceName := RtlInitUnicodeString buf\<rparr>"

subsection \<open>Registration\<close>

text \<open>
  The requests of \<open>ScsiChkRegisterDevice\<close> and their answers: whether the request could be
  built, its final status (waiting for a pending one included), and the output. A volume answers
  the query of its name with a length and characters; the first query has room for one.
\<close>

record name_answer =
  na_irp :: bool
  na_status :: NTSTATUS
  na_NameLength :: USHORT
  na_Name :: "WCHAR list"

record register_env =
  rg_error_alloc :: bool
  rg_number_irp :: bool
  rg_number_status :: NTSTATUS
  rg_DeviceNumber :: ULONG
  rg_PartitionNumber :: ULONG
  rg_first_alloc :: bool
  rg_first :: name_answer
  rg_second_alloc :: bool
  rg_second :: name_answer
  rg_volume_irp :: bool
  rg_volume_status :: NTSTATUS
  rg_VolumeNumber :: ULONG
  rg_VolumeManagerName :: "WCHAR list"
  rg_wmi_status :: NTSTATUS

definition register_failed ::
  "register_env \<Rightarrow> ULONG \<Rightarrow> NTSTATUS \<Rightarrow> NTSTATUS \<Rightarrow> sc_device \<Rightarrow> NTSTATUS \<times> sc_device" where
  "register_failed g unique final st D = (st, ScsiChkLogError (rg_error_alloc g) unique final D)"

text \<open>The last part: registration with WMI.\<close>

definition register_wmi :: "register_env \<Rightarrow> sc_device \<Rightarrow> NTSTATUS \<times> sc_device" where
  "register_wmi g D =
     (if NT_SUCCESS (rg_wmi_status g) then (rg_wmi_status g, D\<lparr>sd_Registered := True\<rparr>)
      else register_failed g 261 IO_ERR_INTERNAL_ERROR (rg_wmi_status g) D)"

text \<open>The size given to the copy of the volume name.\<close>

definition volume_name_size :: "USHORT \<Rightarrow> nat" where
  "volume_name_size len = min (unat len) (128 - 2)"

definition register_volume_number :: "register_env \<Rightarrow> sc_device \<Rightarrow> NTSTATUS \<times> sc_device" where
  "register_volume_number g D =
     (if \<not> rg_volume_irp g
      then register_failed g 265 IO_ERR_INSUFFICIENT_RESOURCES STATUS_INSUFFICIENT_RESOURCES D
      else
        let st = rg_volume_status g;
            manager = (if NT_SUCCESS st then rg_VolumeManagerName g else replicate 8 0);
            D1 = (if \<not> NT_SUCCESS st \<or> manager ! 0 = 0
                  then sd_upd (\<lambda>x. x\<lparr>sx_StorageManagerName := wide ''LogiDisk''\<rparr>) D
                  else sd_upd (\<lambda>x. x\<lparr>sx_StorageManagerName := take 8 manager\<rparr>) D);
            D2 = (if NT_SUCCESS st then sd_upd (\<lambda>x. x\<lparr>sx_DiskNumber := rg_VolumeNumber g\<rparr>) D1 else D1)
        in register_wmi g D2)"

definition register_volume :: "register_env \<Rightarrow> name_answer \<Rightarrow> sc_device \<Rightarrow> (NTSTATUS \<times> sc_device) option" where
  "register_volume g a D =
     (if \<not> NT_SUCCESS (na_status a)
      then Some (register_failed g 260 IO_ERR_CONFIGURATION_ERROR (na_status a) D)
      else do {
        let D1 = sd_upd (\<lambda>x. x\<lparr>sx_DiskNumber := 0xFFFFFFFF\<rparr>) D;
        buf \<leftarrow> RtlStringCbCopyW (sx_PhysicalDeviceNameBuffer (sd_ext D1))
                 (volume_name_size (na_NameLength a)) (na_Name a);
        Some (register_volume_number g (sd_upd (set_name buf) D1))
      })"

definition ScsiChkRegisterDevice :: "register_env \<Rightarrow> sc_device \<Rightarrow> (NTSTATUS \<times> sc_device) option" where
  "ScsiChkRegisterDevice g D =
     (let no_memory = (\<lambda>unique. Some (register_failed g unique IO_ERR_INSUFFICIENT_RESOURCES
                                        STATUS_INSUFFICIENT_RESOURCES D)) in
      if \<not> rg_number_irp g then no_memory 256
      else if NT_SUCCESS (rg_number_status g)
      then let buf = RtlStringCbPrintfW (sx_PhysicalDeviceNameBuffer (sd_ext D))
                       (disk_name (rg_DeviceNumber g) (rg_PartitionNumber g));
               D1 = sd_upd (\<lambda>x. set_name buf (x\<lparr>sx_DiskNumber := rg_DeviceNumber g,
                                                sx_StorageManagerName := wide ''PhysDisk''\<rparr>)) D
           in Some (register_wmi g D1)
      else if \<not> rg_first_alloc g then no_memory 257
      else if \<not> na_irp (rg_first g) then no_memory 258
      else if na_status (rg_first g) = STATUS_BUFFER_OVERFLOW
      then if \<not> rg_second_alloc g then no_memory 258
           else if \<not> na_irp (rg_second g) then no_memory 259
           else register_volume g (rg_second g) D
      else register_volume g (rg_first g) D)"

subsection \<open>Synchronous requests and start\<close>

record sc_pnp_env =
  sp_env :: sc_env
  sp_target_Characteristics :: ULONG
  sp_forward_status :: NTSTATUS
  sp_final_status :: NTSTATUS
  sp_register :: register_env

text \<open>What the lower driver returned, or the status it stored when it was pending.\<close>

definition ScsiChkForwardIrpSynchronous :: "sc_pnp_env \<Rightarrow> sc_irp \<Rightarrow> NTSTATUS \<times> sc_irp" where
  "ScsiChkForwardIrpSynchronous p i =
     (let i' = sc_status (sp_final_status p) i
      in (if sp_forward_status p = STATUS_PENDING then sp_final_status p else sp_forward_status p, i'))"

definition sd_complete :: "sc_irp \<Rightarrow> sc_device \<Rightarrow> sc_device" where
  [sc_simps]: "sd_complete i D = D\<lparr>sd_world := sc_complete i (sd_world D)\<rparr>"

definition ScsiChkStartDevice :: "sc_pnp_env \<Rightarrow> sc_irp \<Rightarrow> sc_device \<Rightarrow> (NTSTATUS \<times> sc_device) option" where
  "ScsiChkStartDevice p i D = do {
     let (status, i1) = ScsiChkForwardIrpSynchronous p i;
     let D1 = ScsiChkSyncFilterWithTarget (sp_target_Characteristics p) D;
     (_, D2) \<leftarrow> ScsiChkRegisterDevice (sp_register p) D1;
     Some (status, sd_complete (sc_status status i1) D2)
   }"

subsection \<open>Removal\<close>

text \<open>
  Opening, writing and closing the log file. The first failed write ends the writing and
  forgets the handle; every record is freed. The length of a write is a 32-bit sum.
\<close>

record log_file_env =
  lf_create :: NTSTATUS
  lf_write :: "nat \<Rightarrow> NTSTATUS"

record log_file =
  fl_Contents :: "byte list"
  fl_Open :: bool

fun drain_log ::
  "(nat \<Rightarrow> NTSTATUS) \<Rightarrow> nat \<Rightarrow> bool \<Rightarrow> (ULONG_PTR \<times> LOGDATA) list \<Rightarrow> byte list \<Rightarrow> bool \<times> byte list" where
  "drain_log wr n ok [] f = (ok, f)"
| "drain_log wr n ok ((a, d) # ls) f =
     (if ok
      then if NT_SUCCESS (wr n)
           then drain_log wr (Suc n) True ls
                  (f @ take (unat (of_nat offset_Data + ld_DataLength d)) (log_bytes d))
           else drain_log wr (Suc n) False ls f
      else drain_log wr n False ls f)"

text \<open>
  What is left of the file: none when it could not be opened; open for ever when a write failed.
\<close>

definition write_log_file :: "log_file_env \<Rightarrow> (ULONG_PTR \<times> LOGDATA) list \<Rightarrow> log_file option" where
  "write_log_file lf ls =
     (if NT_SUCCESS (lf_create lf)
      then case drain_log (lf_write lf) 0 True ls [] of
             (ok, f) \<Rightarrow> Some \<lparr>fl_Contents = f, fl_Open = \<not> ok\<rparr>
      else None)"

text \<open>Up to the wait for the remove lock: log, registration, counters.\<close>

definition begin_removal :: "sc_device \<Rightarrow> sc_device" where
  "begin_removal D =
     sd_upd (\<lambda>x. x\<lparr>sx_LogData := [], sx_GuidCount := 0,
                  sx_DiskCounters := (case sx_DiskCounters x of NoCounters \<Rightarrow> NoCounters | _ \<Rightarrow> FreedCounters)\<rparr>)
       (D\<lparr>sd_Registered := False\<rparr>)"

text \<open>
  The lower driver may complete requests that are in flight while the removal waits
  (\<open>late\<close>). The wait ends when only the removal itself holds the lock, otherwise never: \<open>None\<close>.
\<close>

fun answer_all ::
  "(sc_env \<times> sc_irp \<times> IO_STATUS_BLOCK \<times> srb_values) list \<Rightarrow> sc_world \<Rightarrow> sc_world option" where
  "answer_all [] w = Some w"
| "answer_all ((e, i, b, s) # as) w = do { w' \<leftarrow> sc_answer e i b s w; answer_all as w' }"

definition sc_release_and_wait :: "sc_world \<Rightarrow> sc_world option" where
  "sc_release_and_wait w =
     (if sx_RemoveLock (sw_ext w) = 1 then Some (upd_ext (\<lambda>x. x\<lparr>sx_RemoveLock := 0\<rparr>) w) else None)"

definition ScsiChkRemoveDevice ::
  "sc_pnp_env \<Rightarrow> log_file_env \<Rightarrow> (sc_env \<times> sc_irp \<times> IO_STATUS_BLOCK \<times> srb_values) list \<Rightarrow> sc_irp \<Rightarrow>
     sc_device \<Rightarrow> (NTSTATUS \<times> log_file option \<times> sc_device) option" where
  "ScsiChkRemoveDevice p lf late i D = do {
     let file = write_log_file lf (sx_LogData (sd_ext D));
     let D1 = begin_removal D;
     w2 \<leftarrow> answer_all late (sd_world D1);
     w3 \<leftarrow> sc_release_and_wait w2;
     let (status, w4) = ScsiChkSendToNextDriver (sp_env p) i w3;
     Some (status, file, D1\<lparr>sd_world := w4, sd_Attached := False, sd_Deleted := True\<rparr>)
   }"

subsection \<open>Usage notifications\<close>

text \<open>
  The part before the request is forwarded and the part after it. Waiting does not reset the
  event: it is a notification event that is set from the start.
\<close>

definition usage_before :: "bool \<Rightarrow> sc_device \<Rightarrow> (bool \<times> sc_device) option" where
  "usage_before in_path D =
     (if \<not> sx_PagingPathCountEvent (sd_ext D) then None
      else
        let set_pagable = (\<not> in_path \<and> sx_PagingPathCount (sd_ext D) = 1 \<and>
                           \<not> has_flag (sd_Flags D) DO_POWER_INRUSH)
        in Some (set_pagable,
                 if set_pagable then D\<lparr>sd_Flags := set_flag (sd_Flags D) DO_POWER_PAGABLE\<rparr> else D))"

definition usage_after :: "bool \<Rightarrow> bool \<Rightarrow> NTSTATUS \<Rightarrow> sc_device \<Rightarrow> sc_device" where
  "usage_after in_path set_pagable status D =
     (let D1 = (if NT_SUCCESS status
                then
                  let E = sd_upd (\<lambda>x. x\<lparr>sx_PagingPathCount :=
                            (if in_path then sx_PagingPathCount x + 1 else sx_PagingPathCount x - 1)\<rparr>) D
                  in if in_path \<and> sx_PagingPathCount (sd_ext E) = 1
                     then E\<lparr>sd_Flags := clear_flag (sd_Flags E) DO_POWER_PAGABLE\<rparr> else E
                else if set_pagable then D\<lparr>sd_Flags := clear_flag (sd_Flags D) DO_POWER_PAGABLE\<rparr> else D)
      in sd_upd (\<lambda>x. x\<lparr>sx_PagingPathCountEvent := True\<rparr>) D1)"

definition usage_notification_request :: "sc_pnp_env \<Rightarrow> bool \<Rightarrow> sc_irp \<Rightarrow> sc_device \<Rightarrow> (NTSTATUS \<times> sc_device) option" where
  "usage_notification_request p in_path i D = do {
     (set_pagable, D1) \<leftarrow> usage_before in_path D;
     let (status, i1) = ScsiChkForwardIrpSynchronous p i;
     Some (status, sd_complete i1 (usage_after in_path set_pagable status D1))
   }"

subsection \<open>Plug and play\<close>

definition sd_on :: "NTSTATUS \<times> sc_world \<Rightarrow> sc_device \<Rightarrow> NTSTATUS \<times> sc_device" where
  [sc_simps]: "sd_on r D = (fst r, D\<lparr>sd_world := snd r\<rparr>)"

definition ScsiChkDispatchPnp ::
  "sc_pnp_env \<Rightarrow> log_file_env \<Rightarrow> (sc_env \<times> sc_irp \<times> IO_STATUS_BLOCK \<times> srb_values) list \<Rightarrow> usage_type \<Rightarrow> bool \<Rightarrow>
     sc_irp \<Rightarrow> sc_device \<Rightarrow> (NTSTATUS \<times> sc_device) option" where
  "ScsiChkDispatchPnp p lf late usage in_path i D =
     (let (status, w) = sc_acquire (sp_env p) (sd_world D);
          D1 = D\<lparr>sd_world := w\<rparr>;
          release = (\<lambda>(st, E). (st, E\<lparr>sd_world := sc_release (sd_world E)\<rparr>));
          send = Some (release (sd_on (ScsiChkSendToNextDriver (sp_env p) i w) D1))
      in if \<not> NT_SUCCESS status then Some (status, sd_complete (sc_status status i) D)
         else if si_MinorFunction i = IRP_MN_START_DEVICE then map_option release (ScsiChkStartDevice p i D1)
         else if si_MinorFunction i = IRP_MN_REMOVE_DEVICE
         then map_option (\<lambda>(st, _, E). (st, E)) (ScsiChkRemoveDevice p lf late i D1)
         else if si_MinorFunction i = IRP_MN_DEVICE_USAGE_NOTIFICATION
         then if usage = DeviceUsageTypePaging
              then map_option release (usage_notification_request p in_path i D1) else send
         else send)"

end
