(* ===== verification/ScsiLog_Text.thy ===== *)
theory ScsiLog_Text
  imports QC_Prelude
begin

section \<open>The texts of the log reader\<close>

text \<open>
  \<open>src/scsilog/debug.cpp\<close>: the five functions that name operation codes, SRB status values
  and sense codes. Every switch is the list of its cases in source order, a code with the text
  the macro \<open>MAKE_CASE\<close> makes of its name; the values are those of \<open>scsi.h\<close> and \<open>srb.h\<close>.
\<close>

named_theorems text_tables \<open>the tables of texts\<close>

type_synonym text_table = "(UCHAR \<times> string) list"

definition switch :: "text_table \<Rightarrow> UCHAR \<Rightarrow> string" where
  "switch cases code = (case map_of cases code of None \<Rightarrow> ''?'' | Some s \<Rightarrow> s)"

subsection \<open>Operation codes\<close>

definition scsi_op_cases :: text_table where
  [text_tables]: "scsi_op_cases =
    [(0x00, ''SCSIOP_TEST_UNIT_READY''), (0x01, ''SCSIOP_REWIND''),
     (0x02, ''SCSIOP_REQUEST_BLOCK_ADDR''), (0x03, ''SCSIOP_REQUEST_SENSE''),
     (0x04, ''SCSIOP_FORMAT_UNIT''), (0x05, ''SCSIOP_READ_BLOCK_LIMITS''),
     (0x07, ''SCSIOP_INIT_ELEMENT_STATUS''), (0x08, ''SCSIOP_RECEIVE''),
     (0x0A, ''SCSIOP_SEND''), (0x0B, ''SCSIOP_SLEW_PRINT''), (0x0C, ''SCSIOP_SEEK_BLOCK''),
     (0x0D, ''SCSIOP_PARTITION''), (0x0F, ''SCSIOP_READ_REVERSE''),
     (0x10, ''SCSIOP_FLUSH_BUFFER''), (0x11, ''SCSIOP_SPACE''), (0x12, ''SCSIOP_INQUIRY''),
     (0x13, ''SCSIOP_VERIFY6''), (0x14, ''SCSIOP_RECOVER_BUF_DATA''),
     (0x15, ''SCSIOP_MODE_SELECT''), (0x16, ''SCSIOP_RESERVE_UNIT''),
     (0x17, ''SCSIOP_RELEASE_UNIT''), (0x18, ''SCSIOP_COPY''), (0x19, ''SCSIOP_ERASE''),
     (0x1A, ''SCSIOP_MODE_SENSE''), (0x1B, ''SCSIOP_START_STOP_UNIT''),
     (0x1C, ''SCSIOP_RECEIVE_DIAGNOSTIC''), (0x1D, ''SCSIOP_SEND_DIAGNOSTIC''),
     (0x1E, ''SCSIOP_MEDIUM_REMOVAL''), (0x23, ''SCSIOP_READ_FORMATTED_CAPACITY''),
     (0x25, ''SCSIOP_READ_CAPACITY''), (0x28, ''SCSIOP_READ''), (0x2A, ''SCSIOP_WRITE''),
     (0x2B, ''SCSIOP_SEEK''), (0x2E, ''SCSIOP_WRITE_VERIFY''), (0x2F, ''SCSIOP_VERIFY''),
     (0x30, ''SCSIOP_SEARCH_DATA_HIGH''), (0x31, ''SCSIOP_SEARCH_DATA_EQUAL''),
     (0x32, ''SCSIOP_SEARCH_DATA_LOW''), (0x33, ''SCSIOP_SET_LIMITS''),
     (0x34, ''SCSIOP_READ_POSITION''), (0x35, ''SCSIOP_SYNCHRONIZE_CACHE''),
     (0x39, ''SCSIOP_COMPARE''), (0x3A, ''SCSIOP_COPY_COMPARE''),
     (0x3B, ''SCSIOP_WRITE_DATA_BUFF''), (0x3C, ''SCSIOP_READ_DATA_BUFF''),
     (0x40, ''SCSIOP_CHANGE_DEFINITION''), (0x42, ''SCSIOP_READ_SUB_CHANNEL''),
     (0x43, ''SCSIOP_READ_TOC''), (0x44, ''SCSIOP_READ_HEADER''), (0x45, ''SCSIOP_PLAY_AUDIO''),
     (0x46, ''SCSIOP_GET_CONFIGURATION''), (0x47, ''SCSIOP_PLAY_AUDIO_MSF''),
     (0x48, ''SCSIOP_PLAY_TRACK_INDEX''), (0x49, ''SCSIOP_PLAY_TRACK_RELATIVE''),
     (0x4A, ''SCSIOP_GET_EVENT_STATUS''), (0x4B, ''SCSIOP_PAUSE_RESUME''),
     (0x4C, ''SCSIOP_LOG_SELECT''), (0x4D, ''SCSIOP_LOG_SENSE''),
     (0x4E, ''SCSIOP_STOP_PLAY_SCAN''), (0x51, ''SCSIOP_READ_DISK_INFORMATION''),
     (0x52, ''SCSIOP_READ_TRACK_INFORMATION''), (0x53, ''SCSIOP_RESERVE_TRACK_RZONE''),
     (0x54, ''SCSIOP_SEND_OPC_INFORMATION''), (0x55, ''SCSIOP_MODE_SELECT10''),
     (0x5A, ''SCSIOP_MODE_SENSE10''), (0x5B, ''SCSIOP_CLOSE_TRACK_SESSION''),
     (0x5C, ''SCSIOP_READ_BUFFER_CAPACITY''), (0x5D, ''SCSIOP_SEND_CUE_SHEET''),
     (0x5E, ''SCSIOP_PERSISTENT_RESERVE_IN''), (0x5F, ''SCSIOP_PERSISTENT_RESERVE_OUT''),
     (0xA0, ''SCSIOP_REPORT_LUNS''), (0xA1, ''SCSIOP_BLANK''), (0xA3, ''SCSIOP_SEND_KEY''),
     (0xA4, ''SCSIOP_REPORT_KEY''), (0xA5, ''SCSIOP_MOVE_MEDIUM''),
     (0xA6, ''SCSIOP_LOAD_UNLOAD_SLOT''), (0xA7, ''SCSIOP_SET_READ_AHEAD''),
     (0xAD, ''SCSIOP_READ_DVD_STRUCTURE''), (0xB5, ''SCSIOP_REQUEST_VOL_ELEMENT''),
     (0xB6, ''SCSIOP_SEND_VOLUME_TAG''), (0xB8, ''SCSIOP_READ_ELEMENT_STATUS''),
     (0xB9, ''SCSIOP_READ_CD_MSF''), (0xBA, ''SCSIOP_SCAN_CD''),
     (0xBB, ''SCSIOP_SET_CD_SPEED''), (0xBC, ''SCSIOP_PLAY_CD''),
     (0xBD, ''SCSIOP_MECHANISM_STATUS''), (0xBE, ''SCSIOP_READ_CD''),
     (0xBF, ''SCSIOP_SEND_DVD_STRUCTURE''), (0xE7, ''SCSIOP_INIT_ELEMENT_RANGE''),
     (0xAC, ''SCSIOP_GET_PERFORMANCE'')]"

definition DbgGetScsiOpStr :: "byte list \<Rightarrow> string" where
  "DbgGetScsiOpStr cdb = switch scsi_op_cases (cdb ! 0)"

subsection \<open>SRB status\<close>

definition SRB_STATUS_QUEUE_FROZEN :: UCHAR where "SRB_STATUS_QUEUE_FROZEN = 0x40"
definition SRB_STATUS_AUTOSENSE_VALID :: UCHAR where "SRB_STATUS_AUTOSENSE_VALID = 0x80"

text \<open>Here \<open>MAKE_CASE\<close> makes four cases of a name.\<close>

definition srb_status_names :: text_table where
  [text_tables]: "srb_status_names =
    [(0x00, ''SRB_STATUS_PENDING''), (0x01, ''SRB_STATUS_SUCCESS''),
     (0x02, ''SRB_STATUS_ABORTED''), (0x03, ''SRB_STATUS_ABORT_FAILED''),
     (0x04, ''SRB_STATUS_ERROR''), (0x05, ''SRB_STATUS_BUSY''),
     (0x06, ''SRB_STATUS_INVALID_REQUEST''), (0x07, ''SRB_STATUS_INVALID_PATH_ID''),
     (0x08, ''SRB_STATUS_NO_DEVICE''), (0x09, ''SRB_STATUS_TIMEOUT''),
     (0x0A, ''SRB_STATUS_SELECTION_TIMEOUT''), (0x0B, ''SRB_STATUS_COMMAND_TIMEOUT''),
     (0x0D, ''SRB_STATUS_MESSAGE_REJECTED''), (0x0E, ''SRB_STATUS_BUS_RESET''),
     (0x0F, ''SRB_STATUS_PARITY_ERROR''), (0x10, ''SRB_STATUS_REQUEST_SENSE_FAILED''),
     (0x11, ''SRB_STATUS_NO_HBA''), (0x12, ''SRB_STATUS_DATA_OVERRUN''),
     (0x13, ''SRB_STATUS_UNEXPECTED_BUS_FREE''), (0x14, ''SRB_STATUS_PHASE_SEQUENCE_FAILURE''),
     (0x15, ''SRB_STATUS_BAD_SRB_BLOCK_LENGTH''), (0x16, ''SRB_STATUS_REQUEST_FLUSHED''),
     (0x20, ''SRB_STATUS_INVALID_LUN''), (0x21, ''SRB_STATUS_INVALID_TARGET_ID''),
     (0x22, ''SRB_STATUS_BAD_FUNCTION''), (0x23, ''SRB_STATUS_ERROR_RECOVERY''),
     (0x24, ''SRB_STATUS_NOT_POWERED''), (0x30, ''SRB_STATUS_INTERNAL_ERROR'')]"

fun make_cases :: "UCHAR \<times> string \<Rightarrow> text_table" where
  "make_cases (c, s) =
     [(c, s),
      (c OR SRB_STATUS_QUEUE_FROZEN, s @ ''|SRB_STATUS_QUEUE_FROZEN''),
      (c OR SRB_STATUS_AUTOSENSE_VALID, s @ ''|SRB_STATUS_AUTOSENSE_VALID''),
      (c OR SRB_STATUS_QUEUE_FROZEN OR SRB_STATUS_AUTOSENSE_VALID,
       s @ ''|SRB_STATUS_QUEUE_FROZEN|SRB_STATUS_AUTOSENSE_VALID'')]"

definition DbgGetSrbStatusStr :: "UCHAR \<Rightarrow> string" where
  "DbgGetSrbStatusStr s = switch (concat (map make_cases srb_status_names)) s"

subsection \<open>Sense codes\<close>

definition sense_key_cases :: text_table where
  [text_tables]: "sense_key_cases =
    [(0x00, ''SCSI_SENSE_NO_SENSE''), (0x01, ''SCSI_SENSE_RECOVERED_ERROR''),
     (0x02, ''SCSI_SENSE_NOT_READY''), (0x03, ''SCSI_SENSE_MEDIUM_ERROR''),
     (0x04, ''SCSI_SENSE_HARDWARE_ERROR''), (0x05, ''SCSI_SENSE_ILLEGAL_REQUEST''),
     (0x06, ''SCSI_SENSE_UNIT_ATTENTION''), (0x07, ''SCSI_SENSE_DATA_PROTECT''),
     (0x08, ''SCSI_SENSE_BLANK_CHECK''), (0x09, ''SCSI_SENSE_UNIQUE''),
     (0x0A, ''SCSI_SENSE_COPY_ABORTED''), (0x0B, ''SCSI_SENSE_ABORTED_COMMAND''),
     (0x0C, ''SCSI_SENSE_EQUAL''), (0x0D, ''SCSI_SENSE_VOL_OVERFLOW''),
     (0x0E, ''SCSI_SENSE_MISCOMPARE''), (0x0F, ''SCSI_SENSE_RESERVED'')]"

definition adsense_cases :: text_table where
  [text_tables]: "adsense_cases =
    [(0x00, ''SCSI_ADSENSE_NO_SENSE''), (0x04, ''SCSI_ADSENSE_LUN_NOT_READY''),
     (0x14, ''SCSI_ADSENSE_TRACK_ERROR''), (0x15, ''SCSI_ADSENSE_SEEK_ERROR''),
     (0x17, ''SCSI_ADSENSE_REC_DATA_NOECC''), (0x18, ''SCSI_ADSENSE_REC_DATA_ECC''),
     (0x20, ''SCSI_ADSENSE_ILLEGAL_COMMAND''), (0x21, ''SCSI_ADSENSE_ILLEGAL_BLOCK''),
     (0x24, ''SCSI_ADSENSE_INVALID_CDB''), (0x25, ''SCSI_ADSENSE_INVALID_LUN''),
     (0x27, ''SCSI_ADSENSE_WRITE_PROTECT''), (0x28, ''SCSI_ADSENSE_MEDIUM_CHANGED''),
     (0x29, ''SCSI_ADSENSE_BUS_RESET''), (0x30, ''SCSI_ADSENSE_INVALID_MEDIA''),
     (0x3A, ''SCSI_ADSENSE_NO_MEDIA_IN_DEVICE''), (0x3B, ''SCSI_ADSENSE_POSITION_ERROR''),
     (0x5A, ''SCSI_ADSENSE_OPERATOR_REQUEST''),
     (0x5D, ''SCSI_ADSENSE_FAILURE_PREDICTION_THRESHOLD_EXCEEDED''),
     (0x6F, ''SCSI_ADSENSE_COPY_PROTECTION_FAILURE''), (0x80, ''SCSI_ADSENSE_VENDOR_UNIQUE''),
     (0xA0, ''SCSI_ADSENSE_MUSIC_AREA''), (0xA1, ''SCSI_ADSENSE_DATA_AREA''),
     (0xA7, ''SCSI_ADSENSE_VOLUME_OVERFLOW'')]"

definition senseq_cases :: "(UCHAR \<times> text_table) list" where
  [text_tables]: "senseq_cases =
    [(0x04,
      [(0x00, ''SCSI_SENSEQ_CAUSE_NOT_REPORTABLE''), (0x01, ''SCSI_SENSEQ_BECOMING_READY''),
       (0x02, ''SCSI_SENSEQ_INIT_COMMAND_REQUIRED''),
       (0x03, ''SCSI_SENSEQ_MANUAL_INTERVENTION_REQUIRED''),
       (0x04, ''SCSI_SENSEQ_FORMAT_IN_PROGRESS''), (0x05, ''SCSI_SENSEQ_REBUILD_IN_PROGRESS''),
       (0x06, ''SCSI_SENSEQ_RECALCULATION_IN_PROGRESS''),
       (0x07, ''SCSI_SENSEQ_OPERATION_IN_PROGRESS''),
       (0x08, ''SCSI_SENSEQ_LONG_WRITE_IN_PROGRESS'')]),
     (0x00,
      [(0x01, ''SCSI_SENSEQ_FILEMARK_DETECTED''), (0x02, ''SCSI_SENSEQ_END_OF_MEDIA_DETECTED''),
       (0x03, ''SCSI_SENSEQ_SETMARK_DETECTED''),
       (0x04, ''SCSI_SENSEQ_BEGINNING_OF_MEDIA_DETECTED'')]),
     (0x21,
      [(0x01, ''SCSI_SENSEQ_ILLEGAL_ELEMENT_ADDR'')]),
     (0x3B,
      [(0x0D, ''SCSI_SENSEQ_DESTINATION_FULL''), (0x0E, ''SCSI_SENSEQ_SOURCE_EMPTY'')]),
     (0x30,
      [(0x00, ''SCSI_SENSEQ_INCOMPATIBLE_MEDIA_INSTALLED''),
       (0x01, ''SCSI_SENSEQ_UNKNOWN_FORMAT''), (0x02, ''SCSI_SENSEQ_INCOMPATIBLE_FORMAT''),
       (0x03, ''SCSI_SENSEQ_CLEANING_CARTRIDGE_INSTALLED'')]),
     (0x5A,
      [(0x00, ''SCSI_SENSEQ_STATE_CHANGE_INPUT''), (0x01, ''SCSI_SENSEQ_MEDIUM_REMOVAL''),
       (0x02, ''SCSI_SENSEQ_WRITE_PROTECT_ENABLE''),
       (0x03, ''SCSI_SENSEQ_WRITE_PROTECT_DISABLE'')]),
     (0x6F,
      [(0x00, ''SCSI_SENSEQ_AUTHENTICATION_FAILURE''), (0x01, ''SCSI_SENSEQ_KEY_NOT_PRESENT''),
       (0x02, ''SCSI_SENSEQ_KEY_NOT_ESTABLISHED''),
       (0x03, ''SCSI_SENSEQ_READ_OF_SCRAMBLED_SECTOR_WITHOUT_AUTHENTICATION''),
       (0x04, ''SCSI_SENSEQ_MEDIA_CODE_MISMATCHED_TO_LOGICAL_UNIT''),
       (0x05, ''SCSI_SENSEQ_LOGICAL_UNIT_RESET_COUNT_ERROR'')])]"

text \<open>The fields of the packed structure: the key is the low half of its byte.\<close>

definition sd_SenseKey :: "byte list \<Rightarrow> UCHAR" where "sd_SenseKey d = d ! 2 AND 0x0F"
definition sd_AdditionalSenseCode :: "byte list \<Rightarrow> UCHAR" where "sd_AdditionalSenseCode d = d ! 12"
definition sd_AdditionalSenseCodeQualifier :: "byte list \<Rightarrow> UCHAR" where
  "sd_AdditionalSenseCodeQualifier d = d ! 13"

definition DbgGetSenseCodeStr :: "UCHAR \<Rightarrow> byte list \<Rightarrow> string" where
  "DbgGetSenseCodeStr st d =
     (if st AND SRB_STATUS_AUTOSENSE_VALID \<noteq> 0
      then switch sense_key_cases (sd_SenseKey d AND 0x0F) else ''?'')"

definition DbgGetAdditionalSenseCodeStr :: "UCHAR \<Rightarrow> byte list \<Rightarrow> string" where
  "DbgGetAdditionalSenseCodeStr st d =
     (if st AND SRB_STATUS_AUTOSENSE_VALID \<noteq> 0
      then switch adsense_cases (sd_AdditionalSenseCode d) else ''?'')"

definition DbgGetAdditionalSenseCodeQualifierStr :: "UCHAR \<Rightarrow> byte list \<Rightarrow> string" where
  "DbgGetAdditionalSenseCodeQualifierStr st d =
     (if st AND SRB_STATUS_AUTOSENSE_VALID \<noteq> 0
      then case map_of senseq_cases (sd_AdditionalSenseCode d) of
             None \<Rightarrow> ''?''
           | Some cases \<Rightarrow> switch cases (sd_AdditionalSenseCodeQualifier d)
      else ''?'')"

subsection \<open>What the texts tell\<close>

text \<open>
  No switch has two cases of one code (the compiler would refuse it), and no two sense keys
  have one text.
\<close>

lemma cases_distinct:
  "distinct (map fst scsi_op_cases)" "distinct (map fst srb_status_names)"
  "distinct (map fst sense_key_cases)" "distinct (map fst adsense_cases)"
  by (simp_all add: text_tables)

lemma sense_keys_distinct: "distinct (map snd sense_key_cases)"
  by (simp add: text_tables)

lemma switch_known:
  "distinct (map fst cases) \<Longrightarrow> (c, s) \<in> set cases \<Longrightarrow> switch cases c = s"
  by (simp add: switch_def)

lemma switch_unknown: "c \<notin> fst ` set cases \<Longrightarrow> switch cases c = ''?''"
  by (simp add: switch_def map_of_eq_None_iff [symmetric])

text \<open>A text other than the question mark comes from one code only.\<close>

lemma switch_inject:
  assumes "distinct (map snd cases)" "switch cases a = switch cases b" "switch cases a \<noteq> ''?''"
  shows "a = b"
proof -
  obtain s t where "map_of cases a = Some s" "map_of cases b = Some t"
    using assms(2,3) by (auto simp: switch_def split: option.splits)
  moreover from this have "s = t" using assms(2) by (simp add: switch_def)
  ultimately have "(a, s) \<in> set cases" "(b, s) \<in> set cases" by (auto dest: map_of_SomeD)
  with assms(1) show "a = b"
    unfolding distinct_map inj_on_def by (metis prod.inject snd_conv)
qed

text \<open>The two flags of a status byte and its low six bits.\<close>

definition srb_base :: "UCHAR \<Rightarrow> UCHAR" where "srb_base s = s AND 0x3F"

definition srb_suffix :: "UCHAR \<Rightarrow> string" where
  "srb_suffix s =
     (if s AND SRB_STATUS_QUEUE_FROZEN \<noteq> 0 then ''|SRB_STATUS_QUEUE_FROZEN'' else '''') @
     (if s AND SRB_STATUS_AUTOSENSE_VALID \<noteq> 0 then ''|SRB_STATUS_AUTOSENSE_VALID'' else '''')"

lemma all_bits8: "(\<forall>n<8. P n) \<longleftrightarrow> P 0 \<and> P 1 \<and> P 2 \<and> P 3 \<and> P 4 \<and> P 5 \<and> P 6 \<and> P (7 :: nat)"
  by (simp add: eval_nat_numeral All_less_Suc conj_ac)

lemma uchar_eq_iff:
  "a = b \<longleftrightarrow> bit a 0 = bit b 0 \<and> bit a 1 = bit b 1 \<and> bit a 2 = bit b 2 \<and> bit a 3 = bit b 3 \<and>
     bit a 4 = bit b 4 \<and> bit a 5 = bit b 5 \<and> bit a 6 = bit b 6 \<and> bit a 7 = bit (b :: UCHAR) 7"
proof -
  have "a = b \<longleftrightarrow> (\<forall>n<8. bit a n = bit b n)"
    by (auto intro: bit_word_eqI)
  then show ?thesis by (simp only: all_bits8)
qed

lemma split_status:
  assumes "c AND 0xC0 = 0"
  shows "s = c \<longleftrightarrow> srb_base s = c \<and> s AND 0x40 = 0 \<and> s AND 0x80 = 0"
    and "s = c OR 0x40 \<longleftrightarrow> srb_base s = c \<and> s AND 0x40 \<noteq> 0 \<and> s AND 0x80 = 0"
    and "s = c OR 0x80 \<longleftrightarrow> srb_base s = c \<and> s AND 0x40 = 0 \<and> s AND 0x80 \<noteq> 0"
    and "s = c OR 0x40 OR 0x80 \<longleftrightarrow> srb_base s = c \<and> s AND 0x40 \<noteq> 0 \<and> s AND 0x80 \<noteq> 0"
  using assms unfolding srb_base_def uchar_eq_iff
  by (simp_all add: bit_simps) 

lemma make_cases_find:
  assumes "c AND 0xC0 = 0"
  shows "map_of (make_cases (c, n)) s = (if srb_base s = c then Some (n @ srb_suffix s) else None)"
  using split_status [OF assms, of s]
  by (auto simp: srb_suffix_def SRB_STATUS_QUEUE_FROZEN_def SRB_STATUS_AUTOSENSE_VALID_def)

lemma expanded_find:
  "\<forall>(c, n) \<in> set t. c AND 0xC0 = 0 \<Longrightarrow>
   map_of (concat (map make_cases t)) s = map_option (\<lambda>n. n @ srb_suffix s) (map_of t (srb_base s))"
proof (induction t)
  case Nil
  then show ?case by simp
next
  case (Cons p t)
  obtain c n where p: "p = (c, n)" by fastforce
  have "map_of (concat (map make_cases (p # t))) s =
      (map_of (concat (map make_cases t)) ++ map_of (make_cases p)) s"
    by (simp only: list.map concat.simps map_of_append)
  then show ?case
    using Cons make_cases_find [of c n s] by (simp add: p map_add_def del: make_cases.simps)
qed

text \<open>
  The text of an SRB status byte, found among four cases for every name, is the name of
  its low six bits followed by the names of the two flags that are set, for every one of the
  256 values.
\<close>

theorem srb_status_decoded:
  "DbgGetSrbStatusStr s =
     (case map_of srb_status_names (srb_base s) of None \<Rightarrow> ''?'' | Some n \<Rightarrow> n @ srb_suffix s)"
proof -
  have "\<forall>(c, n) \<in> set srb_status_names. c AND 0xC0 = 0" by (simp add: text_tables)
  from expanded_find [OF this] show ?thesis
    by (simp add: DbgGetSrbStatusStr_def switch_def split: option.splits)
qed

lemma sense_texts_need_sense_data:
  assumes "st AND SRB_STATUS_AUTOSENSE_VALID = 0"
  shows "DbgGetSenseCodeStr st d = ''?''" "DbgGetAdditionalSenseCodeStr st d = ''?''"
    "DbgGetAdditionalSenseCodeQualifierStr st d = ''?''"
  using assms
  by (simp_all add: DbgGetSenseCodeStr_def DbgGetAdditionalSenseCodeStr_def
      DbgGetAdditionalSenseCodeQualifierStr_def)

end
