(* ===== verification/ScsiLog_Reader.thy ===== *)
theory ScsiLog_Reader
  imports ScsiLog_Record ScsiLog_Text
begin

section \<open>The log reader\<close>

text \<open>
  \<open>src/scsilog/scsilog.cpp\<close>: the walk over the records of a mapped log file and what is
  printed of each of them. The view of a file is its bytes followed by the zero bytes up to
  the end of the last page; how many they are is up to the runtime (\<open>pad\<close>). A read outside
  the view is an access violation, which the program does not catch. A line is the list of
  the values given to \<open>printf\<close>; the formatting is the library's.
\<close>

subsection \<open>One record\<close>

record log_line =
  ll_TimeStamp :: LONGLONG
  ll_Irql :: UCHAR
  ll_Op :: string
  ll_OpCode :: ULONG
  ll_SrbStatusText :: string
  ll_SrbStatus :: UCHAR
  ll_ScsiStatus :: UCHAR
  ll_SystemStatus :: NTSTATUS
  ll_SenseBufferLength :: UCHAR
  ll_SenseErrorCode :: UCHAR
  ll_SenseTexts :: "string \<times> string \<times> string"
  ll_IoStatus :: NTSTATUS
  ll_IoLength :: ULONG

text \<open>\<open>ErrorCode\<close> is the low seven bits of the first sense byte.\<close>

definition log_line_of :: "LOGDATA \<Rightarrow> log_line" where
  "log_line_of d =
     \<lparr>ll_TimeStamp = ld_TimeStamp d, ll_Irql = ld_Irql d,
      ll_Op = (if ld_SrbFunction d = 0 then DbgGetScsiOpStr (ld_Cdb d) else ''SrbFunction''),
      ll_OpCode = (if ld_SrbFunction d = 0 then ucast (ld_Cdb d ! 0) else ld_SrbFunction d),
      ll_SrbStatusText = DbgGetSrbStatusStr (ld_SrbStatus d), ll_SrbStatus = ld_SrbStatus d,
      ll_ScsiStatus = ld_ScsiStatus d, ll_SystemStatus = ld_SystemStatus d,
      ll_SenseBufferLength = ld_SenseBufferLength d,
      ll_SenseErrorCode = ld_SenseData d ! 0 AND 0x7F,
      ll_SenseTexts = (DbgGetSenseCodeStr (ld_SrbStatus d) (ld_SenseData d),
                       DbgGetAdditionalSenseCodeStr (ld_SrbStatus d) (ld_SenseData d),
                       DbgGetAdditionalSenseCodeQualifierStr (ld_SrbStatus d) (ld_SenseData d)),
      ll_IoStatus = isb_Status (ld_IoStatus d),
      ll_IoLength = ucast (isb_Information (ld_IoStatus d))\<rparr>"

text \<open>
  \<open>while (length > 0 && p[length - 1] == 0) length--\<close>, where \<open>p\<close> points \<open>a\<close> bytes into the view.
\<close>

fun trim_zeros :: "byte list \<Rightarrow> nat \<Rightarrow> nat \<Rightarrow> nat option" where
  "trim_zeros m a 0 = Some 0"
| "trim_zeros m a (Suc n) =
     (if a + n < length m then if m ! (a + n) = 0 then trim_zeros m a n else Some (Suc n) else None)"

text \<open>
  What is shown of a record: the line, the bytes of the command after the operation code, and
  the size and the bytes of the data (no bytes: \<open>All-zero data.\<close>).
\<close>

record shown =
  sh_Line :: log_line
  sh_RawCdb :: "byte list option"
  sh_Data :: "(ULONG \<times> byte list) option"

definition show_cdb :: "byte list \<Rightarrow> nat \<Rightarrow> LOGDATA \<Rightarrow> byte list option option" where
  "show_cdb m off d =
     (if ld_SrbFunction d = 0
      then do {
        n \<leftarrow> trim_zeros m (off + 44) sizeof_CDB;
        Some (if 1 \<le> n then Some (take (n - 1) (drop (off + 44 + 1) m)) else None)
      }
      else Some None)"

definition show_data :: "byte list \<Rightarrow> nat \<Rightarrow> LOGDATA \<Rightarrow> (ULONG \<times> byte list) option option" where
  "show_data m off d =
     (if 0 < ld_DataLength d
      then do {
        n \<leftarrow> trim_zeros m (off + offset_Data) (unat (ld_DataLength d));
        Some (Some (ld_DataLength d, take n (drop (off + offset_Data) m)))
      }
      else Some None)"

definition show_record :: "byte list \<Rightarrow> nat \<Rightarrow> shown option" where
  "show_record m off =
     (let d = read_header (drop off m) in do {
        c \<leftarrow> show_cdb m off d;
        x \<leftarrow> show_data m off d;
        Some \<lparr>sh_Line = log_line_of d, sh_RawCdb = c, sh_Data = x\<rparr>
      })"

subsection \<open>The walk\<close>

text \<open>
  The next record starts behind the data of this one. Every turn moves on by at least
  \<open>FIELD_OFFSET(LOGDATA, Data)\<close>, so the walk ends.
\<close>

definition next_record :: "byte list \<Rightarrow> nat \<Rightarrow> nat" where
  "next_record m off = off + offset_Data + unat (ld_DataLength (read_header (drop off m)))"

function show_from :: "byte list \<Rightarrow> nat \<Rightarrow> shown list option" where
  "show_from m off =
     (if off + sizeof_LOGDATA \<le> length m
      then do {
        s \<leftarrow> show_record m off;
        r \<leftarrow> show_from m (next_record m off);
        Some (s # r)
      }
      else Some [])"
  by pat_completeness auto

termination show_from
  by (relation "measure (\<lambda>(m, off). length m - off)")
    (auto simp: next_record_def offset_Data_def sizeof_LOGDATA_def)

declare show_from.simps [simp del]

text \<open>
  Mapping a file that does not exist or is empty throws, which \<open>main\<close> reports; an access
  violation ends the process.
\<close>

datatype outcome = Shown "shown list" | Exception | AccessViolation

definition ShowFileInfo :: "nat \<Rightarrow> byte list option \<Rightarrow> outcome" where
  "ShowFileInfo pad file =
     (case file of
        None \<Rightarrow> Exception
      | Some bs \<Rightarrow>
          if bs = [] then Exception
          else (case show_from (bs @ replicate pad 0) 0 of
                  None \<Rightarrow> AccessViolation
                | Some ss \<Rightarrow> Shown ss))"

fun show_files :: "(string \<Rightarrow> nat) \<Rightarrow> (string \<Rightarrow> byte list option) \<Rightarrow> string list \<Rightarrow> outcome list" where
  "show_files pad fs [] = []"
| "show_files pad fs (p # ps) =
     (case ShowFileInfo (pad p) (fs p) of
        AccessViolation \<Rightarrow> [AccessViolation]
      | out \<Rightarrow> out # show_files pad fs ps)"

subsection \<open>Trimming\<close>

definition rstrip :: "byte list \<Rightarrow> byte list" where
  "rstrip bs = rev (dropWhile (\<lambda>b. b = 0) (rev bs))"

lemma rstrip_snoc: "rstrip (bs @ [b]) = (if b = 0 then rstrip bs else bs @ [b])"
  by (simp add: rstrip_def)

lemma rstrip_Nil [simp]: "rstrip [] = []"
  by (simp add: rstrip_def)

lemma rstrip_length: "length (rstrip bs) \<le> length bs"
  using length_dropWhile_le [of "\<lambda>b. b = 0" "rev bs"] by (simp add: rstrip_def)

lemma rstrip_take: "take (length (rstrip bs)) bs = rstrip bs"
proof (induction bs rule: rev_induct)
  case (snoc b bs)
  with rstrip_length [of bs] show ?case by (simp add: rstrip_snoc)
qed simp

lemma rstrip_prefix:
  assumes "take n xs = ys"
  shows "take (length (rstrip ys)) xs = rstrip ys"
proof -
  have "length (rstrip ys) \<le> n" using rstrip_length [of ys] assms by auto
  then have "take (length (rstrip ys)) xs = take (length (rstrip ys)) (take n xs)" by simp
  then show ?thesis by (simp only: assms rstrip_take)
qed

lemma rstrip_zeros [simp]: "rstrip (replicate n 0) = []"
  by (simp add: rstrip_def)

lemma trim_zeros_stripped:
  "a + n \<le> length m \<Longrightarrow> trim_zeros m a n = Some (length (rstrip (take n (drop a m))))"
proof (induction n)
  case (Suc n)
  then have "take (Suc n) (drop a m) = take n (drop a m) @ [m ! (a + n)]"
    by (simp add: take_Suc_conv_app_nth)
  with Suc show ?case by (simp add: rstrip_snoc)
qed simp

lemma trim_zeros_outside: "0 < n \<Longrightarrow> length m < a + n \<Longrightarrow> trim_zeros m a n = None"
  by (cases n) simp_all

subsection \<open>What is shown of a record the driver wrote\<close>

definition shown_of :: "LOGDATA \<Rightarrow> shown" where
  "shown_of d =
     \<lparr>sh_Line = log_line_of d,
      sh_RawCdb = (if ld_SrbFunction d = 0 \<and> rstrip (ld_Cdb d) \<noteq> [] then Some (tl (rstrip (ld_Cdb d))) else None),
      sh_Data = (if 0 < ld_DataLength d then Some (ld_DataLength d, rstrip (ld_Data d)) else None)\<rparr>"

lemma log_line_data [simp]: "log_line_of (d\<lparr>ld_Data := x\<rparr>) = log_line_of d"
  by (simp add: log_line_of_def)

lemma header_cdb:
  "wf_log d \<Longrightarrow> take 16 (drop 44 (log_header d @ rest)) = ld_Cdb d"
  by (simp add: log_header_def wf_log_def sizeof_CDB_def)

lemma take_of_tl: "take (n - 1) (tl xs) = tl (take n xs)"
  by (cases xs; cases n) simp_all

lemma drop_tail: "drop (off + 44 + 1) xs = tl (drop (off + 44) xs)"
  by (simp only: Suc_eq_plus1 [symmetric] drop_Suc tl_drop)

lemma show_record_written:
  assumes "wf_log d" "drop off m = log_bytes d @ rest"
  shows "show_record m off = Some (shown_of d)"
proof -
  have l: "length (log_header d) = 92" "length (ld_Data d) = unat (ld_DataLength d)"
    using log_header_length [OF assms(1)] assms(1) by (simp_all add: offset_Data_def wf_log_def)
  have m: "drop off m = log_header d @ ld_Data d @ rest"
    using assms(2) by (simp add: log_bytes_def)
  have len: "off + 92 + unat (ld_DataLength d) + length rest = length m"
    using l arg_cong [OF m, of length] by simp
  have hd: "read_header (drop off m) = d\<lparr>ld_Data := []\<rparr>"
    using read_log_header [OF assms(1)] m by simp
  have cdb: "take 16 (drop (off + 44) m) = ld_Cdb d"
  proof -
    have "drop (off + 44) m = drop 44 (log_header d @ ld_Data d @ rest)"
      by (simp add: m [symmetric] add.commute)
    then show ?thesis by (simp only: header_cdb [OF assms(1)])
  qed
  have data: "take (unat (ld_DataLength d)) (drop (off + 92) m) = ld_Data d"
    using m l by (simp add: drop_drop [symmetric] add.commute [of off])
  have "trim_zeros m (off + 44) 16 = Some (length (rstrip (ld_Cdb d)))"
    using trim_zeros_stripped [of "off + 44" 16 m] len cdb by simp
  moreover have "take (length (rstrip (ld_Cdb d))) (drop (off + 44) m) = rstrip (ld_Cdb d)"
    by (rule rstrip_prefix [OF cdb])
  moreover have "take (length (rstrip (ld_Cdb d)) - 1) (drop (off + 44 + 1) m) =
      tl (take (length (rstrip (ld_Cdb d))) (drop (off + 44) m))"
    using take_of_tl [of "length (rstrip (ld_Cdb d))" "drop (off + 44) m"]
    by (simp only: drop_tail)
  ultimately have c: "show_cdb m off (d\<lparr>ld_Data := []\<rparr>) = Some (sh_RawCdb (shown_of d))"
    by (simp add: show_cdb_def shown_of_def sizeof_CDB_def Suc_le_eq)
  have "trim_zeros m (off + 92) (unat (ld_DataLength d)) = Some (length (rstrip (ld_Data d)))"
    using trim_zeros_stripped [of "off + 92" "unat (ld_DataLength d)" m] len data by simp
  moreover have "take (length (rstrip (ld_Data d))) (drop (off + 92) m) = rstrip (ld_Data d)"
    by (rule rstrip_prefix [OF data])
  ultimately have "show_data m off (d\<lparr>ld_Data := []\<rparr>) = Some (sh_Data (shown_of d))"
    by (simp add: show_data_def shown_of_def offset_Data_def)
  with c hd show ?thesis
    by (simp add: show_record_def Let_def) (simp add: shown_of_def)
qed

subsection \<open>What is shown of a log\<close>

text \<open>The records a stretch of \<open>n\<close> zero bytes is taken for.\<close>

definition zero_records :: "nat \<Rightarrow> nat" where
  "zero_records n = (if n < sizeof_LOGDATA then 0 else (n - sizeof_LOGDATA) div offset_Data + 1)"

definition zero_record :: LOGDATA where
  "zero_record =
     \<lparr>ld_Next = 0, ld_TimeStamp = 0, ld_Irql = 0, ld_IoStatus = \<lparr>isb_Status = 0, isb_Information = 0\<rparr>,
      ld_SrbFunction = 0, ld_Cdb = replicate sizeof_CDB 0, ld_ScsiStatus = 0, ld_SystemStatus = 0,
      ld_SrbStatus = 0, ld_SenseBufferLength = 0, ld_SenseData = replicate sizeof_SENSE_DATA 0,
      ld_DataLength = 0, ld_Data = []\<rparr>"

lemma zero_record_wf: "wf_log zero_record"
  by (simp add: zero_record_def wf_log_def)

lemma nat_bytes_zero [simp]: "nat_bytes n 0 = replicate n 0"
  by (induction n) simp_all

lemma zero_record_bytes: "log_bytes zero_record = replicate 92 0"
  by (simp add: log_bytes_def log_header_def zero_record_def sizeof_CDB_def sizeof_SENSE_DATA_def
      flip: replicate_add replicate_Suc)

lemma next_record_written:
  assumes "wf_log d" "drop off m = log_bytes d @ rest"
  shows "next_record m off = off + length (log_bytes d)" "drop (next_record m off) m = rest"
proof -
  have "read_header (drop off m) = d\<lparr>ld_Data := []\<rparr>"
    using assms by (simp add: log_bytes_def read_log_header)
  then show *: "next_record m off = off + length (log_bytes d)"
    using assms(1) by (simp add: next_record_def log_bytes_length)
  show "drop (next_record m off) m = rest"
    using assms(2) unfolding * by (simp add: drop_drop [symmetric] add.commute [of off])
qed

lemma show_one:
  assumes "wf_log d" "drop off m = log_bytes d @ rest" "4 \<le> unat (ld_DataLength d) + length rest"
  shows "show_from m off = map_option ((#) (shown_of d)) (show_from m (next_record m off))"
proof -
  have "length m = off + offset_Data + unat (ld_DataLength d) + length rest"
    using arg_cong [OF assms(2), of length] log_bytes_length [OF assms(1)] by (simp add: offset_Data_def)
  with assms show ?thesis
    by (subst show_from.simps)
      (simp add: show_record_written sizeof_LOGDATA_def offset_Data_def map_option_case
        split: option.split)
qed

lemma show_zeros:
  "drop off m = replicate n 0 \<Longrightarrow> off \<le> length m \<Longrightarrow>
   show_from m off = Some (replicate (zero_records n) (shown_of zero_record))"
proof (induction n arbitrary: off rule: less_induct)
  case (less n)
  have len: "length m = off + n" using arg_cong [OF less.prems(1), of length] less.prems(2) by simp
  show ?case
  proof (cases "n < 96")
    case True
    with len show ?thesis
      by (subst show_from.simps) (simp add: sizeof_LOGDATA_def zero_records_def)
  next
    case False
    have d: "drop off m = log_bytes zero_record @ replicate (n - 92) 0"
      using less.prems(1) False by (simp add: zero_record_bytes flip: replicate_add)
    have nx: "next_record m off = off + 92"
      using next_record_written(1) [OF zero_record_wf d] by (simp add: zero_record_bytes)
    have "show_from m (off + 92) = Some (replicate (zero_records (n - 92)) (shown_of zero_record))"
      using less.IH [of "n - 92" "off + 92"] next_record_written(2) [OF zero_record_wf d] len False
      by (simp add: nx)
    moreover have "zero_records n = Suc (zero_records (n - 92))"
    proof (cases "n - 92 < 96")
      case True
      with False show ?thesis by (simp add: zero_records_def sizeof_LOGDATA_def offset_Data_def)
    next
      case F: False
      then have "n - 96 = (n - 92 - 96) + 92" by simp
      then have "(n - 96) div 92 = Suc ((n - 92 - 96) div 92)" by (simp only: div_add_self2)
      with F False show ?thesis by (simp add: zero_records_def sizeof_LOGDATA_def offset_Data_def)
    qed
    ultimately show ?thesis
      using show_one [OF zero_record_wf d] False by (simp add: nx)
  qed
qed

text \<open>
  All records are shown, then one more for every stretch of zero bytes that is large enough;
  only a last record with less than four bytes of data and padding together is not.
\<close>

lemma show_records:
  "list_all wf_log ds \<Longrightarrow> drop off m = concat (map log_bytes ds) @ replicate n 0 \<Longrightarrow> off \<le> length m \<Longrightarrow>
   show_from m off =
     Some (if ds = [] \<or> 4 \<le> unat (ld_DataLength (last ds)) + n
           then map shown_of ds @ replicate (zero_records n) (shown_of zero_record)
           else map shown_of (butlast ds))"
proof (induction ds arbitrary: off)
  case Nil
  then show ?case by (simp add: show_zeros)
next
  case (Cons d ds)
  have wf: "wf_log d" and dr: "drop off m = log_bytes d @ concat (map log_bytes ds) @ replicate n 0"
    using Cons.prems by simp_all
  have len: "length m = off + length (drop off m)" using Cons.prems(3) by simp
  show ?case
  proof (cases "ds = [] \<and> unat (ld_DataLength d) + n < 4")
    case True
    with len wf have "length m < off + 96"
      by (simp add: dr log_bytes_length offset_Data_def)
    with True show ?thesis by (subst show_from.simps) (simp add: sizeof_LOGDATA_def)
  next
    case False
    have "4 \<le> unat (ld_DataLength d) + length (concat (map log_bytes ds) @ replicate n 0)"
    proof (cases ds)
      case Nil
      with False show ?thesis by simp
    next
      case (Cons d' ds')
      then show ?thesis using Cons.prems(1) by (simp add: log_bytes_length offset_Data_def)
    qed
    from show_one [OF wf dr this]
    have "show_from m off = map_option ((#) (shown_of d)) (show_from m (next_record m off))" .
    moreover have "next_record m off \<le> length m"
      using next_record_written(1) [OF wf dr] len by (simp add: dr)
    ultimately show ?thesis
      using Cons.IH [OF _ next_record_written(2) [OF wf dr]] Cons.prems(1) False by auto
  qed
qed

lemma shown_log:
  assumes "ds \<noteq> []" "list_all wf_log ds"
  shows "ShowFileInfo z (Some (concat (map log_bytes ds))) =
     Shown (if 4 \<le> unat (ld_DataLength (last ds)) + z
            then map shown_of ds @ replicate (zero_records z) (shown_of zero_record)
            else map shown_of (butlast ds))"
proof -
  have "length (log_bytes (hd ds)) \<noteq> 0"
    using assms by (cases ds) (simp_all add: log_bytes_length offset_Data_def)
  then have "concat (map log_bytes ds) \<noteq> []" using assms(1) by (cases ds) auto
  with show_records [OF assms(2), of 0 "concat (map log_bytes ds) @ replicate z 0" z] assms(1)
  show ?thesis by (simp add: ShowFileInfo_def)
qed

text \<open>
  When a view ends with fewer than four bytes behind the header of the last record, data
  and zero bytes of the view together, the log reader shows all records but that one.
\<close>

theorem last_record_not_shown:
  assumes "list_all wf_log (ds @ [d])" "unat (ld_DataLength d) + z < 4"
  shows "ShowFileInfo z (Some (concat (map log_bytes (ds @ [d])))) = Shown (map shown_of ds)"
  using shown_log [of "ds @ [d]" z] assms by simp

theorem damaged_length_crashes:
  assumes "view = bs @ replicate z 0" "sizeof_LOGDATA \<le> length view" "bs \<noteq> []"
    and "length view < offset_Data + unat (ld_DataLength (read_header view))"
  shows "ShowFileInfo z (Some bs) = AccessViolation"
proof -
  have pos: "0 < unat (ld_DataLength (read_header view))"
    using assms(2,4) by (simp add: sizeof_LOGDATA_def offset_Data_def)
  then have "show_data view 0 (read_header view) = None"
    using assms(4) trim_zeros_outside [OF pos, of view offset_Data]
    by (simp add: show_data_def unat_gt_0 word_neq_0_conv)
  then have "show_from view 0 = None"
    using assms(2) by (subst show_from.simps) (simp add: show_record_def Let_def split: bind_splits)
  with assms(1,3) show ?thesis by (simp add: ShowFileInfo_def)
qed

text \<open>A file that cannot be mapped does not keep the others from being shown.\<close>

lemma exceptions_do_not_stop:
  assumes "\<forall>p \<in> set ps. ShowFileInfo (pad p) (fs p) \<noteq> AccessViolation"
  shows "show_files pad fs ps = map (\<lambda>p. ShowFileInfo (pad p) (fs p)) ps"
  using assms by (induction ps) (auto split: outcome.splits)

end
