(* ===== verification/ScsiChk_Pnp.thy ===== *)
theory ScsiChk_Pnp
  imports ScsiChk_Device ScsiLog_Reader
begin

section \<open>The SCSI logger: properties of the device object\<close>

text \<open>
  Loading, attaching and naming; what removal writes to the log file and what requests that
  complete during it run into; the paging-path notifications.
\<close>

subsection \<open>Loading and attaching\<close>

lemma table_is_sc_dispatch:
  assumes "si_MajorFunction i \<le> 27" "si_MajorFunction i \<noteq> IRP_MJ_PNP"
  shows "run_sc_handler wl (sc_dispatch_table ! unat (si_MajorFunction i)) (e, i) w = sc_dispatch wl (e, i) w"
proof -
  have m: "unat (si_MajorFunction i) \<le> 27"
    using assms(1) by (simp add: word_le_nat_alt)
  have inj: "si_MajorFunction i = c \<longleftrightarrow> unat (si_MajorFunction i) = unat c" for c
    by (simp add: word_unat_eq_iff)
  show ?thesis
    using m assms(2)
    by (simp add: sc_dispatch_table_def run_sc_handler_def sc_dispatch_def inj nth_list_update Let_def)
qed

lemma registry_path_kept:
  "length path \<le> 32766 \<Longrightarrow> ScsiChkRegistryPath True path = Some path"
  by (simp add: ScsiChkRegistryPath_def registry_path_maximum_def unat_word_ariths unat_of_nat_eq)

theorem add_device_outcomes:
  assumes "NT_SUCCESS (sa_create_status a)"
  shows "if sa_attached a
     then \<exists>D. ScsiChkAddDevice a = Some (STATUS_SUCCESS, Some D) \<and> sd_Attached D \<and> \<not> sd_Deleted D \<and>
            sc_started (sd_world D) \<and> has_flag (sd_Flags D) DO_POWER_PAGABLE \<and>
            (sx_DiskCounters (sd_ext D) \<noteq> NoCounters \<longleftrightarrow> sa_counters_alloc a)
     else if sa_counters_alloc a
     then \<exists>D. ScsiChkAddDevice a = Some (STATUS_NO_SUCH_DEVICE, Some D) \<and> sd_Deleted D
     else ScsiChkAddDevice a = None"
proof (cases "sa_attached a")
  case True
  have "counters_ok (sc_new_extension a)" by (simp add: counters_ok_def sc_new_extension_def)
  moreover have "has_flag (clear_flag (set_flag (DO_DEVICE_INITIALIZING OR DO_DIRECT_IO) DO_POWER_PAGABLE)
      DO_DEVICE_INITIALIZING) DO_POWER_PAGABLE"
    by (simp add: has_flag_def clear_flag_def set_flag_def)
  ultimately show ?thesis
    using True assms
    by (simp add: ScsiChkAddDevice_def Let_def sc_started_def ScsiChkLogError_def)
      (simp add: sc_new_extension_def)
next
  case False
  with assms show ?thesis by (simp add: ScsiChkAddDevice_def Let_def sc_simps)
qed

subsection \<open>Names\<close>

lemma wide_length [simp]: "length (wide s) = length s"
  by (simp add: wide_def)

lemma decimal_length: "0 < k \<Longrightarrow> n < 10 ^ k \<Longrightarrow> length (decimal n) \<le> k"
proof (induction k arbitrary: n)
  case (Suc k)
  show ?case
  proof (cases "n < 10")
    case True
    then show ?thesis by (subst decimal.simps) simp
  next
    case False
    have "n div 10 < 10 ^ k" using Suc.prems(2) by (simp add: less_mult_imp_div_less mult.commute)
    moreover have "0 < k" using False Suc.prems(2) by (cases k) auto
    ultimately show ?thesis using Suc.IH [of "n div 10"] False by (subst decimal.simps) simp
  qed
qed simp

lemma decimal_no_zero: "0 \<notin> set (decimal n)"
proof (induction n rule: decimal.induct)
  case (1 n)
  have d: "0 \<noteq> (0x30 + of_nat d :: WCHAR)" if "d < 10" for d
  proof
    assume "0 = (0x30 + of_nat d :: WCHAR)"
    then have e: "(0x30 + of_nat d :: WCHAR) = 0" by (rule sym)
    then have "unat (of_nat (48 + d) :: WCHAR) = 0" by simp
    moreover have "unat (of_nat (48 + d) :: WCHAR) = 48 + d" using that by (intro unat_of_nat_eq) simp
    ultimately show False by simp
  qed
  show ?case
  proof (cases "n < 10")
    case True
    with d [OF True] show ?thesis by (subst decimal.simps) simp
  next
    case False
    with d [of "n mod 10"] 1 show ?thesis by (subst decimal.simps) simp
  qed
qed

lemma signed_decimal_short: "length (signed_decimal v) \<le> 11" "0 \<notin> set (signed_decimal v)"
proof -
  have "- 2147483648 \<le> sint v" "sint v < 2147483648"
    using sint_range_size [of v] by (simp_all add: word_size)
  then have "length (decimal (nat (- sint v))) \<le> 10" "length (decimal (nat (sint v))) \<le> 10"
    by (intro decimal_length; simp)+
  then show "length (signed_decimal v) \<le> 11" by (simp add: signed_decimal_def)
  show "0 \<notin> set (signed_decimal v)" using decimal_no_zero by (simp add: signed_decimal_def)
qed

lemma stored_string: "0 \<notin> set s \<Longrightarrow> RtlInitUnicodeString (store_string s buf) = s"
  unfolding RtlInitUnicodeString_def store_string_def by (subst takeWhile_append2) auto

lemma disk_name_fits: "length (disk_name d p) \<le> 48" "0 \<notin> set (disk_name d p)"
  using signed_decimal_short [of d] signed_decimal_short [of p]
  by (simp_all add: disk_name_def wide_def backslash_def)

text \<open>The name of a disk always fits; it is stored whole.\<close>

lemma disk_registered:
  assumes "rg_number_irp g" "NT_SUCCESS (rg_number_status g)" "counters_ok (sd_ext D)"
  shows "\<exists>st D'. ScsiChkRegisterDevice g D = Some (st, D') \<and>
     sx_PhysicalDeviceName (sd_ext D') = disk_name (rg_DeviceNumber g) (rg_PartitionNumber g) \<and>
     sx_DiskNumber (sd_ext D') = rg_DeviceNumber g \<and> (sd_Registered D' \<longleftrightarrow> sd_Registered D \<or> NT_SUCCESS (rg_wmi_status g))"
proof -
  let ?n = "disk_name (rg_DeviceNumber g) (rg_PartitionNumber g)"
  have "length (sx_PhysicalDeviceNameBuffer (sd_ext D)) = 64" using assms(3) by (simp add: counters_ok_def)
  then have "take (length (sx_PhysicalDeviceNameBuffer (sd_ext D)) - 1) ?n = ?n"
    using disk_name_fits(1) [of "rg_DeviceNumber g" "rg_PartitionNumber g"] by simp
  then show ?thesis
    using assms(1,2) stored_string [OF disk_name_fits(2)]
    by (simp add: ScsiChkRegisterDevice_def RtlStringCbPrintfW_def set_name_def register_wmi_def
        register_failed_def ScsiChkLogError_def sc_simps Let_def)
qed

text \<open>
  The size passed to the copy is that of the name without a terminator, but the copy counts the
  terminator: the last character is cut off.
\<close>

lemma volume_name_cut:
  assumes "na_Name a = name @ rest" "0 \<notin> set name" "name \<noteq> []" "length name \<le> 63"
    and "na_NameLength a = of_nat (2 * length name)"
  shows "RtlStringCbCopyW dst (volume_name_size (na_NameLength a)) (na_Name a) =
     Some (store_string (butlast name) dst)"
proof -
  have "unat (na_NameLength a) = 2 * length name"
    using assms(4,5) by (simp only:) (rule unat_of_nat_eq, simp)
  then have "volume_name_size (na_NameLength a) = 2 * length name"
    using assms(4) by (simp add: volume_name_size_def)
  moreover have tw: "takeWhile (\<lambda>c. c \<noteq> 0) name = name" using assms(2) by (induction name) auto
  ultimately show ?thesis
    using assms(1,3) by (simp add: RtlStringCbCopyW_def Let_def butlast_conv_take tw del: takeWhile_eq_all_conv)
qed

text \<open>
  A device that is a volume is registered under its name without the last character: the
  length of the name is used as the size of the copy, terminator included.
\<close>

theorem volume_name_truncated:
  assumes "rg_number_irp g" "\<not> NT_SUCCESS (rg_number_status g)" "rg_first_alloc g" "na_irp (rg_first g)"
    and "na_status (rg_first g) = STATUS_BUFFER_OVERFLOW" "rg_second_alloc g" "na_irp (rg_second g)"
    and "NT_SUCCESS (na_status (rg_second g))" "na_Name (rg_second g) = name @ rest"
    and "na_NameLength (rg_second g) = of_nat (2 * length name)"
    and "0 \<notin> set name" "name \<noteq> []" "length name \<le> 63"
  shows "\<exists>st D'. ScsiChkRegisterDevice g D = Some (st, D') \<and>
     sx_PhysicalDeviceName (sd_ext D') = butlast name"
proof -
  have z: "0 \<notin> set (butlast name)" using assms(11) by (meson in_set_butlastD)
  show ?thesis
    using assms(1-8) volume_name_cut [OF assms(9,11,12,13,10)] stored_string [OF z]
    by (simp add: ScsiChkRegisterDevice_def register_volume_def register_volume_number_def set_name_def
        register_wmi_def register_failed_def ScsiChkLogError_def sc_simps Let_def)
qed

subsection \<open>The log file\<close>

definition wf_records :: "(ULONG_PTR \<times> LOGDATA) list \<Rightarrow> bool" where
  "wf_records ls \<longleftrightarrow> list_all (\<lambda>r. writable (snd r)) ls"

lemma chain_records: "log_chain ls \<Longrightarrow> wf_records ls"
  by (induction ls rule: log_chain.induct) (simp_all add: wf_records_def)

lemma record_written_whole:
  assumes "writable d"
  shows "take (unat (of_nat offset_Data + ld_DataLength d)) (log_bytes d) = log_bytes d"
proof -
  have "unat (of_nat offset_Data + ld_DataLength d) = offset_Data + unat (ld_DataLength d)"
    using assms by (simp add: writable_def offset_Data_def unat_word_ariths)
  then show ?thesis using log_bytes_length [of d] assms by (simp add: writable_def)
qed

lemma drain_writes_all:
  "(\<And>k. NT_SUCCESS (wr k)) \<Longrightarrow> wf_records ls \<Longrightarrow>
   drain_log wr n True ls f = (True, f @ concat (map (\<lambda>r. log_bytes (snd r)) ls))"
proof (induction ls arbitrary: n f)
  case (Cons r ls)
  then show ?case by (cases r) (simp add: wf_records_def record_written_whole)
qed (simp add: wf_records_def)

text \<open>After a failed write nothing more is written and the handle stays open.\<close>

lemma drain_stops: "drain_log wr n False ls f = (False, f)"
  by (induction ls arbitrary: n) auto

lemma drain_failure:
  assumes "\<And>k. k < m \<Longrightarrow> NT_SUCCESS (wr (n + k))" "\<not> NT_SUCCESS (wr (n + m))" "m < length ls" "wf_records ls"
  shows "drain_log wr n True ls f = (False, f @ concat (map (\<lambda>r. log_bytes (snd r)) (take m ls)))"
  using assms
proof (induction ls arbitrary: n f m)
  case (Cons r ls)
  show ?case
  proof (cases m)
    case 0
    with Cons.prems(2) show ?thesis by (cases r) (simp add: drain_stops)
  next
    case (Suc k)
    have "NT_SUCCESS (wr (Suc n + j))" if "j < k" for j
      using Cons.prems(1) [of "Suc j"] that Suc by simp
    then have "drain_log wr (Suc n) True ls g = (False, g @ concat (map (\<lambda>r. log_bytes (snd r)) (take k ls)))" for g
      using Cons.prems(2-4) Suc by (intro Cons.IH) (simp_all add: wf_records_def)
    with Cons.prems(1) [of 0] Cons.prems(4) Suc show ?thesis
      by (cases r) (simp add: wf_records_def record_written_whole)
  qed
qed simp

subsection \<open>Removal\<close>

definition log_contents :: "sc_device \<Rightarrow> byte list" where
  "log_contents D = concat (map (\<lambda>r. log_bytes (snd r)) (sx_LogData (sd_ext D)))"

lemma removal_writes_log:
  assumes "sx_RemoveLock (sd_ext D) = 1" "log_chain (sx_LogData (sd_ext D))"
    and "NT_SUCCESS (lf_create lf)" "\<And>k. NT_SUCCESS (lf_write lf k)"
  shows "\<exists>st D'. ScsiChkRemoveDevice p lf [] i D = Some (st, Some \<lparr>fl_Contents = log_contents D, fl_Open = False\<rparr>, D') \<and>
     sd_Deleted D' \<and> sx_LogData (sd_ext D') = [] \<and> sx_RemoveLock (sd_ext D') = 0 \<and>
     sw_SentDown (sd_world D') = sw_SentDown (sd_world D) @ [i]"
  using assms(1,3) drain_writes_all [of "lf_write lf" _ 0 "[]", OF assms(4) chain_records [OF assms(2)]]
  by (simp add: ScsiChkRemoveDevice_def write_log_file_def begin_removal_def log_contents_def
      sc_release_and_wait_def ScsiChkSendToNextDriver_def sc_simps Let_def)

text \<open>Requests in flight that nobody completes keep the removal waiting.\<close>

lemma removal_waits:
  "sx_RemoveLock (sd_ext D) \<noteq> 1 \<Longrightarrow> ScsiChkRemoveDevice p lf [] i D = None"
  by (simp add: ScsiChkRemoveDevice_def begin_removal_def sc_release_and_wait_def sc_simps Let_def)

text \<open>
  C38: The removal of a device of the logger frees the counters before it waits for the
  requests in flight: when a read or write of a processor with counters completes during the
  wait, the completion routine uses freed memory.
\<close>

theorem late_transfer_faults:
  assumes "is_transfer i" "sx_DiskCounters (sd_ext D) \<noteq> NoCounters" "se_processor e < sx_Processors (sd_ext D)"
  shows "ScsiChkRemoveDevice p lf ((e, i, b, s) # late) j D = None"
proof -
  have f: "sx_DiskCounters (sd_ext (begin_removal D)) = FreedCounters"
    "sx_Processors (sd_ext (begin_removal D)) = sx_Processors (sd_ext D)"
    using assms(2) by (simp_all add: begin_removal_def sc_simps split: counter_memory.splits)
  then have "current_counters e (leave_queue e (sd_ext (begin_removal D))) = Some (unat (se_processor e))"
    using assms(3) by (simp add: current_counters_def leave_queue_frame) (simp add: leave_queue_eq Let_def)
  moreover have "upd_counters k g (leave_queue e (sd_ext (begin_removal D))) = None" for k g
    using f by (simp add: upd_counters_def leave_queue_frame)
  ultimately have "sc_answer e i b s (sd_world (begin_removal D)) = None"
    using assms(1) by (auto simp: sc_answer_def ScsiChkIoCompletion_def count_completion_def is_transfer_def Let_def)
  then show ?thesis by (simp add: ScsiChkRemoveDevice_def Let_def)
qed

theorem late_record_lost:
  assumes "si_MajorFunction i = IRP_MJ_SCSI" "si_Flags i AND IRP_ASSOCIATED_IRP = 0"
    and "sx_RemoveLock (sd_ext D) = 2"
    and "sx_DiskCounters (sd_ext D) \<noteq> NoCounters" "se_processor e < sx_Processors (sd_ext D)"
    and "build_log e (i\<lparr>si_IoStatus := b, si_Srb := s\<rparr>) = Some (a, d)"
  shows "\<exists>st D'. ScsiChkRemoveDevice p lf [(e, i, b, s)] j D =
       Some (st, write_log_file lf (sx_LogData (sd_ext D)), D') \<and>
     sd_Deleted D' \<and> map fst (sx_LogData (sd_ext D')) = [a]"
proof -
  let ?i = "i\<lparr>si_IoStatus := b, si_Srb := s\<rparr>" and ?w = "sd_world (begin_removal D)"
  have f: "sx_DiskCounters (sw_ext ?w) \<noteq> NoCounters" "sx_Processors (sw_ext ?w) = sx_Processors (sd_ext D)"
    "sx_LogData (sw_ext ?w) = []" "sx_RemoveLock (sw_ext ?w) = 2"
    using assms(3,4) by (simp_all add: begin_removal_def sc_simps split: counter_memory.splits)
  let ?x = "leave_queue e (sw_ext ?w)"
  have "current_counters e ?x = Some (unat (se_processor e))"
    using f assms(5) by (simp add: current_counters_def leave_queue_frame) (simp add: leave_queue_eq Let_def)
  moreover have "count_completion e ?i k ?x = Some (push_log (a, d) ?x)" for k
    using assms(1,6) by (simp add: count_completion_def Let_def)
  ultimately have ans: "sc_answer e i b s ?w =
      Some (sc_complete ?i ((sc_release (?w\<lparr>sw_ext := push_log (a, d) ?x\<rparr>))
        \<lparr>sw_InFlight := remove1 i (sw_InFlight ?w)\<rparr>))"
    using assms(2) by (simp add: sc_answer_def ScsiChkIoCompletion_def Let_def sc_simps)
  have "sx_RemoveLock (push_log (a, d) ?x) = 2" "map fst (sx_LogData (push_log (a, d) ?x)) = [a]"
    using f by (simp_all add: push_log_frame leave_queue_frame) (simp add: push_log_def leave_queue_frame)
  then show ?thesis
    by (simp add: ScsiChkRemoveDevice_def ans Let_def sc_release_and_wait_def ScsiChkSendToNextDriver_def)
      (simp add: sc_simps)
qed

subsection \<open>Paging-path notifications\<close>

definition sd_paging :: "sc_device \<Rightarrow> LONG" where
  "sd_paging D = sx_PagingPathCount (sd_ext D)"

lemma usage_before_sel:
  "sx_PagingPathCountEvent (sd_ext D) \<Longrightarrow> usage_before b D =
     Some (let p = \<not> b \<and> sd_paging D = 1 \<and> \<not> has_flag (sd_Flags D) DO_POWER_INRUSH
           in (p, if p then D\<lparr>sd_Flags := set_flag (sd_Flags D) DO_POWER_PAGABLE\<rparr> else D))"
  by (simp add: usage_before_def sd_paging_def Let_def)

text \<open>
  C39: Two paging notifications that the lower driver accepts, on a device without inrush
  power, are not kept apart by the event they wait for: when the last paging file leaves while
  another one arrives, the device ends pagable in a paging path; one after the other they
  leave it not pagable.
\<close>

theorem paging_notifications_race:
  assumes "sx_PagingPathCountEvent (sd_ext D)" "sd_paging D = 1" "NT_SUCCESS s1" "NT_SUCCESS s2"
    and "\<not> has_flag (sd_Flags D) DO_POWER_INRUSH" "\<not> has_flag (sd_Flags D) DO_POWER_PAGABLE"
  shows "(\<exists>p D1 q D2. usage_before False D = Some (p, D1) \<and> usage_before True D1 = Some (q, D2) \<and>
        sd_paging (usage_after False p s1 (usage_after True q s2 D2)) = 1 \<and>
        has_flag (sd_Flags (usage_after False p s1 (usage_after True q s2 D2))) DO_POWER_PAGABLE) \<and>
     (\<exists>p D1 q D2. usage_before False D = Some (p, D1) \<and> usage_before True (usage_after False p s1 D1) = Some (q, D2) \<and>
        sd_paging (usage_after True q s2 D2) = 1 \<and>
        \<not> has_flag (sd_Flags (usage_after True q s2 D2)) DO_POWER_PAGABLE)"
proof -
  let ?D1 = "D\<lparr>sd_Flags := set_flag (sd_Flags D) DO_POWER_PAGABLE\<rparr>"
  have fl: "has_flag (set_flag f DO_POWER_PAGABLE) DO_POWER_PAGABLE"
    "\<not> has_flag (clear_flag f DO_POWER_PAGABLE) DO_POWER_PAGABLE" for f
    by (simp_all add: flag_bits pagable_bits)
  have b: "usage_before False D = Some (True, ?D1)" "usage_before True ?D1 = Some (False, ?D1)"
    using assms by (simp_all add: usage_before_sel sd_paging_def)
  have "usage_before True (usage_after False True s1 ?D1) = Some (False, usage_after False True s1 ?D1)"
    using assms by (simp add: usage_before_sel usage_after_def sc_simps Let_def)
  with b fl assms show ?thesis
    by (auto simp: usage_after_def sd_paging_def sc_simps Let_def)
qed

end
