(* ===== verification/ScsiChk_Log.thy ===== *)
theory ScsiChk_Log
  imports ScsiChk_Totals ScsiChk_Pnp
begin

section \<open>From a SCSI request to the reader of the log\<close>

text \<open>
  The two programs together: the records the completion routine builds are, newest first, those
  of the chain, removal writes them in this order, and the log reader shows them.
\<close>

text \<open>An answer on one of the \<open>n\<close> processors that have counters adds a record; on another it does not.\<close>

fun event_log :: "ULONG \<Rightarrow> sc_event \<Rightarrow> LOGDATA list" where
  "event_log n (Arrives wl e i) = []"
| "event_log n (Answered e i b s) =
     (if si_MajorFunction i = IRP_MJ_SCSI \<and> se_processor e < n
      then case build_log e (i\<lparr>si_IoStatus := b, si_Srb := s\<rparr>) of None \<Rightarrow> [] | Some (a, d) \<Rightarrow> [d]
      else [])"

definition unlinked :: "LOGDATA \<Rightarrow> LOGDATA" where
  "unlinked d = d\<lparr>ld_Next := 0\<rparr>"

lemma build_log_unlinked: "build_log e i = Some (a, d) \<Longrightarrow> unlinked d = d"
  by (auto simp: build_log_def Let_def unlinked_def split: bind_splits)

lemma answer_logs:
  assumes "sc_answer e i b s w = Some w'" "counting w"
  shows "map (\<lambda>r. unlinked (snd r)) (sx_LogData (sw_ext w')) =
     event_log (sx_Processors (sw_ext w)) (Answered e i b s) @ map (\<lambda>r. unlinked (snd r)) (sx_LogData (sw_ext w))"
proof -
  let ?i = "i\<lparr>si_IoStatus := b, si_Srb := s\<rparr>"
  obtain st w1 where w1: "ScsiChkIoCompletion e ?i w = Some (st, w1)"
    "w' = sc_complete ?i (w1\<lparr>sw_InFlight := remove1 i (sw_InFlight w1)\<rparr>)"
    using assms(1) by (auto simp: sc_answer_def Let_def split: bind_splits)
  have c: "current_counters e (sw_ext w) \<noteq> None \<longleftrightarrow> se_processor e < sx_Processors (sw_ext w)"
    using assms(2) by (simp add: current_counters_def counting_def)
  have log: "answer_log e ?i w w1" using completion_frame [OF w1(1)] assms(2) by (simp add: counting_def)
  show ?thesis
  proof (cases "se_processor e < sx_Processors (sw_ext w)")
    case True
    with c log w1(2) build_log_unlinked [of e ?i] show ?thesis
      by (auto simp: answer_log_def unlinked_def sc_simps split: if_splits option.splits)
  next
    case False
    with c uncounted_completion(2) [OF w1(1)] w1(2) show ?thesis by (simp add: sc_simps)
  qed
qed

lemma run_logs:
  assumes "sc_run evs w = Some w'" "counting w"
  shows "map (\<lambda>r. unlinked (snd r)) (sx_LogData (sw_ext w')) =
     rev (concat (map (event_log (sx_Processors (sw_ext w))) evs)) @ map (\<lambda>r. unlinked (snd r)) (sx_LogData (sw_ext w))"
  using assms
proof (induction evs arbitrary: w)
  case Nil
  then show ?case by simp
next
  case (Cons ev evs)
  show ?case
  proof (cases ev)
    case (Arrives wl e i)
    then obtain st w1 where w1: "sc_dispatch wl (e, i) w = Some (st, w1)" "sc_run evs w1 = Some w'"
      using Cons.prems(1) by (auto split: bind_splits)
    from dispatch_totals [OF w1(1) Cons.prems(2)] Cons.IH [OF w1(2)] Arrives show ?thesis
      by (simp add: totals_become_def)
  next
    case (Answered e i b s)
    then obtain w1 where w1: "sc_answer e i b s w = Some w1" "sc_run evs w1 = Some w'"
      using Cons.prems(1) by (auto split: bind_splits if_splits)
    let ?n = "sx_Processors (sw_ext w)"
    have "length (event_log ?n ev) \<le> 1" by (cases ev) (auto split: option.splits)
    then have "rev (event_log ?n ev) = event_log ?n ev" by (cases "event_log ?n ev") auto
    with answer_totals [OF w1(1) Cons.prems(2)] answer_logs [OF w1(1) Cons.prems(2)]
    show ?thesis
      using Cons.IH [OF w1(2)] Answered by simp
  qed
qed

text \<open>A history keeps the invariant, if control requests stay away.\<close>

lemma run_inv:
  assumes "sc_run evs w = Some w'" "sc_inv w" "length (sw_InFlight w) + length evs \<le> 2147483647"
    and "list_all (\<lambda>ev. case ev of Arrives wl e i \<Rightarrow> valid_clock e \<and> wmi_ok wl | _ \<Rightarrow> True) evs"
  shows "sc_inv w'"
  using assms
proof (induction evs arbitrary: w)
  case Nil
  then show ?case by simp
next
  case (Cons ev evs)
  show ?case
  proof (cases ev)
    case (Arrives wl e i)
    then obtain st w1 where w1: "sc_dispatch wl (e, i) w = Some (st, w1)" "sc_run evs w1 = Some w'"
      using Cons.prems(1) by (auto split: bind_splits)
    have ok: "counters_ok (sw_ext w)" using Cons.prems(2) by (simp add: sc_inv_def)
    have e: "valid_clock e" "wmi_ok wl" using Cons.prems(4) Arrives by simp_all
    from dispatch_cases [OF ok e, of i] w1(1) have c: "sc_settled i w w1 \<or> launched i w w1" by simp
    have "length (sw_InFlight w) < 2147483647" using Cons.prems(3) by simp
    with c Cons.prems(2) have "sc_inv w1" by (blast intro: sc_settled_inv launched_inv)
    moreover have "length (sw_InFlight w1) \<le> Suc (length (sw_InFlight w))"
      using c by (auto simp: sc_settled_def launched_def)
    ultimately show ?thesis using Cons.IH [OF w1(2)] Cons.prems(3,4) by simp
  next
    case (Answered e i b s)
    then obtain w1 where w1: "i \<in> set (sw_InFlight w)" "sc_answer e i b s w = Some w1" "sc_run evs w1 = Some w'"
      using Cons.prems(1) by (auto split: bind_splits if_splits)
    have "sw_InFlight w1 = remove1 i (sw_InFlight w)"
      using w1(2) completion_frame Cons.prems(2)
      by (fastforce simp: sc_answer_def sc_inv_def Let_def sc_simps split: bind_splits)
    then have "length (sw_InFlight w1) \<le> length (sw_InFlight w)" by (simp add: length_remove1)
    then show ?thesis
      using Cons.IH [OF w1(3) answer_inv [OF Cons.prems(2) w1(1,2)]] Cons.prems(3,4) by simp
  qed
qed

lemma shown_unlinked [simp]: "shown_of (unlinked d) = shown_of d"
  by (simp add: shown_of_def unlinked_def log_line_of_def)

text \<open>
  C17: The logger and the log reader together: for every run of at most 2147483647 requests of
  any kind and answers, that ends with nothing in flight, the log file the removal of the
  device writes is shown by the log reader as exactly the records of the SCSI requests that
  were completed on a processor the driver has counters for (on others it logs nothing),
  newest first, followed only by what the zero bytes at the end of the mapped view look like
  (a view with at least four zero bytes behind the file). Assumed: the logger starts with its
  counters allocated and an empty log, at least one record is logged and every record can be
  allocated, creating and writing the log file succeed, the performance counter runs, and the
  WMI library keeps its documented rules.
\<close>

theorem logged_requests_are_shown:
  assumes "sc_run evs w0 = Some w" "sc_started w0" "sx_DiskCounters (sw_ext w0) \<noteq> NoCounters"
    and "length evs \<le> 2147483647"
    and "list_all (\<lambda>ev. case ev of Arrives wl e i \<Rightarrow> valid_clock e \<and> wmi_ok wl | _ \<Rightarrow> True) evs"
    and "sw_InFlight w = []" "concat (map (event_log (sx_Processors (sw_ext w0))) evs) \<noteq> []" "4 \<le> z"
    and "NT_SUCCESS (lf_create lf)" "\<And>k. NT_SUCCESS (lf_write lf k)"
    and "NT_SUCCESS (se_acquire (sp_env p))" "sd_world D = snd (sc_acquire (sp_env p) w)"
  shows "\<exists>st f D'. ScsiChkRemoveDevice p lf [] i D = Some (st, Some f, D') \<and>
     ShowFileInfo z (Some (fl_Contents f)) =
       Shown (rev (map shown_of (concat (map (event_log (sx_Processors (sw_ext w0))) evs))) @ replicate (zero_records z) (shown_of zero_record))"
proof -
  have "sc_inv w0" using assms(2) by (simp add: sc_inv_def sc_started_def)
  then have inv: "sc_inv w" using run_inv [OF assms(1)] assms(2,4,5) by (simp add: sc_started_def)
  have cnt: "counting w0" using assms(2,3) by (simp add: counting_def sc_started_def)
  let ?ls = "sx_LogData (sw_ext w)"
  have D: "sd_ext D = (sw_ext w)\<lparr>sx_RemoveLock := Suc (sx_RemoveLock (sw_ext w))\<rparr>"
    using assms(11,12) by (simp add: acquire_cases)
  have lock: "sx_RemoveLock (sd_ext D) = 1" "log_chain (sx_LogData (sd_ext D))"
    using inv assms(6) by (simp_all add: D sc_inv_def)
  obtain st D' where r: "ScsiChkRemoveDevice p lf [] i D =
      Some (st, Some \<lparr>fl_Contents = log_contents D, fl_Open = False\<rparr>, D')"
    using removal_writes_log [OF lock assms(9,10)] by blast
  have m: "map (\<lambda>r. unlinked (snd r)) ?ls = rev (concat (map (event_log (sx_Processors (sw_ext w0))) evs))"
    using run_logs [OF assms(1) cnt] assms(2) by (simp add: sc_started_def)
  have "map (\<lambda>r. shown_of (snd r)) ?ls = map shown_of (map (\<lambda>r. unlinked (snd r)) ?ls)" by simp
  then have sh: "map shown_of (map snd ?ls) = rev (map shown_of (concat (map (event_log (sx_Processors (sw_ext w0))) evs)))"
    by (simp only: m rev_map map_map comp_def)
  have "?ls \<noteq> []" using m assms(7) by auto
  moreover have "list_all wf_log (map snd ?ls)"
    using chain_records [OF lock(2)] by (simp add: D wf_records_def writable_def list_all_iff)
  ultimately have "ShowFileInfo z (Some (concat (map log_bytes (map snd ?ls)))) =
      Shown (map shown_of (map snd ?ls) @ replicate (zero_records z) (shown_of zero_record))"
    using shown_log [of "map snd ?ls" z] assms(8) by simp
  then show ?thesis using r sh by (simp add: log_contents_def D comp_def)
qed

end
