(* ===== verification/WrFltCmd.thy ===== *)
theory WrFltCmd
  imports QC_Stats "HOL-Library.Monad_Syntax"
begin

section \<open>The control utility\<close>

text \<open>
  \<open>src/qcachecmd/wrfltcmd.cpp\<close>: the commands, the requests sent to the driver, the wait for
  their completion, and the list of DOS device links. Strings are character lists. The result of
  a run is its exit code and the visible actions in order; messages are summarized, the
  formatting of the statistics is the library's. A run that waits for ever is \<open>None\<close>.
\<close>

subsection \<open>Actions and answers of the system\<close>

datatype memory_state = LowMemory | NormalMemory | UnknownMemory | NoMemoryEvent

datatype action =
    Usage
  | UnknownCommand
  | MemoryState memory_state
  | InvalidParameters
  | OpenDevice string ULONG
  | SendControl ULONG
  | WaitChar "8 word"
  | ShowStatistics DEVICE_STATISTICS
  | WrongVersion
  | ErrorMessage
  | CompletedSuccessfully

text \<open>\<open>DeviceIoControl\<close> succeeds, fails, or is pending.\<close>

datatype control_outcome = ControlDone | ControlPending | ControlFailed

text \<open>\<open>cs_waits\<close>: how many waits of 200 ms time out before the request completes; none: it never does.\<close>

record cmd_system =
  cs_memory :: memory_state
  cs_opens :: "string \<Rightarrow> ULONG \<Rightarrow> bool"
  cs_overlapped :: bool
  cs_control :: "ULONG \<Rightarrow> control_outcome"
  cs_statistics :: DEVICE_STATISTICS
  cs_waits :: "nat option"
  cs_result :: bool

type_synonym run = "(int \<times> action list) option"

definition after :: "action list \<Rightarrow> run \<Rightarrow> run" where
  "after as r = map_option (\<lambda>(c, bs). (c, as @ bs)) r"

subsection \<open>Paths and access\<close>

abbreviation (input) backslash_char :: char where "backslash_char \<equiv> CHR 0x5C"

definition device_path :: "string \<Rightarrow> string" where
  "device_path a =
     (if a \<noteq> [] \<and> hd a = backslash_char then a
      else [backslash_char, backslash_char, CHR ''?'', backslash_char] @ a)"

abbreviation (input) GENERIC_READ :: ULONG where "GENERIC_READ \<equiv> 0x80000000"
abbreviation (input) GENERIC_WRITE :: ULONG where "GENERIC_WRITE \<equiv> 0x40000000"

definition control_access :: "ULONG \<Rightarrow> ULONG" where
  "control_access code =
     (if ucast (ACCESS_FROM_CTL_CODE code) AND FILE_READ_ACCESS \<noteq> 0 then GENERIC_READ else 0) OR
     (if ucast (ACCESS_FROM_CTL_CODE code) AND FILE_WRITE_ACCESS \<noteq> 0 then GENERIC_WRITE else 0)"

subsection \<open>Statistics\<close>

text \<open>The arguments start with the command word; \<open>length args\<close> is \<open>argc\<close>.\<close>

definition show_stats :: "cmd_system \<Rightarrow> string list \<Rightarrow> run" where
  "show_stats cs args =
     after [MemoryState (cs_memory cs)]
       (if 2 < length args then Some (-1, [InvalidParameters])
        else if length args < 2 then Some (0, [])
        else
          let path = device_path (args ! 1) in
          after [OpenDevice path 0]
            (if \<not> cs_opens cs path 0 then Some (1, [ErrorMessage])
             else
               after [SendControl IOCTL_QCACHE_GET_DEVICE_DATA]
                 (if cs_control cs IOCTL_QCACHE_GET_DEVICE_DATA \<noteq> ControlDone then Some (1, [ErrorMessage])
                  else if Version (cs_statistics cs) \<noteq> sizeof_DEVICE_STATISTICS then Some (1, [WrongVersion])
                  else Some (0, [ShowStatistics (cs_statistics cs)]))))"

subsection \<open>Control requests\<close>

text \<open>One character for every wait that timed out.\<close>

fun wait_chars :: "nat \<Rightarrow> 8 word \<Rightarrow> action list" where
  "wait_chars 0 c = []"
| "wait_chars (Suc n) c = WaitChar (NextWaitChar c) # wait_chars n (NextWaitChar c)"

definition ioctl :: "cmd_system \<Rightarrow> string list \<Rightarrow> ULONG \<Rightarrow> run" where
  "ioctl cs args code =
     after [MemoryState (cs_memory cs)]
       (if 2 < length args then Some (-1, [InvalidParameters])
        else if length args < 2 then Some (0, [])
        else
          let path = device_path (args ! 1); access = control_access code in
          after [OpenDevice path access]
            (if \<not> cs_opens cs path access then Some (1, [ErrorMessage])
             else if \<not> cs_overlapped cs then Some (2, [ErrorMessage])
             else
               after [SendControl code]
                 (if cs_control cs code = ControlFailed then Some (1, [ErrorMessage])
                  else case cs_waits cs of
                         None \<Rightarrow> None
                       | Some n \<Rightarrow>
                           after (wait_chars n 0x2F)
                             (Some (0, [if cs_result cs then CompletedSuccessfully else ErrorMessage])))))"

subsection \<open>Commands\<close>

text \<open>\<open>_wcsicmp\<close> compares the words with letters in lower case.\<close>

definition lower_char :: "char \<Rightarrow> char" where
  "lower_char c =
     (if 65 \<le> (of_char c :: nat) \<and> (of_char c :: nat) \<le> 90 then char_of ((of_char c :: nat) + 32) else c)"

definition same_word :: "string \<Rightarrow> string \<Rightarrow> bool" where
  "same_word a b \<longleftrightarrow> map lower_char a = map lower_char b"

definition wmain :: "cmd_system \<Rightarrow> string list \<Rightarrow> run" where
  "wmain cs argv =
     (if length argv < 2 then Some (-1, [Usage])
      else
        let w = argv ! 1; rest = tl argv in
        if same_word w ''stat'' then show_stats cs rest
        else if same_word w ''flush'' then ioctl cs rest IOCTL_QCACHE_FLUSH
        else if same_word w ''off'' then ioctl cs rest IOCTL_QCACHE_OFF
        else if same_word w ''on'' then ioctl cs rest IOCTL_QCACHE_ON
        else Some (-1, [UnknownCommand]))"

subsection \<open>The list of links\<close>

text \<open>
  Items linked by \<open>Next\<close>. \<open>Add\<close> follows the pointers to the first null one; deleting an item
  deletes the items behind it.
\<close>

datatype link_item = Item string string "link_item option"

type_synonym link_list = "link_item option"

fun Add :: "string \<Rightarrow> string \<Rightarrow> link_list \<Rightarrow> link_list" and
    add_behind :: "string \<Rightarrow> string \<Rightarrow> link_item \<Rightarrow> link_item" where
  "Add l t None = Some (Item l t None)"
| "Add l t (Some i) = Some (add_behind l t i)"
| "add_behind l t (Item a b nxt) = Item a b (Add l t nxt)"

text \<open>The items \<open>Clear\<close> deletes, and the empty list it leaves.\<close>

fun deleted :: "link_list \<Rightarrow> (string \<times> string) list" and
    deleted_item :: "link_item \<Rightarrow> (string \<times> string) list" where
  "deleted None = []"
| "deleted (Some i) = deleted_item i"
| "deleted_item (Item a b nxt) = deleted nxt @ [(a, b)]"

definition Clear_links :: "link_list \<Rightarrow> (string \<times> string) list \<times> link_list" where
  "Clear_links ls = (deleted ls, None)"

subsection \<open>Properties\<close>

text \<open>The requests a run sends.\<close>

fun sent_control :: "action \<Rightarrow> ULONG option" where
  "sent_control (SendControl c) = Some c"
| "sent_control _ = None"

definition controls :: "action list \<Rightarrow> ULONG list" where
  "controls as = List.map_filter sent_control as"

lemma controls_append [simp]: "controls (as @ bs) = controls as @ controls bs"
  by (simp add: controls_def List.map_filter_def)

lemma controls_simps [simp]:
  "controls [] = []" "controls (a # as) = (case sent_control a of None \<Rightarrow> controls as | Some c \<Rightarrow> c # controls as)"
  by (simp_all add: controls_def map_filter_simps split: option.split)

lemma controls_wait [simp]: "controls (wait_chars n c) = []"
  by (induction n arbitrary: c) simp_all

lemma wait_chars_length [simp]: "length (wait_chars n c) = n"
  by (induction n arbitrary: c) simp_all

text \<open>Four characters take turns.\<close>

lemma wait_chars_cycle:
  "k < n \<Longrightarrow> wait_chars n 0x2F ! k = WaitChar ([0x2D, 0x5C, 0x7C, 0x2F] ! (k mod 4))"
proof -
  have "wait_chars n c ! k = WaitChar ((NextWaitChar ^^ Suc k) c)" if "k < n" for n k c
    using that by (induction n arbitrary: c k) (auto simp: nth_Cons funpow_swap1 split: nat.split)
  moreover have "(NextWaitChar ^^ Suc k) 0x2F = [0x2D, 0x5C, 0x7C, 0x2F] ! (k mod 4)"
  proof (induction k)
    case 0
    then show ?case by (simp add: NextWaitChar_def)
  next
    case (Suc k)
    have "k mod 4 < 4" by simp
    then consider "k mod 4 = 0" | "k mod 4 = 1" | "k mod 4 = 2" | "k mod 4 = 3" by linarith
    then show ?case
      using Suc by cases (simp_all add: mod_Suc NextWaitChar_def)
  qed
  ultimately show "k < n \<Longrightarrow> wait_chars n 0x2F ! k = WaitChar ([0x2D, 0x5C, 0x7C, 0x2F] ! (k mod 4))"
    by simp
qed

definition command_code :: "string \<Rightarrow> ULONG option" where
  "command_code w =
     (if same_word w ''flush'' then Some IOCTL_QCACHE_FLUSH
      else if same_word w ''off'' then Some IOCTL_QCACHE_OFF
      else if same_word w ''on'' then Some IOCTL_QCACHE_ON else None)"

lemma not_stat: "same_word w ''flush'' \<or> same_word w ''off'' \<or> same_word w ''on'' \<Longrightarrow> \<not> same_word w ''stat''"
  by (auto simp: same_word_def lower_char_def dest: arg_cong [where f = length])

lemma control_access_full:
  "code \<in> {IOCTL_QCACHE_FLUSH, IOCTL_QCACHE_OFF, IOCTL_QCACHE_ON} \<Longrightarrow> control_access code = 0xC0000000"
  by (auto simp: control_access_def)

text \<open>
  C30: A control command of the utility on a device opens it for reading and writing, sends
  exactly the request of the command, once, shows one progress character for every wait that
  times out, and reports how the request ended; it never returns when the request never
  completes.
\<close>

theorem utility_sends_its_request:
  assumes "command_code w = Some code" "cs_opens cs (device_path d) 0xC0000000" "cs_overlapped cs"
    and "cs_control cs code \<noteq> ControlFailed"
  shows "wmain cs [p, w, d] =
     (case cs_waits cs of
        None \<Rightarrow> None
      | Some n \<Rightarrow> Some (0, [MemoryState (cs_memory cs), OpenDevice (device_path d) 0xC0000000, SendControl code] @
          wait_chars n 0x2F @ [if cs_result cs then CompletedSuccessfully else ErrorMessage]))"
proof -
  have w: "same_word w ''flush'' \<or> same_word w ''off'' \<or> same_word w ''on''"
    "code \<in> {IOCTL_QCACHE_FLUSH, IOCTL_QCACHE_OFF, IOCTL_QCACHE_ON}"
    using assms(1) unfolding command_code_def by (auto split: if_splits)
  have "wmain cs [p, w, d] = ioctl cs [w, d] code"
    using assms(1) not_stat [OF w(1)] unfolding wmain_def command_code_def
    by (simp add: Let_def split: if_splits)
  then show ?thesis
    using assms(2-4) control_access_full [OF w(2)]
    by (simp add: ioctl_def after_def Let_def split: option.split)
qed

text \<open>No other run sends a control request of the three.\<close>

lemma after_Some: "after xs r = Some (c, as) \<longleftrightarrow> (\<exists>bs. r = Some (c, bs) \<and> as = xs @ bs)"
  by (cases r) (auto simp: after_def)

lemma stats_controls:
  "show_stats cs args = Some (c, as) \<Longrightarrow> controls as = [] \<or> controls as = [IOCTL_QCACHE_GET_DEVICE_DATA]"
  by (auto simp: show_stats_def after_Some Let_def split: if_splits)

lemma ioctl_controls:
  "ioctl cs args code = Some (c, as) \<Longrightarrow> controls as = [] \<or> (length args = 2 \<and> controls as = [code])"
  by (auto simp: ioctl_def after_Some Let_def split: if_splits option.splits)

theorem utility_sends_nothing_else:
  assumes "wmain cs argv = Some (c, as)"
  shows "controls as = [] \<or> controls as = [IOCTL_QCACHE_GET_DEVICE_DATA] \<or>
     (\<exists>code. command_code (argv ! 1) = Some code \<and> length argv = 3 \<and> controls as = [code])"
proof -
  let ?w = "argv ! 1"
  consider "length argv < 2" | "2 \<le> length argv" "same_word ?w ''stat''"
    | code where "2 \<le> length argv" "\<not> same_word ?w ''stat''" "command_code ?w = Some code"
    | "2 \<le> length argv" "\<not> same_word ?w ''stat''" "command_code ?w = None"
    by (meson not_less option.exhaust)
  then show ?thesis
  proof cases
    case 1
    with assms show ?thesis by (auto simp: wmain_def)
  next
    case 2
    with assms have "show_stats cs (tl argv) = Some (c, as)" by (simp add: wmain_def Let_def)
    then show ?thesis using stats_controls by blast
  next
    case 3
    with assms have "ioctl cs (tl argv) code = Some (c, as)"
      unfolding wmain_def command_code_def by (simp add: Let_def split: if_splits)
    from ioctl_controls [OF this] 3 show ?thesis by auto
  next
    case 4
    with assms show ?thesis
      unfolding wmain_def command_code_def by (auto simp: Let_def split: if_splits)
  qed
qed

fun links_of :: "link_list \<Rightarrow> (string \<times> string) list" and
    links_of_item :: "link_item \<Rightarrow> (string \<times> string) list" where
  "links_of None = []"
| "links_of (Some i) = links_of_item i"
| "links_of_item (Item a b nxt) = (a, b) # links_of nxt"

lemma add_at_end:
  "links_of (Add l t ls) = links_of ls @ [(l, t)]"
  "links_of_item (add_behind l t i) = links_of_item i @ [(l, t)]"
  by (induction l t ls and l t i rule: Add_add_behind.induct) simp_all

lemma clear_deletes_each_once:
  "deleted ls = rev (links_of ls)" "deleted_item i = rev (links_of_item i)"
  by (induction ls and i rule: deleted_deleted_item.induct) simp_all

end
