(* ===== verification/QC_Lock.thy ===== *)
theory QC_Lock
  imports QC_Prelude
begin

section \<open>The spin lock and the interrupt level\<close>

text \<open>
  The lock helpers of \<open>src/qcache/qcache.h\<close>, for both processor families. A caller passes the
  lowest interrupt level it may be running at; the helpers skip raising and lowering the level
  when this is the dispatch level already, and a release tells the caller the level it really
  came from. \<open>None\<close>: an assertion fails, or the processor waits for a lock it holds itself.
\<close>

subsection \<open>Kernel services\<close>

type_synonym KIRQL = UCHAR

abbreviation (input) PASSIVE_LEVEL :: KIRQL where "PASSIVE_LEVEL \<equiv> 0"
abbreviation (input) DISPATCH_LEVEL :: KIRQL where "DISPATCH_LEVEL \<equiv> 2"

record processor =
  cpu_Irql :: KIRQL
  cpu_Locked :: bool

record KLOCK_QUEUE_HANDLE =
  lh_OldIrql :: KIRQL

definition take_lock :: "processor \<Rightarrow> processor option" where
  "take_lock c = (if cpu_Locked c then None else Some (c\<lparr>cpu_Locked := True\<rparr>))"

definition leave_lock :: "processor \<Rightarrow> processor option" where
  "leave_lock c = (if cpu_Locked c then Some (c\<lparr>cpu_Locked := False\<rparr>) else None)"

text \<open>Taking the lock raises the level and saves the old one; giving it back restores it.\<close>

definition KeAcquireInStackQueuedSpinLock ::
  "KLOCK_QUEUE_HANDLE \<Rightarrow> processor \<Rightarrow> (KLOCK_QUEUE_HANDLE \<times> processor) option" where
  "KeAcquireInStackQueuedSpinLock h c = do {
     c1 \<leftarrow> take_lock c;
     Some (h\<lparr>lh_OldIrql := cpu_Irql c\<rparr>, c1\<lparr>cpu_Irql := DISPATCH_LEVEL\<rparr>)
   }"

definition KeReleaseInStackQueuedSpinLock :: "KLOCK_QUEUE_HANDLE \<Rightarrow> processor \<Rightarrow> processor option" where
  "KeReleaseInStackQueuedSpinLock h c = do {
     c1 \<leftarrow> leave_lock c;
     Some (c1\<lparr>cpu_Irql := lh_OldIrql h\<rparr>)
   }"

definition KeAcquireSpinLock :: "processor \<Rightarrow> (KIRQL \<times> processor) option" where
  "KeAcquireSpinLock c = do {
     c1 \<leftarrow> take_lock c;
     Some (cpu_Irql c, c1\<lparr>cpu_Irql := DISPATCH_LEVEL\<rparr>)
   }"

definition KeReleaseSpinLock :: "KIRQL \<Rightarrow> processor \<Rightarrow> processor option" where
  "KeReleaseSpinLock old c = do {
     c1 \<leftarrow> leave_lock c;
     Some (c1\<lparr>cpu_Irql := old\<rparr>)
   }"

definition asserted :: "bool \<Rightarrow> unit option" where
  "asserted b = (if b then Some () else None)"

subsection \<open>The helpers\<close>

definition QCacheAcquireLock_x64 ::
  "KIRQL \<Rightarrow> KLOCK_QUEUE_HANDLE \<Rightarrow> processor \<Rightarrow> (KLOCK_QUEUE_HANDLE \<times> processor) option" where
  "QCacheAcquireLock_x64 lowest h c =
     (if DISPATCH_LEVEL \<le> lowest
      then do {
        asserted (DISPATCH_LEVEL \<le> cpu_Irql c);
        c1 \<leftarrow> take_lock c;
        Some (h, c1)
      }
      else KeAcquireInStackQueuedSpinLock h c)"

definition QCacheReleaseLock_x64 ::
  "KLOCK_QUEUE_HANDLE \<Rightarrow> KIRQL \<Rightarrow> processor \<Rightarrow> (KIRQL \<times> processor) option" where
  "QCacheReleaseLock_x64 h lowest c = do {
     asserted (DISPATCH_LEVEL \<le> cpu_Irql c);
     (if DISPATCH_LEVEL \<le> lowest
      then do { c1 \<leftarrow> leave_lock c; Some (lowest, c1) }
      else do { c1 \<leftarrow> KeReleaseInStackQueuedSpinLock h c; Some (lh_OldIrql h, c1) })
   }"

definition QCacheAcquireLock_x86 :: "KIRQL \<Rightarrow> processor \<Rightarrow> (KIRQL \<times> processor) option" where
  "QCacheAcquireLock_x86 lowest c =
     (if DISPATCH_LEVEL \<le> lowest
      then do {
        asserted (DISPATCH_LEVEL \<le> cpu_Irql c);
        c1 \<leftarrow> take_lock c;
        Some (DISPATCH_LEVEL, c1)
      }
      else KeAcquireSpinLock c)"

definition QCacheReleaseLock_x86 :: "KIRQL \<Rightarrow> KIRQL \<Rightarrow> processor \<Rightarrow> (KIRQL \<times> processor) option" where
  "QCacheReleaseLock_x86 old lowest c = do {
     asserted (DISPATCH_LEVEL \<le> cpu_Irql c);
     (if DISPATCH_LEVEL \<le> lowest
      then do { c1 \<leftarrow> leave_lock c; Some (lowest, c1) }
      else do { c1 \<leftarrow> KeReleaseSpinLock old c; Some (old, c1) })
   }"

text \<open>The macros of the 32-bit build keep the level in the handle.\<close>

definition QCacheAcquireLock_macro ::
  "KIRQL \<Rightarrow> KLOCK_QUEUE_HANDLE \<Rightarrow> processor \<Rightarrow> (KLOCK_QUEUE_HANDLE \<times> processor) option" where
  "QCacheAcquireLock_macro lowest h c =
     map_option (\<lambda>(old, c1). (h\<lparr>lh_OldIrql := old\<rparr>, c1)) (QCacheAcquireLock_x86 lowest c)"

definition QCacheReleaseLock_macro ::
  "KLOCK_QUEUE_HANDLE \<Rightarrow> KIRQL \<Rightarrow> processor \<Rightarrow> (KIRQL \<times> processor) option" where
  "QCacheReleaseLock_macro h lowest c = QCacheReleaseLock_x86 (lh_OldIrql h) lowest c"

subsection \<open>The interface of the sections under the lock\<close>

text \<open>
  What the callers rely on: with a lower bound of the level they run at, the section under the
  lock runs at dispatch level holding the lock, and after the release everything is as it was;
  the new bound is the level itself, so the next section does not change the level in vain.
\<close>

fun sections ::
  "(KIRQL \<Rightarrow> KLOCK_QUEUE_HANDLE \<Rightarrow> processor \<Rightarrow> (KLOCK_QUEUE_HANDLE \<times> processor) option) \<Rightarrow>
   (KLOCK_QUEUE_HANDLE \<Rightarrow> KIRQL \<Rightarrow> processor \<Rightarrow> (KIRQL \<times> processor) option) \<Rightarrow>
   nat \<Rightarrow> KIRQL \<Rightarrow> KLOCK_QUEUE_HANDLE \<Rightarrow> processor \<Rightarrow> (KIRQL \<times> processor) option" where
  "sections acquire release 0 lowest h c = Some (lowest, c)"
| "sections acquire release (Suc n) lowest h c = do {
     (h1, c1) \<leftarrow> acquire lowest h c;
     (lowest1, c2) \<leftarrow> release h1 lowest c1;
     sections acquire release n lowest1 h1 c2
   }"

locale lock_helpers =
  fixes acquire :: "KIRQL \<Rightarrow> KLOCK_QUEUE_HANDLE \<Rightarrow> processor \<Rightarrow> (KLOCK_QUEUE_HANDLE \<times> processor) option"
    and release :: "KLOCK_QUEUE_HANDLE \<Rightarrow> KIRQL \<Rightarrow> processor \<Rightarrow> (KIRQL \<times> processor) option"
  assumes critical: "lowest \<le> cpu_Irql c \<Longrightarrow> cpu_Irql c \<le> DISPATCH_LEVEL \<Longrightarrow> \<not> cpu_Locked c \<Longrightarrow>
     \<exists>h'. acquire lowest h c = Some (h', \<lparr>cpu_Irql = DISPATCH_LEVEL, cpu_Locked = True\<rparr>) \<and>
          release h' lowest \<lparr>cpu_Irql = DISPATCH_LEVEL, cpu_Locked = True\<rparr> = Some (cpu_Irql c, c)"
begin

lemma sections_restore:
  assumes "lowest \<le> cpu_Irql c" "cpu_Irql c \<le> DISPATCH_LEVEL" "\<not> cpu_Locked c" "0 < n"
  shows "sections acquire release n lowest h c = Some (cpu_Irql c, c)"
  using assms
proof (induction n arbitrary: lowest h)
  case (Suc n)
  obtain h' where h: "acquire lowest h c = Some (h', \<lparr>cpu_Irql = DISPATCH_LEVEL, cpu_Locked = True\<rparr>)"
    "release h' lowest \<lparr>cpu_Irql = DISPATCH_LEVEL, cpu_Locked = True\<rparr> = Some (cpu_Irql c, c)"
    using critical [OF Suc.prems(1-3)] by blast
  show ?case
  proof (cases "n = 0")
    case True
    with h show ?thesis by simp
  next
    case False
    with h Suc.IH [of "cpu_Irql c" h'] Suc.prems show ?thesis by simp
  qed
qed simp

end

lemma level_cases:
  "(lowest :: KIRQL) \<le> irql \<Longrightarrow> irql \<le> DISPATCH_LEVEL \<Longrightarrow> DISPATCH_LEVEL \<le> lowest \<Longrightarrow> irql = DISPATCH_LEVEL"
  by (meson order.trans order_antisym)

lemmas lock_defs = QCacheAcquireLock_x64_def QCacheReleaseLock_x64_def QCacheAcquireLock_x86_def
  QCacheReleaseLock_x86_def QCacheAcquireLock_macro_def QCacheReleaseLock_macro_def
  KeAcquireInStackQueuedSpinLock_def KeReleaseInStackQueuedSpinLock_def KeAcquireSpinLock_def
  KeReleaseSpinLock_def take_lock_def leave_lock_def asserted_def

interpretation x64: lock_helpers QCacheAcquireLock_x64 QCacheReleaseLock_x64
proof
  fix lowest :: KIRQL and c :: processor and h
  assume "lowest \<le> cpu_Irql c" "cpu_Irql c \<le> DISPATCH_LEVEL" "\<not> cpu_Locked c"
  then show "\<exists>h'. QCacheAcquireLock_x64 lowest h c = Some (h', \<lparr>cpu_Irql = DISPATCH_LEVEL, cpu_Locked = True\<rparr>) \<and>
      QCacheReleaseLock_x64 h' lowest \<lparr>cpu_Irql = DISPATCH_LEVEL, cpu_Locked = True\<rparr> = Some (cpu_Irql c, c)"
    using level_cases [of lowest "cpu_Irql c"]
    by (cases c) (auto simp: lock_defs)
qed

interpretation x86: lock_helpers QCacheAcquireLock_macro QCacheReleaseLock_macro
proof
  fix lowest :: KIRQL and c :: processor and h
  assume "lowest \<le> cpu_Irql c" "cpu_Irql c \<le> DISPATCH_LEVEL" "\<not> cpu_Locked c"
  then show "\<exists>h'. QCacheAcquireLock_macro lowest h c = Some (h', \<lparr>cpu_Irql = DISPATCH_LEVEL, cpu_Locked = True\<rparr>) \<and>
      QCacheReleaseLock_macro h' lowest \<lparr>cpu_Irql = DISPATCH_LEVEL, cpu_Locked = True\<rparr> = Some (cpu_Irql c, c)"
    using level_cases [of lowest "cpu_Irql c"]
    by (cases c) (auto simp: lock_defs)
qed

text \<open>
  Any number of sections under the lock, with the bound of the interrupt level carried
  from one to the next as the callers do, leave the processor at the level it had and without
  the lock, and the bound is then that level, for both builds of the helpers.
\<close>

theorem lock_sections_restore_level:
  assumes "lowest \<le> cpu_Irql c" "cpu_Irql c \<le> DISPATCH_LEVEL" "\<not> cpu_Locked c" "0 < n"
  shows "sections QCacheAcquireLock_x64 QCacheReleaseLock_x64 n lowest h c = Some (cpu_Irql c, c) \<and>
     sections QCacheAcquireLock_macro QCacheReleaseLock_macro n lowest h c = Some (cpu_Irql c, c)"
  using x64.sections_restore [OF assms] x86.sections_restore [OF assms] by simp

end
