(* ===== verification/ScsiChk_Witness.thy ===== *)
theory ScsiChk_Witness
  imports ScsiChk_Log WrFltCmd QC_Lock
begin

section \<open>A concrete disk under the logger, and the properties on it\<close>

text \<open>
  A disk of a machine with two processors, attached by the driver and registered; a read, a
  write and a SCSI request to it and their answers. The properties of the logger, the log reader,
  the utility and the lock helpers are applied to them.
\<close>

subsection \<open>The disk and its requests\<close>

definition ok_env :: sc_env where
  "ok_env = \<lparr>se_acquire = STATUS_SUCCESS, se_processor = 1, se_clock = 1000, se_query_clock = 1000, se_frequency = 10000000,
     se_system_time = 5000, se_call = STATUS_PENDING, se_irql = 0, se_log_address = Some 0x1000,
     se_mdl_mapped = True, se_address_valid = True\<rparr>"

definition two_processors :: sc_attach_env where
  "two_processors = \<lparr>sa_create_status = STATUS_SUCCESS, sa_clock = 100, sa_processors = 2,
     sa_counters_alloc = True, sa_error_alloc = True, sa_attached = True\<rparr>"

definition bare_disk :: sc_world where
  "bare_disk = \<lparr>sw_ext = sc_new_extension two_processors, sw_Completed = [], sw_SentDown = [], sw_InFlight = []\<rparr>"

definition disk_world :: sc_world where
  "disk_world = upd_ext (\<lambda>x. set_name (RtlStringCbPrintfW (sx_PhysicalDeviceNameBuffer x) (disk_name 0 1))
     (x\<lparr>sx_CountersEnabled := 1\<rparr>)) bare_disk"

definition plain_srb :: srb_values where
  "plain_srb = \<lparr>srb_Function = 0, srb_Cdb = 0x12 # replicate 15 0, srb_DataTransferLength = 4,
     srb_ScsiStatus = 0, srb_SenseInfoBufferLength = 0, srb_SenseInfoBuffer = [], srb_SystemStatus = 0,
     srb_SrbStatus = 1, srb_DataBuffer = Some [1, 2, 3, 0]\<rparr>"

definition sc_request :: "nat \<Rightarrow> UCHAR \<Rightarrow> sc_irp" where
  "sc_request n mf = \<lparr>si_id = n, si_MajorFunction = mf, si_MinorFunction = 0,
     si_IoStatus = \<lparr>isb_Status = 0, isb_Information = 0\<rparr>, si_Flags = 0, si_TimeStamp = 0, si_IoControlCode = 0,
     si_OutputBufferLength = 0, si_Srb = plain_srb, si_SystemBuffer = None, si_MdlAddress = None,
     si_Performance = None\<rparr>"

definition wmi_example :: wmi_library where
  "wmi_example = \<lparr>wl_sizeof = 88, wl_callback = NoCallback, wl_disposition = IrpForward, wl_status = 0\<rparr>"

definition ok_status :: "ULONG_PTR \<Rightarrow> IO_STATUS_BLOCK" where
  "ok_status n = \<lparr>isb_Status = STATUS_SUCCESS, isb_Information = n\<rparr>"

lemma ok_env_valid: "valid_clock ok_env" "wmi_ok wmi_example" "NT_SUCCESS (se_acquire ok_env)"
  by (simp_all add: valid_clock_def ok_env_def wmi_ok_def wmi_example_def word_sless_alt)

lemma bare_disk_started: "sc_started bare_disk" "counting bare_disk"
  by (simp_all add: sc_started_def bare_disk_def counters_ok_def sc_new_extension_def two_processors_def counting_def)

subsection \<open>A read and a write are counted\<close>

definition read_started :: sc_irp where
  "read_started = (sc_request 1 IRP_MJ_READ)\<lparr>si_TimeStamp := 1000\<rparr>"

definition counted_events :: "sc_event list" where
  "counted_events = [Arrives wmi_example ok_env (sc_request 1 IRP_MJ_READ),
     Answered (ok_env\<lparr>se_clock := 1250, se_processor := 0\<rparr>) read_started (ok_status 4096) plain_srb]"

definition counted_world :: sc_world where
  "counted_world = the (sc_run counted_events disk_world)"

lemma disk_name_start: "RtlStringCbPrintfW (replicate 64 0) (disk_name 0 1) ! 0 \<noteq> 0"
proof -
  let ?s = "take 63 (disk_name 0 1)"
  have h: "disk_name 0 1 \<noteq> []" "disk_name 0 1 ! 0 = 0x5C"
    by (simp_all add: disk_name_def wide_def backslash_def)
  then have "(?s @ r) ! 0 = 0x5C" for r
    by (simp add: nth_append)
  then show ?thesis by (simp add: RtlStringCbPrintfW_def store_string_def)
qed

lemma counted_runs: "\<exists>w. sc_run counted_events disk_world = Some w"
  using disk_name_start
  by (simp add: counted_events_def disk_world_def bare_disk_def sc_dispatch_def ScsiChkReadWrite_def sc_simps
      ok_env_def sc_request_def current_counters_def sc_new_extension_def two_processors_def
      upd_counters_def set_name_def sc_answer_def ScsiChkIoCompletion_def leave_queue_eq read_started_def
      count_completion_def Let_def word_sle_eq word_sless_alt)

lemma counted_run: "sc_run counted_events disk_world = Some counted_world"
  using counted_runs by (auto simp: counted_world_def)

lemma disk_world_ok: "counting disk_world" "sc_started disk_world" "sx_Processors (sw_ext disk_world) = 2"
  "device_totals (sw_ext disk_world) = 0"
proof -
  have "length (RtlStringCbPrintfW (replicate 64 0) (disk_name 0 1)) = 64"
    using disk_name_fits(1) [of 0 1] by (simp add: RtlStringCbPrintfW_def store_string_def)
  then show "counting disk_world" "sc_started disk_world" "sx_Processors (sw_ext disk_world) = 2"
    by (simp_all add: disk_world_def bare_disk_def sc_simps set_name_def sc_started_def counters_ok_def
        sc_new_extension_def two_processors_def counting_def)
  show "device_totals (sw_ext disk_world) = 0"
    using zero_totals
    by (simp add: device_totals_def disk_world_def bare_disk_def sc_simps set_name_def sc_new_extension_def)
qed

lemma counted_totals: "(\<Sum>ev\<leftarrow>counted_events. event_totals 2 ev) = Totals 4096 0 1 0 250 0 0"
  by (simp add: counted_events_def contribution_def read_started_def sc_request_def ok_env_def ok_status_def
      io_totals_simps Let_def)

lemma counted_plain: "plain_arrivals counted_events"
  by (auto simp: plain_arrivals_def counted_events_def sc_request_def)

theorem counters_exact_witness:
  "\<exists>t. query_performance ok_env (sw_ext counted_world) = Some t \<and> dp_ReadCount t = 1 \<and> dp_BytesRead t = 4096 \<and>
     t_ReadTime (device_totals (sw_ext counted_world)) = 250"
proof -
  have "counting counted_world" using run_totals [OF counted_run disk_world_ok(1)] by simp
  then obtain t where t: "query_performance ok_env (sw_ext counted_world) = Some t"
    using queries_exist(1) [OF ok_env_valid(1)] by (auto simp: counting_def)
  have "expected_totals counted_events disk_world 0 = Totals 4096 0 1 0 250 0 0"
    using expected_sum [OF counted_run disk_world_ok(1) counted_plain, of 0] disk_world_ok(3) counted_totals by simp
  with counters_exact [OF counted_run disk_world_ok(1) t] t disk_world_ok(4) show ?thesis by simp
qed

subsection \<open>A request in flight while collection is enabled\<close>

definition enabling_wmi :: wmi_library where
  "enabling_wmi = \<lparr>wl_sizeof = 88, wl_callback = FunctionControl 0 True True, wl_disposition = IrpProcessed,
     wl_status = 0\<rparr>"

definition enabled_world :: sc_world where
  "enabled_world = the (sc_run [Arrives wmi_example ok_env (sc_request 1 IRP_MJ_SCSI),
     Arrives enabling_wmi ok_env (sc_request 2 IRP_MJ_SYSTEM_CONTROL)] bare_disk)"

lemma enabled_state:
  "length (sw_InFlight enabled_world) = 1" "counters_ok (sw_ext enabled_world)"
  "sx_QueueDepth (sw_ext enabled_world) = 0" "sx_EnabledAlways (sw_ext enabled_world) = 0"
  by (simp_all add: enabled_world_def enabling_wmi_def bare_disk_def sc_dispatch_def ScsiChkScsi_def ScsiChkWmi_def
      run_callback_def DiskperfWmiFunctionControl_def wmi_data_block_control_def reset_counters_def counters_ok_def
      sc_simps ok_env_def sc_request_def current_counters_def sc_new_extension_def two_processors_def)

theorem queue_depth_race_witness:
  "length (sw_InFlight enabled_world) = 1 \<and>
   (\<exists>q x1 y q' z. depth_decrement (sw_ext enabled_world) = (q, x1) \<and> enable_always ok_env x1 = Some y \<and>
      depth_correct q y = (q', z) \<and> sx_QueueDepth (note_idle ok_env q' z) = 1)"
proof -
  obtain q x1 y q' z where "depth_decrement (sw_ext enabled_world) = (q, x1)" "enable_always ok_env x1 = Some y"
    "depth_correct q y = (q', z)" "\<forall>n. sx_QueueDepth ((served_alone ok_env ^^ n) (note_idle ok_env q' z)) = 1"
    using queue_depth_race [OF enabled_state(2,3,4), of ok_env ok_env] by blast
  moreover from this(4) have "sx_QueueDepth (note_idle ok_env q' z) = 1"
    by (metis funpow_0)
  ultimately show ?thesis using enabled_state(1) by blast
qed

subsection \<open>The invariant\<close>

definition reading_world :: sc_world where
  "reading_world = snd (the (sc_dispatch wmi_example (ok_env, sc_request 1 IRP_MJ_READ) disk_world))"

lemma reading_dispatch:
  "\<exists>st. sc_dispatch wmi_example (ok_env, sc_request 1 IRP_MJ_READ) disk_world = Some (st, reading_world)"
proof -
  have "counters_ok (sw_ext disk_world)" using disk_world_ok(1) by (simp add: counting_def)
  from dispatch_cases [OF this ok_env_valid(1,2)] obtain st w where
    "sc_dispatch wmi_example (ok_env, sc_request 1 IRP_MJ_READ) disk_world = Some (st, w)" by blast
  then show ?thesis by (simp add: reading_world_def)
qed

lemma reading_step: "sc_step disk_world reading_world"
proof -
  obtain st where "sc_dispatch wmi_example (ok_env, sc_request 1 IRP_MJ_READ) disk_world = Some (st, reading_world)"
    using reading_dispatch by blast
  moreover have "length (sw_InFlight disk_world) < 2147483647"
    using disk_world_ok(2) by (simp add: sc_started_def)
  ultimately show ?thesis using ok_env_valid(1,2) by (intro sc_step.arrive)
qed

lemma reading_counts: "counting reading_world" "sx_Processors (sw_ext reading_world) = 2"
proof -
  obtain st where "sc_dispatch wmi_example (ok_env, sc_request 1 IRP_MJ_READ) disk_world = Some (st, reading_world)"
    using reading_dispatch by blast
  from dispatch_totals [OF this disk_world_ok(1)] show "counting reading_world"
    "sx_Processors (sw_ext reading_world) = 2"
    using disk_world_ok(3) by (simp_all add: totals_become_def)
qed

theorem logger_state_invariant_witness:
  "sx_RemoveLock (sw_ext reading_world) = length (sw_InFlight reading_world) \<and>
   log_chain (sx_LogData (sw_ext reading_world))"
  using logger_state_invariant [OF r_into_rtranclp, OF reading_step disk_world_ok(2)] by simp

theorem logger_owns_requests_once_witness:
  "\<exists>w'. run_requests (sc_dispatch wmi_example)
       [(ok_env, sc_request 1 IRP_MJ_READ), (ok_env, sc_request 2 IRP_MJ_SCSI)] bare_disk = Some w' \<and>
     sc_owned w' = {#1, 2#}"
proof -
  have "sc_owned bare_disk = {#}" "counters_ok (sw_ext bare_disk)"
    using bare_disk_started(2) by (simp_all add: sc_owned_def bare_disk_def counting_def)
  from logger_owns_requests_once [OF ok_env_valid(2) this(2,1),
      of "[(ok_env, sc_request 1 IRP_MJ_READ), (ok_env, sc_request 2 IRP_MJ_SCSI)]"] ok_env_valid(1)
  show ?thesis by (auto simp: sc_request_def)
qed

subsection \<open>Removal\<close>

definition sc_pnp :: sc_pnp_env where
  "sc_pnp = \<lparr>sp_env = ok_env, sp_target_Characteristics = 0, sp_forward_status = 0, sp_final_status = 0,
     sp_register = undefined\<rparr>"

definition working_file :: log_file_env where
  "working_file = \<lparr>lf_create = STATUS_SUCCESS, lf_write = (\<lambda>_. STATUS_SUCCESS)\<rparr>"

definition logged_disk :: "sc_world \<Rightarrow> sc_device" where
  "logged_disk w = \<lparr>sd_world = snd (sc_acquire ok_env w), sd_Flags = 0, sd_Characteristics = 0,
     sd_Attached = True, sd_Deleted = False, sd_ErrorLog = [], sd_Registered = True\<rparr>"

theorem late_transfer_faults_witness:
  "ScsiChkRemoveDevice sc_pnp working_file [(ok_env, read_started, ok_status 0, plain_srb)]
     (sc_request 9 IRP_MJ_PNP) (logged_disk reading_world) = None"
proof -
  have "sd_ext (logged_disk reading_world) =
      (sw_ext reading_world)\<lparr>sx_RemoveLock := Suc (sx_RemoveLock (sw_ext reading_world))\<rparr>"
    using ok_env_valid(3) by (simp add: logged_disk_def acquire_cases)
  then show ?thesis
    using reading_counts
    by (intro late_transfer_faults) (simp_all add: is_transfer_def read_started_def sc_request_def counting_def ok_env_def)
qed

definition inquiry_answer :: sc_env where
  "inquiry_answer = ok_env\<lparr>se_clock := 1300\<rparr>"

definition scsi_events :: "sc_event list" where
  "scsi_events = [Arrives wmi_example ok_env (sc_request 2 IRP_MJ_SCSI),
     Answered inquiry_answer (sc_request 2 IRP_MJ_SCSI) (ok_status 4) plain_srb]"

definition scsi_world :: sc_world where
  "scsi_world = the (sc_run scsi_events bare_disk)"

lemma scsi_runs: "\<exists>w. sc_run scsi_events bare_disk = Some w \<and> sw_InFlight w = []"
  by (simp add: scsi_events_def bare_disk_def sc_dispatch_def ScsiChkScsi_def sc_simps inquiry_answer_def
      ok_env_def sc_request_def current_counters_def sc_new_extension_def two_processors_def
      sc_answer_def ScsiChkIoCompletion_def leave_queue_eq count_completion_def build_log_def plain_srb_def
      log_data_buffer_def log_record_length_def offset_Data_def sizeof_CDB_def RtlCopyMemory_def Let_def)

lemma scsi_run: "sc_run scsi_events bare_disk = Some scsi_world" "sw_InFlight scsi_world = []"
  using scsi_runs by (auto simp: scsi_world_def)

lemma scsi_log: "concat (map (event_log 2) scsi_events) \<noteq> []"
  by (simp add: scsi_events_def inquiry_answer_def ok_env_def sc_request_def build_log_def plain_srb_def
      log_data_buffer_def log_record_length_def offset_Data_def sizeof_CDB_def RtlCopyMemory_def Let_def)

theorem logged_requests_are_shown_witness:
  "\<exists>st f D'. ScsiChkRemoveDevice sc_pnp working_file [] (sc_request 9 IRP_MJ_PNP) (logged_disk scsi_world) = Some (st, Some f, D') \<and>
     ShowFileInfo 100 (Some (fl_Contents f)) =
       Shown (rev (map shown_of (concat (map (event_log 2) scsi_events))) @ [shown_of zero_record])"
proof -
  have z: "zero_records 100 = 1" by (simp add: zero_records_def sizeof_LOGDATA_def offset_Data_def)
  have n: "sx_Processors (sw_ext bare_disk) = 2"
    by (simp add: bare_disk_def sc_new_extension_def two_processors_def)
  have v: "list_all (\<lambda>ev. case ev of Arrives wl e i \<Rightarrow> valid_clock e \<and> wmi_ok wl | _ \<Rightarrow> True) scsi_events"
    using ok_env_valid by (simp add: scsi_events_def)
  show ?thesis
    using logged_requests_are_shown [OF scsi_run(1) bare_disk_started(1) _ _ v scsi_run(2) scsi_log [folded n],
        of 100 working_file sc_pnp "logged_disk scsi_world"] bare_disk_started(2)
    by (simp add: z n counting_def scsi_events_def working_file_def sc_pnp_def logged_disk_def ok_env_valid)
qed

theorem last_record_not_shown_witness:
  "ShowFileInfo 0 (Some (concat (map log_bytes [zero_record]))) = Shown []"
  using last_record_not_shown [of "[]" zero_record 0] zero_record_wf by (simp add: zero_record_def)

subsection \<open>Notifications and names\<close>

theorem paging_notifications_race_witness:
  "\<exists>D p D1 q D2. usage_before False D = Some (p, D1) \<and> usage_before True D1 = Some (q, D2) \<and>
     sd_paging (usage_after False p 0 (usage_after True q 0 D2)) = 1 \<and>
     has_flag (sd_Flags (usage_after False p 0 (usage_after True q 0 D2))) DO_POWER_PAGABLE"
proof -
  let ?D = "sd_upd (\<lambda>x. x\<lparr>sx_PagingPathCount := 1\<rparr>) (logged_disk bare_disk)"
  have "sx_PagingPathCountEvent (sd_ext ?D)" "sd_paging ?D = 1"
    "\<not> has_flag (sd_Flags ?D) DO_POWER_INRUSH" "\<not> has_flag (sd_Flags ?D) DO_POWER_PAGABLE"
    using ok_env_valid(3)
    by (simp_all add: sc_simps logged_disk_def bare_disk_def sc_new_extension_def sd_paging_def has_flag_def)
  from paging_notifications_race [OF this(1,2) nt_success_values(1) nt_success_values(1) this(3,4)] show ?thesis by fast
qed

definition volume_answers :: register_env where
  "volume_answers =
     (let a = \<lparr>na_irp = True, na_status = STATUS_BUFFER_OVERFLOW, na_NameLength = 4, na_Name = []\<rparr>
      in \<lparr>rg_error_alloc = True, rg_number_irp = True, rg_number_status = STATUS_UNSUCCESSFUL, rg_DeviceNumber = 0,
          rg_PartitionNumber = 0, rg_first_alloc = True, rg_first = a, rg_second_alloc = True,
          rg_second = a\<lparr>na_status := STATUS_SUCCESS, na_Name := [0x43, 0x31]\<rparr>, rg_volume_irp = True,
          rg_volume_status = STATUS_SUCCESS, rg_VolumeNumber = 1, rg_VolumeManagerName = replicate 8 0,
          rg_wmi_status = STATUS_SUCCESS\<rparr>)"

theorem volume_name_truncated_witness:
  "\<exists>st D'. ScsiChkRegisterDevice volume_answers (logged_disk bare_disk) = Some (st, D') \<and>
     sx_PhysicalDeviceName (sd_ext D') = [0x43]"
  using volume_name_truncated [of volume_answers "[0x43, 0x31]" "[]" "logged_disk bare_disk"]
  by (simp add: volume_answers_def Let_def)

subsection \<open>The utility and the lock\<close>

definition utility_system :: cmd_system where
  "utility_system = \<lparr>cs_memory = NormalMemory, cs_opens = (\<lambda>_ _. True), cs_overlapped = True,
     cs_control = (\<lambda>_. ControlPending), cs_statistics = zero_statistics, cs_waits = Some 1, cs_result = True\<rparr>"

theorem utility_sends_its_request_witness:
  "wmain utility_system [''wrfltcmd'', ''Flush'', ''C:''] =
     Some (0, [MemoryState NormalMemory, OpenDevice (device_path ''C:'') 0xC0000000, SendControl IOCTL_QCACHE_FLUSH,
       WaitChar 0x2D, CompletedSuccessfully])"
proof -
  have "command_code ''Flush'' = Some IOCTL_QCACHE_FLUSH"
    by code_simp
  from utility_sends_its_request [OF this, of utility_system "''C:''" "''wrfltcmd''"] show ?thesis
    by (simp add: utility_system_def NextWaitChar_def)
qed

theorem lock_sections_restore_level_witness:
  "sections QCacheAcquireLock_x64 QCacheReleaseLock_x64 2 PASSIVE_LEVEL \<lparr>lh_OldIrql = 0\<rparr> \<lparr>cpu_Irql = 1, cpu_Locked = False\<rparr> =
     Some (1, \<lparr>cpu_Irql = 1, cpu_Locked = False\<rparr>)"
  using lock_sections_restore_level [of PASSIVE_LEVEL "\<lparr>cpu_Irql = 1, cpu_Locked = False\<rparr>" 2 "\<lparr>lh_OldIrql = 0\<rparr>"]
  by simp

end
