(* ===== verification/QC_Mdl.thy ===== *)
theory QC_Mdl
  imports QC_Prelude
begin

section \<open>Releasing a lower request with its memory descriptor lists\<close>

text \<open>
  \<open>QCacheFreeIrpWithMdls\<close> of \<open>src/qcache/qcache.h\<close>: it follows the chain of descriptor lists of
  a request, unlocks the pages of those that are locked, frees each and then the request. The
  pool maps the numbers of live descriptors and of live requests to their contents; using one
  that is not live is a fault (\<open>None\<close>). The walk reads the link before it frees a descriptor,
  so a circular chain leads to a freed one and is a fault, too.
\<close>

record MDL =
  mdl_Next :: "nat option"
  mdl_PagesLocked :: bool

record mdl_pool =
  mp_Mdls :: "nat \<rightharpoonup> MDL"
  mp_Irps :: "nat \<rightharpoonup> nat option"
  mp_Unlocked :: "nat list"

definition MmUnlockPages :: "nat \<Rightarrow> mdl_pool \<Rightarrow> mdl_pool" where
  "MmUnlockPages a p = p\<lparr>mp_Unlocked := mp_Unlocked p @ [a]\<rparr>"

definition IoFreeMdl :: "nat \<Rightarrow> mdl_pool \<Rightarrow> mdl_pool" where
  "IoFreeMdl a p = p\<lparr>mp_Mdls := (mp_Mdls p)(a := None)\<rparr>"

partial_function (option) free_mdls :: "nat option \<Rightarrow> mdl_pool \<Rightarrow> mdl_pool option" where
  "free_mdls m p =
     (case m of
        None \<Rightarrow> Some p
      | Some a \<Rightarrow>
          (case mp_Mdls p a of
             None \<Rightarrow> None
           | Some d \<Rightarrow>
               free_mdls (mdl_Next d) (IoFreeMdl a (if mdl_PagesLocked d then MmUnlockPages a p else p))))"

definition QCacheFreeIrpWithMdls :: "nat \<Rightarrow> mdl_pool \<Rightarrow> mdl_pool option" where
  "QCacheFreeIrpWithMdls irp p = do {
     first \<leftarrow> mp_Irps p irp;
     p1 \<leftarrow> free_mdls first p;
     Some (p1\<lparr>mp_Irps := (mp_Irps p1)(irp := None)\<rparr>)
   }"

subsection \<open>Chains\<close>

fun mdl_chain :: "(nat \<rightharpoonup> MDL) \<Rightarrow> nat option \<Rightarrow> nat list \<Rightarrow> bool" where
  "mdl_chain h None as = (as = [])"
| "mdl_chain h (Some a) [] = False"
| "mdl_chain h (Some a) (b # as) =
     (a = b \<and> (case h a of None \<Rightarrow> False | Some d \<Rightarrow> mdl_chain h (mdl_Next d) as))"

definition locked_in :: "(nat \<rightharpoonup> MDL) \<Rightarrow> nat \<Rightarrow> bool" where
  "locked_in h a \<longleftrightarrow> (case h a of None \<Rightarrow> False | Some d \<Rightarrow> mdl_PagesLocked d)"

lemma mdl_chain_update: "c \<notin> set as \<Longrightarrow> mdl_chain (h(c := x)) m as = mdl_chain h m as"
  by (induction h m as rule: mdl_chain.induct) (auto split: option.splits)

text \<open>A walk over a chain returns, and frees exactly the chain.\<close>

lemma free_mdls_chain:
  "mdl_chain (mp_Mdls p) m as \<Longrightarrow> distinct as \<Longrightarrow>
   free_mdls m p = Some (p\<lparr>mp_Mdls := mp_Mdls p |` (- set as),
                           mp_Unlocked := mp_Unlocked p @ filter (locked_in (mp_Mdls p)) as\<rparr>)"
proof (induction as arbitrary: m p)
  case Nil
  then have "m = None" by (cases m) auto
  then show ?case by (subst free_mdls.simps) (simp add: restrict_map_def)
next
  case (Cons a as)
  then obtain d where m: "m = Some a" and d: "mp_Mdls p a = Some d" "mdl_chain (mp_Mdls p) (mdl_Next d) as"
    by (cases m) (auto split: option.splits)
  define q where "q = IoFreeMdl a (if mdl_PagesLocked d then MmUnlockPages a p else p)"
  have h: "mp_Mdls q = (mp_Mdls p)(a := None)"
    and u: "mp_Unlocked q = mp_Unlocked p @ (if mdl_PagesLocked d then [a] else [])"
    and irps: "mp_Irps q = mp_Irps p"
    by (simp_all add: q_def IoFreeMdl_def MmUnlockPages_def)
  have "filter (locked_in (mp_Mdls q)) as = filter (locked_in (mp_Mdls p)) as"
    using Cons.prems(2) by (intro filter_cong) (auto simp: locked_in_def h)
  moreover have "mp_Mdls q |` (- set as) = mp_Mdls p |` (- set (a # as))"
    by (auto simp: restrict_map_def h)
  moreover have "mdl_chain (mp_Mdls q) (mdl_Next d) as"
    using d(2) Cons.prems(2) by (simp only: h mdl_chain_update distinct.simps simp_thms)
  ultimately have "free_mdls (mdl_Next d) q =
      Some (q\<lparr>mp_Mdls := mp_Mdls p |` (- set (a # as)),
              mp_Unlocked := mp_Unlocked q @ filter (locked_in (mp_Mdls p)) as\<rparr>)"
    using Cons.IH [of q "mdl_Next d"] Cons.prems(2) by simp
  moreover have "free_mdls m p = free_mdls (mdl_Next d) q"
    by (subst free_mdls.simps) (simp add: m d(1) q_def)
  moreover have "q\<lparr>mp_Mdls := x, mp_Unlocked := mp_Unlocked q @ ys\<rparr> =
      p\<lparr>mp_Mdls := x, mp_Unlocked := mp_Unlocked p @ (if mdl_PagesLocked d then a # ys else ys)\<rparr>" for x ys
    using u irps by (cases q; cases p) simp
  ultimately show ?case using d(1) by (simp add: locked_in_def [of _ a])
qed

lemma request_freed_with_mdls:
  assumes "mp_Irps p irp = Some first" "mdl_chain (mp_Mdls p) first as" "distinct as"
  shows "QCacheFreeIrpWithMdls irp p =
     Some \<lparr>mp_Mdls = mp_Mdls p |` (- set as), mp_Irps = (mp_Irps p)(irp := None),
           mp_Unlocked = mp_Unlocked p @ filter (locked_in (mp_Mdls p)) as\<rparr>"
  using assms(1) free_mdls_chain [OF assms(2,3)] by (simp add: QCacheFreeIrpWithMdls_def)

text \<open>A request cannot be freed twice, nor two requests that share a descriptor.\<close>

lemma request_freed_once:
  "QCacheFreeIrpWithMdls irp p = Some p' \<Longrightarrow> mp_Irps p' irp = None \<and> QCacheFreeIrpWithMdls irp p' = None"
  by (auto simp: QCacheFreeIrpWithMdls_def bind_eq_Some_conv)

lemma shared_mdl_faults:
  assumes "mp_Irps p irp = Some first" "mdl_chain (mp_Mdls p) first as" "distinct as"
    and "other \<noteq> irp" "mp_Irps p other = Some (Some a)" "a \<in> set as"
  shows "\<exists>p'. QCacheFreeIrpWithMdls irp p = Some p' \<and> QCacheFreeIrpWithMdls other p' = None"
proof -
  have "free_mdls (Some a) q = None" if "mp_Mdls q a = None" for q
    using that by (subst free_mdls.simps) simp
  then show ?thesis
    using assms(4-6) request_freed_with_mdls [OF assms(1-3)] by (simp add: QCacheFreeIrpWithMdls_def)
qed

end
