(* ===== verification/Forwarding.thy ===== *)
theory Forwarding
  imports ScsiChk_Device QC_Example
begin

section \<open>Synchronous requests to the lower driver\<close>

text \<open>
  Both drivers send requests down and wait for them: a completion routine sets an event on the
  stack of the caller and keeps the I/O manager from going on with the completion. The models of
  the callers treat such a call as one operation; here it is taken apart into the steps of the
  caller and of the lower driver, which may complete the request inside the call or at any time
  after it. The calls of both drivers give the results of the operations they are modelled by,
  and the routine never meets an event that is gone.
\<close>

subsection \<open>The completion routines\<close>

abbreviation (input) STATUS_MORE_PROCESSING_REQUIRED :: NTSTATUS where
  "STATUS_MORE_PROCESSING_REQUIRED \<equiv> 0xC0000016"

text \<open>The context is the event, or null.\<close>

type_synonym completion_routine = "bool option \<Rightarrow> NTSTATUS \<times> bool option"

definition QCacheSynchronousIrpCompletion :: completion_routine where
  "QCacheSynchronousIrpCompletion context =
     (STATUS_MORE_PROCESSING_REQUIRED, case context of None \<Rightarrow> None | Some event \<Rightarrow> Some True)"

definition ScsiChkIrpCompletion :: completion_routine where
  "ScsiChkIrpCompletion context =
     (STATUS_MORE_PROCESSING_REQUIRED, case context of None \<Rightarrow> None | Some event \<Rightarrow> Some True)"

subsection \<open>The call in steps\<close>

text \<open>
  \<open>Called\<close> holds what \<open>IoCallDriver\<close> returned, \<open>Back\<close> the variable \<open>status\<close> after the test and
  the wait. When the caller has \<open>Returned\<close>, event and own request are gone. \<open>fw_Done\<close> says that
  the lower driver completed the request, \<open>fw_PassedOn\<close> that the I/O manager went on upwards.
\<close>

datatype caller = Calling | Called NTSTATUS | Sleeping | Back NTSTATUS | Returned NTSTATUS

record sync_call =
  fw_Caller :: caller
  fw_Event :: bool
  fw_IoStatus :: NTSTATUS
  fw_Done :: bool
  fw_PassedOn :: bool

definition lower_completes :: "completion_routine \<Rightarrow> NTSTATUS \<Rightarrow> sync_call \<Rightarrow> sync_call option" where
  "lower_completes R final s =
     (case fw_Caller s of
        Returned _ \<Rightarrow> None
      | _ \<Rightarrow>
          (case R (Some (fw_Event s)) of (result, event) \<Rightarrow>
             Some (s\<lparr>fw_IoStatus := final, fw_Done := True, fw_Event := (event = Some True),
                     fw_PassedOn := (result \<noteq> STATUS_MORE_PROCESSING_REQUIRED)\<rparr>)))"

text \<open>
  \<open>own\<close>: \<open>QCacheSynchronousDeviceControl\<close> and \<open>QCacheSynchronousReadWrite\<close> take the status from the
  request whatever the call returned; the forwarding routines of both drivers do so after a wait.
\<close>

definition caller_step :: "bool \<Rightarrow> sync_call \<Rightarrow> sync_call option" where
  "caller_step own s =
     (case fw_Caller s of
        Called st \<Rightarrow> Some (s\<lparr>fw_Caller := (if st = STATUS_PENDING then Sleeping else Back st)\<rparr>)
      | Sleeping \<Rightarrow>
          if fw_Event s
          then Some (s\<lparr>fw_Caller := Back (if own then STATUS_PENDING else fw_IoStatus s)\<rparr>)
          else None
      | Back st \<Rightarrow> Some (s\<lparr>fw_Caller := Returned (if own then fw_IoStatus s else st)\<rparr>)
      | _ \<Rightarrow> None)"

text \<open>
  The lower driver completes the request once, with the status \<open>final\<close>; its dispatch routine
  returns \<open>returned\<close>, and only \<open>STATUS_PENDING\<close> while the request is not completed. That is the rule
  for dispatch routines.
\<close>

inductive call_step :: "completion_routine \<Rightarrow> bool \<Rightarrow> NTSTATUS \<Rightarrow> NTSTATUS \<Rightarrow> sync_call \<Rightarrow> sync_call \<Rightarrow> bool"
  for R own returned final where
  completes: "\<not> fw_Done s \<Longrightarrow> lower_completes R final s = Some s' \<Longrightarrow> call_step R own returned final s s'"
| returns: "fw_Caller s = Calling \<Longrightarrow> fw_Done s \<or> returned = STATUS_PENDING \<Longrightarrow>
     call_step R own returned final s (s\<lparr>fw_Caller := Called returned\<rparr>)"
| continues: "caller_step own s = Some s' \<Longrightarrow> call_step R own returned final s s'"

definition call_start :: "NTSTATUS \<Rightarrow> sync_call" where
  "call_start st = \<lparr>fw_Caller = Calling, fw_Event = False, fw_IoStatus = st, fw_Done = False, fw_PassedOn = False\<rparr>"

definition call_reaches :: "completion_routine \<Rightarrow> bool \<Rightarrow> NTSTATUS \<Rightarrow> NTSTATUS \<Rightarrow> sync_call \<Rightarrow> bool" where
  "call_reaches R own returned final s \<longleftrightarrow>
     (\<exists>st. (call_step R own returned final)\<^sup>*\<^sup>* (call_start st) s)"

subsection \<open>What any such routine gives\<close>

definition call_result :: "bool \<Rightarrow> NTSTATUS \<Rightarrow> NTSTATUS \<Rightarrow> NTSTATUS" where
  "call_result own returned final = (if own \<or> returned = STATUS_PENDING then final else returned)"

definition call_ok :: "bool \<Rightarrow> NTSTATUS \<Rightarrow> NTSTATUS \<Rightarrow> sync_call \<Rightarrow> bool" where
  "call_ok own returned final s \<longleftrightarrow>
     (fw_Event s \<longleftrightarrow> fw_Done s) \<and> (fw_Done s \<longrightarrow> fw_IoStatus s = final) \<and> \<not> fw_PassedOn s \<and>
     (case fw_Caller s of
        Calling \<Rightarrow> True
      | Called st \<Rightarrow> st = returned \<and> (fw_Done s \<or> returned = STATUS_PENDING)
      | Sleeping \<Rightarrow> returned = STATUS_PENDING
      | Back st \<Rightarrow> fw_Done s \<and> (if own then final else st) = call_result own returned final
      | Returned r \<Rightarrow> fw_Done s \<and> r = call_result own returned final)"

text \<open>The steps that are left, the lower driver's included.\<close>

definition call_left :: "sync_call \<Rightarrow> nat" where
  "call_left s =
     (case fw_Caller s of Calling \<Rightarrow> 4 | Called _ \<Rightarrow> 3 | Sleeping \<Rightarrow> 2 | Back _ \<Rightarrow> 1 | Returned _ \<Rightarrow> 0)
     + of_bool (\<not> fw_Done s)"

locale waking_routine =
  fixes R :: completion_routine
  assumes wakes: "R (Some event) = (STATUS_MORE_PROCESSING_REQUIRED, Some True)"
    and no_event: "R None = (STATUS_MORE_PROCESSING_REQUIRED, None)"
begin

lemma completes_eq:
  "lower_completes R final s =
     (if \<exists>r. fw_Caller s = Returned r then None
      else Some (s\<lparr>fw_IoStatus := final, fw_Done := True, fw_Event := True, fw_PassedOn := False\<rparr>))"
  by (auto simp: lower_completes_def wakes split: caller.splits)

lemma step_ok:
  assumes "call_step R own returned final s s'" "call_ok own returned final s"
  shows "call_ok own returned final s' \<and> call_left s' < call_left s"
  using assms(1)
proof (cases rule: call_step.cases)
  case completes
  with assms(2) show ?thesis
    by (cases "fw_Caller s") (auto simp: completes_eq call_ok_def call_left_def)
next
  case returns
  with assms(2) show ?thesis by (simp add: call_ok_def call_left_def)
next
  case continues
  with assms(2) show ?thesis
    by (cases "fw_Caller s")
      (auto simp: caller_step_def call_ok_def call_left_def call_result_def split: if_splits)
qed

lemma reaches_ok: "call_reaches R own returned final s \<Longrightarrow> call_ok own returned final s"
proof -
  assume "call_reaches R own returned final s"
  then obtain st where "(call_step R own returned final)\<^sup>*\<^sup>* (call_start st) s" by (auto simp: call_reaches_def)
  then show ?thesis
  proof (induction rule: rtranclp_induct)
    case base
    show ?case by (simp add: call_ok_def call_start_def)
  next
    case (step y z)
    then show ?case using step_ok by blast
  qed
qed

lemma result:
  "call_reaches R own returned final s \<Longrightarrow> fw_Caller s = Returned r \<Longrightarrow>
   fw_Done s \<and> r = call_result own returned final"
  by (drule reaches_ok) (simp add: call_ok_def)

lemma alive:
  "call_reaches R own returned final s \<Longrightarrow> \<not> fw_Done s \<Longrightarrow> lower_completes R final s \<noteq> None"
  by (drule reaches_ok) (auto simp: call_ok_def completes_eq split: caller.splits)

lemma goes_on:
  assumes "call_reaches R own returned final s" "\<forall>r. fw_Caller s \<noteq> Returned r"
  shows "\<exists>s'. call_step R own returned final s s' \<and> call_left s' < call_left s"
proof -
  note ok = reaches_ok [OF assms(1)]
  have "\<exists>s'. call_step R own returned final s s'"
  proof (cases "fw_Done s")
    case False
    with alive [OF assms(1)] show ?thesis by (auto intro: call_step.completes)
  next
    case True
    with ok have e: "fw_Event s" by (simp add: call_ok_def)
    show ?thesis
    proof (cases "fw_Caller s")
      case Calling
      with True show ?thesis by (blast intro: call_step.returns)
    next
      case (Returned r)
      with assms(2) show ?thesis by simp
    qed (use e call_step.continues in \<open>force simp: caller_step_def\<close>)+
  qed
  with step_ok ok show ?thesis by blast
qed

end

interpretation qc: waking_routine QCacheSynchronousIrpCompletion
  by unfold_locales (simp_all add: QCacheSynchronousIrpCompletion_def)

interpretation sc: waking_routine ScsiChkIrpCompletion
  by unfold_locales (simp_all add: ScsiChkIrpCompletion_def)

subsection \<open>The calls of both drivers\<close>

text \<open>
  C31: A request that was forwarded synchronously: whatever the order of the steps of caller
  and lower driver, the completion routine finds its event and the I/O manager does not go on
  with the completion; as long as the call has not returned some step is possible, and every
  possible step brings it closer to its end (so it returns as long as the lower driver takes
  its steps, that is, completes the request); and it comes back with the status
  QCacheForwardIrpSynchronous has.
\<close>

theorem forwarded_call_returns:
  assumes "lw_forward (tg_lower T) i (lower w) = (returned, i', d)"
    and "call_reaches QCacheSynchronousIrpCompletion False returned (ir_Status i') s"
  shows "(case fw_Caller s of
        Returned r \<Rightarrow> fw_Done s \<and> r = fst (QCacheForwardIrpSynchronous T i w)
      | _ \<Rightarrow> \<exists>s'. call_step QCacheSynchronousIrpCompletion False returned (ir_Status i') s s') \<and>
     (\<forall>s'. call_step QCacheSynchronousIrpCompletion False returned (ir_Status i') s s' \<longrightarrow>
        call_left s' < call_left s) \<and>
     \<not> fw_PassedOn s \<and>
     (fw_Done s \<or> lower_completes QCacheSynchronousIrpCompletion (ir_Status i') s \<noteq> None)"
proof -
  have quiet: "\<not> fw_PassedOn s" using qc.reaches_ok [OF assms(2)] by (simp add: call_ok_def)
  have same: "fst (QCacheForwardIrpSynchronous T i w) = call_result False returned (ir_Status i')"
    by (simp add: QCacheForwardIrpSynchronous_def assms(1) call_result_def)
  have closer: "\<forall>s'. call_step QCacheSynchronousIrpCompletion False returned (ir_Status i') s s' \<longrightarrow>
      call_left s' < call_left s"
    using qc.step_ok [OF _ qc.reaches_ok [OF assms(2)]] by blast
  have on: "case fw_Caller s of
        Returned r \<Rightarrow> fw_Done s \<and> r = call_result False returned (ir_Status i')
      | _ \<Rightarrow> \<exists>s'. call_step QCacheSynchronousIrpCompletion False returned (ir_Status i') s s'"
  proof (cases "\<exists>r. fw_Caller s = Returned r")
    case True
    with qc.result [OF assms(2)] show ?thesis by auto
  next
    case False
    with qc.goes_on [OF assms(2)] obtain s' where
      "call_step QCacheSynchronousIrpCompletion False returned (ir_Status i') s s'" by blast
    with False show ?thesis by (cases "fw_Caller s") auto
  qed
  have "fw_Done s \<or> lower_completes QCacheSynchronousIrpCompletion (ir_Status i') s \<noteq> None"
    using qc.alive [OF assms(2)] by blast
  with on closer quiet show ?thesis unfolding same by (intro conjI)
qed

text \<open>The same for the requests of the driver's own, and for those the logger forwards.\<close>

lemma own_call_returns:
  assumes "tg_own T \<lparr>or_MajorFunction = mf, or_IoControlCode = code, or_OutputBufferLength = len\<rparr> d = (a, d')"
    and "call_reaches QCacheSynchronousIrpCompletion True returned (oa_Status a) s" "fw_Caller s = Returned r"
  shows "r = fst (QCacheSynchronousDeviceControl T True mf code len d)"
  using qc.result [OF assms(2,3)] assms(1) by (simp add: QCacheSynchronousDeviceControl_def call_result_def)

lemma own_transfer_returns:
  assumes "tg_own T \<lparr>or_MajorFunction = mf, or_IoControlCode = 0, or_OutputBufferLength = len\<rparr> d = (a, d')"
    and "call_reaches QCacheSynchronousIrpCompletion True returned (oa_Status a) s" "fw_Caller s = Returned r"
  shows "r = fst (QCacheSynchronousReadWrite T True mf len d)"
  using qc.result [OF assms(2,3)] assms(1) by (simp add: QCacheSynchronousReadWrite_def call_result_def)

lemma logger_call_returns:
  assumes "call_reaches ScsiChkIrpCompletion False (sp_forward_status p) (sp_final_status p) s"
    and "fw_Caller s = Returned r"
  shows "r = fst (ScsiChkForwardIrpSynchronous p i)"
  using sc.result [OF assms] by (simp add: ScsiChkForwardIrpSynchronous_def call_result_def Let_def)


subsection \<open>A lower driver that answers later\<close>

definition slow_stack :: "contents target_driver" where
  "slow_stack = disk_stack\<lparr>tg_lower := disk\<lparr>lw_forward :=
     (\<lambda>i d. (STATUS_PENDING, i\<lparr>ir_Status := STATUS_SUCCESS\<rparr>, d))\<rparr>\<rparr>"

text \<open>The call returns, the caller falls asleep, the request is completed, the caller wakes up.\<close>

lemma slow_call:
  "call_reaches QCacheSynchronousIrpCompletion False STATUS_PENDING STATUS_SUCCESS
     \<lparr>fw_Caller = Returned STATUS_SUCCESS, fw_Event = True, fw_IoStatus = STATUS_SUCCESS, fw_Done = True,
      fw_PassedOn = False\<rparr>"
proof -
  let ?R = "call_step QCacheSynchronousIrpCompletion False STATUS_PENDING STATUS_SUCCESS"
  let ?s = "\<lambda>c. \<lparr>fw_Caller = c, fw_Event = False, fw_IoStatus = STATUS_SUCCESS, fw_Done = False, fw_PassedOn = False\<rparr>"
  let ?t = "\<lambda>c. \<lparr>fw_Caller = c, fw_Event = True, fw_IoStatus = STATUS_SUCCESS, fw_Done = True, fw_PassedOn = False\<rparr>"
  have "?R (?s Calling) (?s (Called STATUS_PENDING))"
    using call_step.returns [of "?s Calling" STATUS_PENDING QCacheSynchronousIrpCompletion False STATUS_SUCCESS]
    by simp
  moreover have "?R (?s (Called STATUS_PENDING)) (?s Sleeping)"
    by (rule call_step.continues) (simp add: caller_step_def)
  moreover have "?R (?s Sleeping) (?t Sleeping)"
    by (rule call_step.completes) (simp_all add: qc.completes_eq)
  moreover have "?R (?t Sleeping) (?t (Back STATUS_SUCCESS))" "?R (?t (Back STATUS_SUCCESS)) (?t (Returned STATUS_SUCCESS))"
    by (rule call_step.continues; simp add: caller_step_def)+
  ultimately have "?R\<^sup>*\<^sup>* (?s Calling) (?t (Returned STATUS_SUCCESS))"
    by (meson converse_rtranclp_into_rtranclp rtranclp.rtrancl_refl)
  then show ?thesis unfolding call_reaches_def call_start_def by blast
qed

theorem forwarded_call_returns_witness:
  "\<exists>s. call_reaches QCacheSynchronousIrpCompletion False STATUS_PENDING STATUS_SUCCESS s \<and>
     fw_Caller s = Returned STATUS_SUCCESS \<and> fw_Done s \<and> \<not> fw_PassedOn s \<and>
     (\<forall>s'. call_step QCacheSynchronousIrpCompletion False STATUS_PENDING STATUS_SUCCESS s s' \<longrightarrow>
        call_left s' < call_left s) \<and>
     STATUS_SUCCESS = fst (QCacheForwardIrpSynchronous slow_stack sector_write volume)"
proof -
  let ?s = "\<lparr>fw_Caller = Returned STATUS_SUCCESS, fw_Event = True, fw_IoStatus = STATUS_SUCCESS, fw_Done = True,
      fw_PassedOn = False\<rparr>"
  have "lw_forward (tg_lower slow_stack) sector_write (lower volume) =
      (STATUS_PENDING, sector_write\<lparr>ir_Status := STATUS_SUCCESS\<rparr>, lower volume)"
    by (simp add: slow_stack_def)
  from forwarded_call_returns [OF this, of ?s] slow_call show ?thesis by (intro exI [of _ ?s]) simp
qed

end
