(* ===== verification/ScsiChk_Debug.thy ===== *)
theory ScsiChk_Debug
  imports QC_Prelude
begin

section \<open>Which debug messages the logger prints\<close>

text \<open>
  \<open>ScsiDebugPrint\<close> of \<open>src/scsichk/scsichk.c\<close>, in debug builds. The low half of \<open>ScsiChkDebug\<close> is
  compared with the level, the bits from 16 on select single levels. The result is whether the
  message is printed; \<open>None\<close> is a shift by more than the width of the number.
\<close>

definition ScsiDebugPrint :: "ULONG \<Rightarrow> ULONG \<Rightarrow> bool option" where
  "ScsiDebugPrint ScsiChkDebug DebugPrintLevel =
     (if DebugPrintLevel \<le> ScsiChkDebug AND 0xFFFF then Some True
      else if 32 \<le> DebugPrintLevel + 15 then None
      else Some (push_bit (unat (DebugPrintLevel + 15)) 1 AND ScsiChkDebug \<noteq> 0))"

text \<open>
  The comment above the routine says that the levels are bit masks and not cumulative. The low
  half is a threshold: with a level every lower one is printed, and a zero mask prints level 0.
\<close>

lemma debug_levels_cumulative:
  assumes "k \<le> l" "l \<le> m AND 0xFFFF"
  shows "ScsiDebugPrint m k = Some True"
  using order_trans [OF assms] by (simp add: ScsiDebugPrint_def)

lemma debug_mask_zero: "ScsiDebugPrint 0 l = Some True \<longleftrightarrow> l = 0"
  by (simp add: ScsiDebugPrint_def)

text \<open>The mask for errors and warnings, bits 0 and 1, prints every documented level.\<close>

lemma errors_and_warnings_print_all: "l \<le> 3 \<Longrightarrow> ScsiDebugPrint 3 l = Some True"
  by (rule debug_levels_cumulative) simp_all

text \<open>The levels up to 16 are in range of the shift, and the upper half selects one of them.\<close>

lemma debug_level_selected:
  assumes "l \<le> 16" "m AND 0xFFFF < l"
  shows "ScsiDebugPrint m l = Some (bit m (unat l + 15))"
proof -
  have l: "unat l \<le> 16" using assms(1) by (simp add: word_le_nat_alt)
  then have s: "unat (l + 15) = unat l + 15" by (simp add: unat_word_ariths)
  then have "\<not> 32 \<le> l + 15" using l by (simp add: word_le_nat_alt)
  moreover have "push_bit n 1 AND m \<noteq> 0 \<longleftrightarrow> bit m n" if "n < 32" for n
    using and_exp_eq_0_iff_not_bit [of m n] by (simp add: push_bit_eq_mult ac_simps)
  moreover have "\<not> l \<le> m AND 0xFFFF" using assms(2) by simp
  ultimately show ?thesis using l s by (simp add: ScsiDebugPrint_def)
qed

end
