(* ===== verification/Spec2Isabelle.thy ===== *)
theory Spec2Isabelle
  imports QC_Interleaved QC_Later ScsiChk_Witness QC_Mdl Forwarding ScsiChk_Debug
begin

text \<open>
  \<^bold>\<open>QueueCache\<close> is a Windows storage filter driver that answers writes at once, keeps them in a
  queue in memory and writes them to the device below from a worker thread; a control utility
  talks to it. The repository also holds a SCSI logger (a filter driver that counts transfers
  and records SCSI requests) and a reader for its log files. These theories model the code
  under \<open>src/\<close>, the driver \<open>src/qcache/\<close> first, and prove what makes it correct and where it is
  not.

  \<^bold>\<open>How the code is read.\<close> A C structure is a \<open>record\<close>, an integer a machine word of its width,
  memory a list of bytes or words. A handler is a function of the answers of the kernel (a
  record of parameters, one per call: allocations, the remove lock, status values, clocks), the
  request and the state; its result holds the status and the new state. The result \<open>None\<close> is a
  fault (a null or freed pointer, a copy outside its buffer, a failed division) or a wait that
  never ends; the text of each definition says which. Sections under a spin lock are single
  steps. What is not in the repository is a parameter: the lower driver (of any state type), the
  bitmap searches, the WMI library, the registry and the object manager. The documented
  behaviour a theorem needs of them is a named hypothesis (\<open>writes_through\<close>, \<open>clear_runs\<close>,
  \<open>wmi_ok\<close>, \<open>valid_clock\<close>), and each is shown to hold for a concrete instance.

  \<^bold>\<open>What is assumed of the surroundings.\<close> Whether the lower device completes what the worker sends
  it is a parameter too (\<open>lw_completes\<close>): when it does not, the wait of
  \<open>QCacheDispatchQueuedItem\<close> has the result \<open>None\<close> and the worker hangs. The other waits for lower
  requests (requests forwarded synchronously, the driver's own queries) are modelled as ending;
  \<open>Forwarding\<close> shows that they do when the lower driver completes the request. The wait of a
  removal for the remove lock lasts while split reads are answered (\<open>pe_late\<close>). Which requests
  arrive is a parameter of the interleaved system (\<open>ok\<close> of \<open>rstep\<close>); most theorems about it take
  \<open>fit_request\<close>, whole-sector transfers with a buffer of their length, because the code checks no
  alignment of writes and shorter ones are not seen by reads. Handlers of the logger run as
  wholes, except that the three steps in which a completion leaves the queue are separate
  definitions, with a theorem about what can come between them.

  \<^bold>\<open>The cache driver.\<close>
  \<^item> \<open>QC_Prelude\<close>: integer types, values of the Windows headers, bounded memory operations, and
    the shared lemmas. \<open>QC_Stats\<close>: \<open>qcstats.h\<close>. \<open>QC_Device\<close>: the data of \<open>qcache.h\<close>, the state
    (\<open>world\<close>) of one filter device. \<open>QC_Lock\<close>: the spin lock helpers of \<open>qcache.h\<close>; the locale
    \<open>lock_helpers\<close> is the contract of both builds. \<open>QC_Mem\<close>: \<open>wkmem.hpp\<close>. \<open>QC_Mdl\<close>: the release of
    a lower request with its descriptor lists.
  \<^item> \<open>QC_Queue\<close>: \<open>queue.cpp\<close>, admission, lazy writes and the execution of the head of the queue.
    \<open>QC_QueueInv\<close>: the accounting invariant of statistics, remove lock and live items.
    \<open>QC_Thread\<close>: \<open>thread.cpp\<close>, one turn of the worker and its loop with fuel. \<open>QC_View\<close>: the
    abstract specification, the logical contents of the device (the lower contents overlaid with
    the queued writes); the locale \<open>write_back\<close> is its interface and the driver's operations
    interpret it. \<open>QC_Concurrent\<close>: requesters and worker as an interleaved step relation; \<open>QC_Limits\<close>: how far
    concurrent requesters overshoot the limits of the queue. \<open>QC_Readers\<close>: reads as threads, cut at the
    lock and at each turn of their loop; \<open>QC_AtWork\<close>: what they can meet in the queue; \<open>QC_ReadSteps\<close>:
    the invariant of one read; \<open>QC_Regular\<close>: readers, requesters and worker interleaved (\<open>rstep\<close>).
    On that relation, \<open>QC_Whole\<close>: counters and remove lock; \<open>QC_Owners\<close>: each request in one place;
    \<open>QC_Progress\<close>: every read comes to its end when all other threads stand still.
  \<^item> \<open>QC_Partial\<close>, \<open>QC_Scatter\<close>: \<open>partialirp.cpp\<close> and the class \<open>SCATTERED_IRP\<close>, a read that is
    split into several lower reads, and the invariants of its reference count and buffers.
  \<^item> \<open>QC_Bitmap\<close>, \<open>QC_Read\<close>, \<open>QC_Walk\<close>, \<open>QC_Gaps\<close>, \<open>QC_Coherence\<close>, \<open>QC_Sync\<close>: \<open>read.cpp\<close>, first its
    definitions, then the walk over the queue, the loop over the sectors that are still missing,
    and the read as a whole; the last one also has what goes wrong with queued writes shorter than
    a sector. \<open>QC_Later\<close>: what may come between a write and the read that sees it.
  \<^item> \<open>QC_Write\<close>: \<open>write.cpp\<close> and \<open>ioctl.cpp\<close>. \<open>QC_Handlers\<close>: the locale \<open>request_handler\<close>, the
    contract of every entry of the dispatch table (no fault, the invariant kept, each request in
    exactly one place), interpreted for each handler.
  \<^item> \<open>QC_Pnp\<close>, \<open>QC_Usage\<close>, \<open>QC_Entry\<close>: \<open>mainwdm.cpp\<close>, attachment, plug and play, removal, usage
    notifications, \<open>DriverEntry\<close> and \<open>QCacheUnload\<close>.
  \<^item> \<open>QC_Example\<close>, \<open>QC_Witness\<close>, \<open>QC_Interleaved\<close>: a small concrete device, and the instances of the
    properties on it.

  \<^bold>\<open>The other programs.\<close>
  \<^item> \<open>WrFltCmd\<close>: the control utility \<open>src/qcachecmd/wrfltcmd.cpp\<close>; a run is its exit code and its
    visible actions.
  \<^item> \<open>ScsiChk_Counters\<close>, \<open>ScsiChk_Control\<close>, \<open>ScsiChk_Device\<close>: the logger \<open>src/scsichk/scsichk.c\<close>, its
    request paths, its reporting paths, and its device objects. \<open>ScsiChk_Inv\<close>: the invariants and
    the interpretation of \<open>request_handler\<close>. \<open>ScsiChk_Totals\<close>: the counters against the sums over
    the completed requests. \<open>ScsiChk_Pnp\<close>: attachment, names, removal. \<open>ScsiChk_Debug\<close>: which debug
    messages are printed. \<open>ScsiChk_Witness\<close>: instances.
  \<^item> \<open>Forwarding\<close>: the synchronous calls of both drivers in steps of caller and lower driver; the
    locale \<open>waking_routine\<close> is the contract of their completion routines, interpreted for both.
  \<^item> \<open>ScsiLog_Record\<close> (\<open>scsichk.h\<close>), \<open>ScsiLog_Text\<close> (\<open>debug.cpp\<close>), \<open>ScsiLog_Reader\<close> (\<open>scsilog.cpp\<close>): the
    log record and the reader. \<open>ScsiChk_Log\<close> composes the two programs: what the logger recorded is
    what the reader shows.

  \<^bold>\<open>What is shown.\<close> Reads return the logical contents and therefore the caller's own writes;
  accepting a write and draining the queue refine operations on these contents, in every
  interleaving. Beside other threads a read is that of a regular register: every byte is one the
  device had while the read ran. It never faults and never waits for another thread. Counters and
  queue agree, no wake-up is lost, items are served in order, and each request is in one place, on
  every path of every handler and in every interleaving of the threads. Removal waits for the split
  reads under way, drains the queue, and returns when nothing else holds the remove lock. The logger counts every transfer once and its log survives the way to the reader.
  The error theorems describe, as the code behaves, what goes wrong: failed lazy writes, flushes
  that complete before the data, leaked locks, writes admitted after the worker stopped, reads that
  report too few bytes or miss short writes, a device that hangs, attachments that report success
  without a device, freed counters, a queue depth that stays too high. They match
  the defects \<open>src/docs/KNOWN_ISSUES.md\<close> lists as confirmed, and add some it does not list.

  \<^bold>\<open>Fuel.\<close> The worker's loop runs for ever, so \<open>QCacheDeviceWorkerThread\<close> takes a number of turns:
  two more than there are items are enough to drain, or to reach the item at which the device
  hangs; a worker that cannot build its request spins for every number of turns. The loop of \<open>read_gaps\<close> takes one turn per sector of the request at most; that its
  fuel is enough is part of the read theorems. The walk over a log file ends by a measure.

  \<^bold>\<open>Not modelled.\<close> Debug output and the names computed only for it (\<open>KdPrint\<close>, \<open>DbgPrint\<close>,
  the bus names in \<open>QCacheAttachDevice\<close>): no effect on the state. The descriptor
  lists of requests outside \<open>QC_Mdl\<close>: the memory behind them is a byte list.
  Interrupt levels outside the lock helpers, paging of code, and the compiler's and linker's part: not
  observable at this level. \<open>ScsiChkUnload\<close> has an empty body. Formatting of printed values and message texts is left to the runtime
  library. The structure layouts are those of a 64-bit build.
\<close>

section \<open>Properties that span components\<close>

subsection \<open>Acknowledged writes\<close>

text \<open>
  C5: A cached write within the limits is completed at once with success and its full length;
  it appends one item to the queue, does not touch the lower device, and changes the logical
  contents exactly as a write to the device would.
\<close>

theorem write_acknowledged:
  assumes "cached_write e i w"
  shows "\<exists>w'. QCacheWrite L e i w = Some (STATUS_SUCCESS, w') \<and>
     view C w' = write_bytes (ir_ByteOffset i) (ir_Buffer i) (view C w) \<and>
     lower w' = lower w \<and> queue w' = queue w @ [lazy_item i] \<and>
     Completed w' = Completed w @ [i\<lparr>ir_Status := STATUS_SUCCESS, ir_Information := ucast (ir_Length i)\<rparr>]"
  using cached_write_accepts [OF assms, of L] assms
  by (simp add: cached_write_def view_accepted_write write_frame accepted_frame lazy_completion_def)

lemma sector_write_cached: "cached_write good_env sector_write volume"
  using volume_admits(1) sector_write_valid
  by (simp add: cached_write_def) (simp add: sector_write_def beyond_media_def word_sle_eq word_sless_alt)

theorem write_acknowledged_witness:
  "\<exists>w'. QCacheWrite disk good_env sector_write volume = Some (STATUS_SUCCESS, w') \<and>
     view id w' = write_bytes (ir_ByteOffset sector_write) (ir_Buffer sector_write) (view id volume) \<and>
     lower w' = lower volume \<and> queue w' = queue volume @ [lazy_item sector_write] \<and>
     Completed w' = Completed volume @
       [sector_write\<lparr>ir_Status := STATUS_SUCCESS, ir_Information := ucast (ir_Length sector_write)\<rparr>]"
  by (rule write_acknowledged [OF sector_write_cached])

definition volume_after :: "contents lower_driver \<Rightarrow> irp \<Rightarrow> contents world" where
  "volume_after L i = snd (the (QCacheWrite L good_env i volume))"

lemma after_valid: "QCacheWrite disk good_env sector_write volume = Some (STATUS_SUCCESS, volume_after disk sector_write)"
  "valid_read (volume_after disk sector_write) two_sector_read"
proof -
  let ?w = "(note_write_size sector_write (count_write sector_write volume))\<lparr>LowMemCondition := Some False\<rparr>"
  have a: "volume_after disk sector_write = accepted sector_write ?w"
    using cached_write_accepts [OF sector_write_cached, of disk] by (simp add: volume_after_def)
  show "QCacheWrite disk good_env sector_write volume = Some (STATUS_SUCCESS, volume_after disk sector_write)"
    using cached_write_accepts [OF sector_write_cached, of disk] by (simp add: a)
  have "queue (volume_after disk sector_write) = queue written_volume"
    "Size (stats (volume_after disk sector_write)) = 4096"
    by (simp_all add: a accepted_frame write_frame written_queue)
  then show "valid_read (volume_after disk sector_write) two_sector_read"
    using two_sector_valid(1) by (simp add: valid_read_def beyond_media_def)
qed

text \<open>
  C2: A cached write within the limits that QCacheWrite acknowledged is seen by later reads:
  after any sequence of reads with any outcome, further cached writes, cached flushes and
  turns of the worker, a valid read returns (now, through the lower device, or when its
  outstanding lower reads are answered) the old logical contents with the written bytes at the
  written offset and the later writes on top. Assumed: a lower device that completes every
  write it is given and stores it (the fate of a failed lazy write is C32), only lazy items in
  the queue, and the conditions of C1 for the final read (whole sectors in the queue,
  resources, direct I/O).
\<close>

theorem read_your_writes:
  assumes "clear_runs api" "answers_fit L" "reads_back L C" "reads_or_fails L C" "all_succeed L C"
    and "device_ok w" "lazy_only w" "cached_write e i w" "QCacheWrite L e i w = Some (st, w1)"
    and "traffic_run L api es w1 = Some w'"
    and "direct_io L er" "read_resources er" "wf_buffers er r" "valid_read w' r"
  shows "\<exists>st' w2. QCacheRead L er api r w' = Some (st', w2) \<and>
     (let want = view_bytes (fold write_of es (write_bytes (ir_ByteOffset i) (ir_Buffer i) (view C w))) r in
      read_completed r want w' w2 \<or>
      read_passed (r\<lparr>ir_Information := 0\<rparr>) w' w2 \<and> view_bytes (C (lower w')) r = want \<or>
      (\<exists>n. read_waiting (C (lower w')) r want n w' w2))"
proof -
  let ?w = "(note_write_size i (count_write i w))\<lparr>LowMemCondition := Some False\<rparr>"
  have w1: "w1 = accepted i ?w"
    using assms(9) cached_write_accepts [OF assms(8), of L] by simp
  have "lazy_only ?w" using assms(7) by (simp add: lazy_only_def write_frame)
  then have lazy: "lazy_only w1" by (simp add: w1 lazy_only_accepted)
  have "driver_good w" "wf_transfer i" using assms(6,8) by (auto simp: driver_good_def cached_write_def)
  with write_handled [of w i L e] assms(9) have "driver_good w1" by auto
  with lazy have steady: "steady w1" by (simp add: steady_def)
  have v: "view C w1 = write_bytes (ir_ByteOffset i) (ir_Buffer i) (view C w)"
    using assms(8) by (simp add: w1 cached_write_def view_accepted_write write_frame)
  from traffic_contents [OF assms(1,2,4,5,10) steady]
  have w': "device_ok w'" "view C w' = fold write_of es (view C w1)" by (simp_all add: steady_def driver_good_def)
  show ?thesis
    using QCacheRead_coherent [OF assms(1,3,11,12) w'(1) assms(13,14)] by (auto simp: w'(2) v Let_def)
qed

text \<open>The write is served, another follows, and the two sectors are read.\<close>

definition first_write :: irp where
  "first_write = request 6 IRP_MJ_WRITE 0 512 9"

lemma later_traffic:
  "\<exists>w'. traffic_run disk linear_bitmap_api [Served, Issued good_env first_write]
     (volume_after disk sector_write) = Some w' \<and> valid_read w' two_sector_read"
proof -
  let ?v = "volume_after disk sector_write"
  let ?w = "(note_write_size sector_write (count_write sector_write volume))\<lparr>LowMemCondition := Some False\<rparr>"
  have v: "?v = accepted sector_write ?w"
    using cached_write_accepts [OF sector_write_cached, of disk] by (simp add: volume_after_def)
  have q: "queue ?v = [lazy_item sector_write]" by (simp add: v accepted_frame write_frame)
  let ?d = "drain_one disk ?v"
  have d: "?d = dispatch_item disk True (lazy_item sector_write) ?v" using drain_one_cons [OF q] by simp
  have empty: "queue ?d = []" using dispatch_removes_head [OF q] by (simp add: d)
  have stats: "IsCached (stats ?v)" "Size (stats ?v) = 4096" "LowMemCondition ?v = Some False"
    "WriteQueueSize (stats ?v) = 576" "WriteQueueItems (stats ?v) = 1" "MaxQueueSize (stats ?v) = 524288000"
    "MaxQueueItems (stats ?v) = 10000"
    unfolding v
    by (simp_all add: accepted_def Let_def insert_item_eq qc_simps count_write_def note_write_size_def
        lazy_item_def sector_write_def new_item_def sizeof_item_def zero_statistics_def)
  have "WriteQueueSize (stats ?d) = 0" "WriteQueueItems (stats ?d) = 0"
    "MaxQueueSize (stats ?d) = 524288000" "MaxQueueItems (stats ?d) = 10000"
    using stats
    by (simp_all add: d dispatch_item_def dispatch_lower_def dispatch_finish_eq Let_def split: prod.split)
      (simp add: lazy_item_def sector_write_def sizeof_item_def)
  then have "admits good_env (stats ?d)"
    by (simp add: admits_def condition_good_def word_sless_alt) (simp add: good_env_def)
  with stats have w: "cached_write good_env first_write ?d"
    by (simp add: cached_write_def d dispatch_low_mem)
      (simp add: first_write_def beyond_media_def word_sle_eq word_sless_alt)
  have "plain_request good_env first_write ?d"
    using w by (simp add: plain_request_def wf_request_def) (simp add: first_write_def)
  moreover have "ir_MajorFunction first_write = IRP_MJ_WRITE" by (simp add: first_write_def)
  moreover have a: "QCacheWrite disk good_env first_write ?d = Some (STATUS_SUCCESS, accepted first_write
      ((note_write_size first_write (count_write first_write ?d))\<lparr>LowMemCondition := Some False\<rparr>))"
    by (rule cached_write_accepts [OF w])
  moreover have "valid_read (accepted first_write
      ((note_write_size first_write (count_write first_write ?d))\<lparr>LowMemCondition := Some False\<rparr>)) two_sector_read"
    using empty stats(2)
    by (simp add: valid_read_def accepted_frame write_frame count_write_def note_write_size_def upd_stats_def
        beyond_media_def d)
      (simp add: misaligned_def two_sector_read_def word_sle_eq word_sless_alt sector_item_def lazy_item_def
        first_write_def whole_sectors_def)
  ultimately show ?thesis using q by (simp add: driver_dispatch_def)
qed

theorem read_your_writes_witness:
  "\<exists>w' st' w2. traffic_run disk linear_bitmap_api [Served, Issued good_env first_write]
       (volume_after disk sector_write) = Some w' \<and>
     QCacheRead disk good_env linear_bitmap_api two_sector_read w' = Some (st', w2) \<and>
     (let want = view_bytes (write_bytes 0 (ir_Buffer first_write)
                   (write_bytes 512 (ir_Buffer sector_write) (view id volume))) two_sector_read in
      read_completed two_sector_read want w' w2 \<or>
      read_passed (two_sector_read\<lparr>ir_Information := 0\<rparr>) w' w2 \<and> view_bytes (id (lower w')) two_sector_read = want \<or>
      (\<exists>n. read_waiting (id (lower w')) two_sector_read want n w' w2))"
proof -
  obtain w' where w': "traffic_run disk linear_bitmap_api [Served, Issued good_env first_write]
     (volume_after disk sector_write) = Some w'" "valid_read w' two_sector_read"
    using later_traffic by blast
  have "wf_buffers good_env two_sector_read" "lazy_only volume"
    by (simp_all add: two_sector_read_def lazy_only_def)
  from read_your_writes [OF linear_runs disk_answers_fit disk_reads_back(1) disk_reads_or_fails disk_all_succeed(1)
      volume_good(2) this(2) sector_write_cached after_valid(1) w'(1) good_direct_io good_resources(1) this(1) w'(2)] w'(1)
  show ?thesis
    by (auto simp: write_of_def act_irp_def first_write_def sector_write_def)
qed

subsection \<open>Reads\<close>

text \<open>
  C1: A valid read (whole sectors inside the volume, every queued write made of whole sectors)
  of a device in a well-formed state (device_ok) whose lower driver reads back its contents
  returns without a fault, and what the caller gets are the bytes of the logical contents: the
  lower contents overlaid with the queued writes in queue order. Either the request is
  completed now with these bytes, or nothing overlaps and it is passed down to a device that
  holds these bytes, or it waits in a scatter object whose outstanding lower reads are exactly
  what is still missing. Assumed: the allocations, the mapping and the remove lock of the read
  succeed (read_resources), and the lower device does direct I/O while the filter device is
  not buffered (direct_io).
\<close>

theorem read_returns_logical_contents:
  assumes "clear_runs api" "reads_back L C" "direct_io L e" "read_resources e"
    and "device_ok w" "wf_buffers e i" "valid_read w i"
  shows "\<exists>st w'. QCacheRead L e api i w = Some (st, w') \<and>
     (read_completed i (view_bytes (view C w) i) w w' \<or>
      read_passed (i\<lparr>ir_Information := 0\<rparr>) w w' \<and>
        view_bytes (C (lower w)) i = view_bytes (view C w) i \<or>
      read_waiting (C (lower w)) i (view_bytes (view C w) i)
        (512 * length (gap_sectors (queue w) i)) w w')"
  using QCacheRead_coherent [OF assms] by auto

theorem read_returns_logical_contents_witness:
  "\<exists>st w'. QCacheRead disk good_env linear_bitmap_api two_sector_read written_volume = Some (st, w') \<and>
     (read_completed two_sector_read (view_bytes (view id written_volume) two_sector_read) written_volume w' \<or>
      read_passed (two_sector_read\<lparr>ir_Information := 0\<rparr>) written_volume w' \<and>
        view_bytes (id (lower written_volume)) two_sector_read = view_bytes (view id written_volume) two_sector_read \<or>
      read_waiting (id (lower written_volume)) two_sector_read
        (view_bytes (view id written_volume) two_sector_read)
        (512 * length (gap_sectors (queue written_volume) two_sector_read)) written_volume w')"
  by (rule read_returns_logical_contents)
    (simp_all add: written_ok two_sector_valid, simp add: two_sector_read_def)

subsection \<open>Writes and the worker over time\<close>

text \<open>
  C6: For every interleaving of accepted requests and worker steps, with a lower device that
  performs its writes, the logical contents are those of applying the accepted writes in
  order: a worker step changes nothing a client can see.
\<close>

theorem logical_contents_interleaving:
  assumes "all_succeed L C" "lazy_only w"
  shows "view C (fold (case_option (\<lambda>w. if 0 < length (queue w) then drain_one L w else w) accepted) es w)
     = fold (case_option id act_irp) es (view C w)"
  using cache.interleaving [of L C w es] assms by (simp add: list.pred_True option.case_eq_if list_all_iff)

theorem logical_contents_interleaving_witness:
  "view id (fold (case_option (\<lambda>w. if 0 < length (queue w) then drain_one disk w else w) accepted)
       [None, Some sector_write, None] written_volume)
     = fold (case_option id act_irp) [None, Some sector_write, None] (view id written_volume)"
  by (rule logical_contents_interleaving) (simp_all add: lazy_only_def written_queue lazy_item_def new_item_def)

text \<open>
  C7: When the lower device completes and performs every write, every lower request can be
  built and only lazy items are queued: after as many worker steps as there are queued items
  the queue is empty and the lower device holds the logical contents. What happens otherwise
  is in C32 (failed write), C24 (a device that hangs) and C35 (a stopped worker).
\<close>

theorem draining_writes_everything:
  assumes "all_succeed L C" "lazy_only w"
  shows "C (lower ((drain_one L ^^ length (queue w)) w)) = view C w \<and>
     queue ((drain_one L ^^ length (queue w)) w) = []"
  using cache.drains_to_backing [of L C w] assms by simp

theorem draining_writes_everything_witness:
  "id (lower ((drain_one disk ^^ length (queue written_volume)) written_volume)) = view id written_volume \<and>
     queue ((drain_one disk ^^ length (queue written_volume)) written_volume) = []"
  by (rule draining_writes_everything) (simp_all add: lazy_only_def written_queue lazy_item_def new_item_def)

text \<open>
  C32: What the worker does with a lazy write the lower device completes with a failure,
  storing nothing: the item is removed like a successful one, its bytes are gone from the
  logical contents, no request reports the failure and the last error of the statistics does
  not change.
\<close>

theorem failed_lazy_write_is_dropped:
  assumes "queue w = it # q" "it_Irp it = None" "lw_completes L (lower w)"
    and "C (snd (lw_built L (lazy_request it) (lower w))) = C (lower w)"
  shows "\<exists>w'. QCacheDispatchQueuedItem L True it w = Some w' \<and>
     queue w' = q \<and> view C w' = overlay q (C (lower w)) \<and> Completed w' = Completed w \<and>
     LastErrorCode (stats w') = LastErrorCode (stats w)"
  using dispatch_failed_write [where C = C, OF assms(1,2,4)] assms(1,2) dispatch_returns [OF assms(3)]
  by (cases "lw_built L (lazy_request it) (lower w)")
    (simp add: dispatch_item_def dispatch_lower_def dispatch_finish_eq)

theorem failed_lazy_write_is_dropped_witness:
  "\<exists>w'. QCacheDispatchQueuedItem broken_disk True (lazy_item sector_write) written_volume = Some w' \<and>
     queue w' = [] \<and> view id w' = overlay [] (id (lower written_volume)) \<and>
     Completed w' = Completed written_volume \<and>
     LastErrorCode (stats w') = LastErrorCode (stats written_volume)"
  by (rule failed_lazy_write_is_dropped)
    (simp_all add: written_queue lazy_item_def new_item_def, simp add: broken_disk_def)

text \<open>
  C33: A flush of a cached device within the limits of the queue, with the out-of-memory event
  present and the allocations of its item succeeding, is completed with success at once: the
  lower device is unchanged and every queued write is still queued, in front of the item of
  the flush. (Over the limits the flush is queued with its request and completed after the
  writes before it.)
\<close>

theorem flush_completes_before_data:
  assumes "IsCached (stats w)" "admits e (stats w)" "LowMemCondition w \<noteq> None" "lazy_resources e i"
    and "ir_MajorFunction i = IRP_MJ_FLUSH_BUFFERS"
  shows "\<exists>w'. QCacheFlushBuffers e i w = Some (STATUS_SUCCESS, w') \<and> lower w' = lower w \<and>
     queue w' = queue w @ [new_item\<lparr>it_MajorFunction := IRP_MJ_FLUSH_BUFFERS\<rparr>] \<and>
     Completed w' = Completed w @ [i\<lparr>ir_Status := STATUS_SUCCESS, ir_Information := 0\<rparr>]"
proof -
  obtain b where b: "LowMemCondition w = Some b" using assms(3) by auto
  let ?w = "w\<lparr>LowMemCondition := Some False\<rparr>" and ?i = "i\<lparr>ir_Information := 0\<rparr>"
  have "QCacheQueueLazyWriteIrp e i ?w = Some (STATUS_SUCCESS, accepted i ?w)"
    using assms(4,5)
    by (simp add: QCacheQueueLazyWriteIrp_def lazy_resources_def lazy_insert_def accepted_def lazy_item_def
        lazy_completion_def Let_def IoAcquireRemoveLock_def IoCompleteRequest_def new_item_def status_information)
  then show ?thesis
    using assms b
    by (simp add: QCacheFlushBuffers_def QCacheQueueIrp_def KeSetLowMem_def accepted_frame lazy_item_def
        lazy_completion_def)
qed

theorem flush_completes_before_data_witness:
  "\<exists>w'. QCacheFlushBuffers good_env flush_request written_volume = Some (STATUS_SUCCESS, w') \<and>
     lower w' = lower written_volume \<and>
     queue w' = queue written_volume @ [new_item\<lparr>it_MajorFunction := IRP_MJ_FLUSH_BUFFERS\<rparr>] \<and>
     Completed w' = Completed written_volume @ [flush_request\<lparr>ir_Status := STATUS_SUCCESS, ir_Information := 0\<rparr>]"
  by (rule flush_completes_before_data) (simp_all add: flush_request_def)

subsection \<open>Requests are owned in one place\<close>

text \<open>
  C8: Whatever requests other than plug and play reach the dispatch table, in any number and
  order, no handler faults and every one of them ends in exactly one of the places completed,
  passed down, queued, or original request of a split read, and those that were there before
  stay in one: none is lost and none is duplicated. Each handler runs as a whole; C11 has the
  interleaved steps. Assumed: the out-of-memory event exists, transfers come with buffers of
  their length, and the answers of the lower device fit the buffers they were asked for.
\<close>

theorem requests_owned_once:
  assumes "clear_runs api" "answers_fit L" "driver_good w"
    and "list_all wf_request qs"
  shows "\<exists>w'. run_requests (driver_dispatch L api) qs w = Some w' \<and>
     owned w' = owned w + mset (map (\<lambda>q. ir_id (snd q)) qs)"
  using driver.runs [of api L w qs] assms by blast

theorem requests_owned_once_witness:
  "\<exists>w'. run_requests (driver_dispatch disk linear_bitmap_api)
       [(good_env, sector_write), (good_env, two_sector_read), (good_env, flush_request)] volume = Some w' \<and>
     owned w' = owned volume +
       mset (map (\<lambda>q. ir_id (snd q)) [(good_env, sector_write), (good_env, two_sector_read), (good_env, flush_request)])"
  by (rule requests_owned_once)
    (simp_all add: volume_good wf_request_def sector_write_def two_sector_read_def flush_request_def)

text \<open>
  However long the worker thread runs, whatever requests it can build and whatever the
  lower device answers, the accounting invariant of the queue holds afterwards and every
  request is still owned in the same number of places.
\<close>

theorem worker_keeps_invariant:
  assumes "queue_inv w" "same_irp L"
  shows "queue_inv (snd (QCacheDeviceWorkerThread n L builds ls w)) \<and>
     owned (snd (QCacheDeviceWorkerThread n L builds ls w)) = owned w"
  using assms worker_queue_inv worker_owned by blast

theorem worker_keeps_invariant_witness:
  "queue_inv (snd (QCacheDeviceWorkerThread 5 disk (\<lambda>_. True) 0 written_volume)) \<and>
     owned (snd (QCacheDeviceWorkerThread 5 disk (\<lambda>_. True) 0 written_volume)) = owned written_volume"
  by (rule worker_keeps_invariant) (use written_ok in \<open>simp_all add: device_ok_def\<close>)

subsection \<open>Removal\<close>

text \<open>
  C36: A lazy write whose buffer cannot be mapped or allocated fails after the remove lock was
  taken and never gives it back: the removal of the device does not return any more.
\<close>

theorem leaked_lock_blocks_removal:
  assumes "item_alloc e" "NT_SUCCESS (acquire_status e)" "ir_MajorFunction i = IRP_MJ_WRITE"
    and "\<not> mdl_mapped e \<or> \<not> buffer_alloc e" "QCacheQueueLazyWriteIrp e i w = Some (st, w')"
    and "queue_inv w" "can_drain pe w" "Scatters w = []" "quiet_stack T C"
    and "NT_SUCCESS (acquire_status (pe_env pe))" "ir_MinorFunction (pn_irp r) = IRP_MN_REMOVE_DEVICE"
    and "fd_world D = w'"
  shows "QCachePnp T pe r D = None"
proof -
  from lazy_leak [OF assms(1-4), of w] assms(5) have l: "RemoveLock (ext w') = Suc (RemoveLock (ext w))"
    "queue w' = queue w" "WorkerThread (ext w') = WorkerThread (ext w)" "Scatters w' = Scatters w"
    by auto
  have "can_drain pe (fd_world D)" "Scatters (fd_world D) = []"
    using assms(7,8,12) l by (simp_all add: can_drain_def lazy_only_def)
  moreover have "length (queue (fd_world D)) < RemoveLock (fd_ext D)"
    using assms(6,12) l by (simp add: queue_inv_def)
  ultimately show ?thesis by (intro held_lock_blocks [OF assms(10,11,9)])
qed

definition leaked_volume :: "contents world" where
  "leaked_volume = snd (the (QCacheQueueLazyWriteIrp (good_env\<lparr>mdl_mapped := False\<rparr>) sector_write volume))"

theorem leaked_lock_blocks_removal_witness:
  "QCachePnp disk_stack good_pnp (pnp IRP_MN_REMOVE_DEVICE) (filtered leaked_volume) = None"
proof -
  let ?e = "good_env\<lparr>mdl_mapped := False\<rparr>"
  have "QCacheQueueLazyWriteIrp ?e sector_write volume = Some (STATUS_INSUFFICIENT_RESOURCES, leaked_volume)"
    using lazy_leak [of ?e sector_write volume] sector_write_valid by (auto simp: leaked_volume_def)
  then show ?thesis
    by (intro leaked_lock_blocks_removal [of ?e sector_write volume _ _ _ _ id])
      (use volume_good in \<open>simp_all add: sector_write_valid pnp_def\<close>)
qed

subsection \<open>A missing event\<close>

text \<open>
  When the out-of-memory event cannot be created the driver still attaches its devices,
  and the first write or flush of such a device sets or resets the event through a null
  pointer.
\<close>

theorem missing_event_faults:
  assumes "\<not> NT_SUCCESS (de_create_event e OutOfMemoryEvent (event_descriptor e))"
    and "QCacheAttachDevice T pe ae (entry_config e) ch d = Some (st, Some D)" "\<not> fd_Deleted D"
    and "ir_MajorFunction i = IRP_MJ_WRITE \<or> ir_MajorFunction i = IRP_MJ_FLUSH_BUFFERS"
  shows "QCacheQueueIrp qe i (fd_world D) = None"
proof -
  have "IsCached (stats (fd_world D))"
    using attach_result(2) [OF assms(2,3)] by (simp add: attached_state_def)
  moreover have "LowMemCondition (fd_world D) = None"
    using assms(1-3)
    by (auto simp: QCacheAttachDevice_def Let_def bind_eq_Some_conv new_world_def set_cached_def upd_stats_def
        entry_config_def open_event_def split: if_splits)
  ultimately show ?thesis
    using assms(4) by (auto simp: QCacheQueueIrp_def KeSetLowMem_def upd_stats_def)
qed

subsection \<open>A write acknowledged after the worker stopped\<close>

text \<open>
  C35: A write that was admitted before the worker stopped can be inserted after it stopped:
  it is acknowledged with success, and in no later state has the worker retired anything more,
  so the item stays in the queue for good.
\<close>

theorem stranded_write_is_never_written:
  assumes "fresh w" "IsCached (stats w)" "admits e (stats w)" "LowMemCondition w \<noteq> None"
    and "lazy_resources e i" "wf_transfer i" "ir_MajorFunction i = IRP_MJ_WRITE"
  shows "\<exists>s. (step L)\<^sup>*\<^sup>* (initial 1 w) s \<and>
     Completed (sy_World s) = Completed w @ [lazy_completion i] \<and>
     (\<forall>s'. (step L)\<^sup>*\<^sup>* s s' \<longrightarrow> sy_Retired s' = sy_Retired s \<and> lazy_item i \<in> set (queue (sy_World s')))"
proof -
  obtain s where s: "(step L)\<^sup>*\<^sup>* (initial 1 w) s" "sy_Worker s = Stopped"
      "queue (sy_World s) = [lazy_item i]" "Completed (sy_World s) = Completed w @ [lazy_completion i]"
    using stranded_write [OF assms, of L] by blast
  have "reachable L 1 s" using assms(1) s(1) by (auto simp: reachable_def)
  then have inv: "system_inv s" by (rule reachable_inv)
  have "sy_Retired s' = sy_Retired s \<and> lazy_item i \<in> set (queue (sy_World s'))" if "(step L)\<^sup>*\<^sup>* s s'" for s'
    using stopped_forever [OF that inv s(2)] s(3) by (auto simp: nothing_lost_def)
  with s show ?thesis by blast
qed


theorem stranded_write_is_never_written_witness:
  "\<exists>s. (step disk)\<^sup>*\<^sup>* (initial 1 volume) s \<and>
     Completed (sy_World s) = Completed volume @ [lazy_completion sector_write] \<and>
     (\<forall>s'. (step disk)\<^sup>*\<^sup>* s s' \<longrightarrow>
        sy_Retired s' = sy_Retired s \<and> lazy_item sector_write \<in> set (queue (sy_World s')))"
  by (rule stranded_write_is_never_written [of _ good_env])
    (use volume_admits sector_write_valid in simp_all)

definition no_event_registry :: "contents entry_env" where
  "no_event_registry = (registry True)\<lparr>de_create_event := (\<lambda>_ _. 0xC0000022)\<rparr>"

definition eventless_device :: "contents filter_device" where
  "eventless_device =
     the (snd (the (QCacheAttachDevice disk_stack good_pnp (ds_attach good_stack)
                      (entry_config no_event_registry) 0 (\<lambda>_. 0))))"

lemma eventless_attached:
  "QCacheAttachDevice disk_stack good_pnp (ds_attach good_stack) (entry_config no_event_registry) 0 (\<lambda>_. 0)
     = Some (STATUS_SUCCESS, Some eventless_device)"
  "\<not> fd_Deleted eventless_device"
  by (simp_all add: eventless_device_def QCacheAttachDevice_def good_stack_def Let_def has_flag_def)
    (simp_all add: disk_stack_def)

theorem missing_event_faults_witness:
  "QCacheQueueIrp good_env sector_write (fd_world eventless_device) = None"
  by (rule missing_event_faults [OF _ eventless_attached])
    (simp_all add: no_event_registry_def sector_write_valid)

subsection \<open>Attaching\<close>

text \<open>
  C28: A device object that an attachment leaves behind undeleted is attached, cached, empty,
  has a running worker and the limits of the registry, sits on a direct-I/O device (so that
  the read path reads into the memory of the request itself), and satisfies the invariants of
  the handlers exactly when the out-of-memory event exists.
\<close>

theorem attached_device_ready:
  assumes "QCacheAttachDevice T pe ae cf ch d = Some (st, Some D)" "\<not> fd_Deleted D"
  shows "st = STATUS_SUCCESS \<and> attached_state T cf d D \<and>
     driver_good (fd_world D) = (QCacheLowMemCondition cf \<noteq> None) \<and>
     direct_io (tg_lower T) (e\<lparr>device_flags := fd_Flags D\<rparr>)"
  using attach_result [OF assms] attached_direct_io [of T cf d D "e\<lparr>device_flags := fd_Flags D\<rparr>"] by simp

theorem attached_device_ready_witness:
  "STATUS_SUCCESS = STATUS_SUCCESS \<and>
     attached_state disk_stack (entry_config no_event_registry) (\<lambda>_. 0) eventless_device \<and>
     driver_good (fd_world eventless_device) = (QCacheLowMemCondition (entry_config no_event_registry) \<noteq> None) \<and>
     direct_io (tg_lower disk_stack) (good_env\<lparr>device_flags := fd_Flags eventless_device\<rparr>)"
  by (rule attached_device_ready [OF eventless_attached])

text \<open>
  C37: Attaching by name to a device that is read-only, for which no device object can be
  created, or to which the filter cannot attach: the attachment reports success without a
  usable extension, and the initialization that follows uses an unset or freed pointer.
\<close>

theorem skipped_device_faults:
  assumes "NT_SUCCESS lookup" "has_flag ch FILE_READ_ONLY_DEVICE \<or> \<not> NT_SUCCESS (at_create_status ae) \<or> \<not> at_attached ae"
  shows "QCacheAttachLegacyDevice lookup T pe ae cf ch d = None"
  using assms
  by (auto simp: QCacheAttachLegacyDevice_def QCacheAttachDevice_def Let_def bind_eq_Some_conv
      split: option.split if_splits)

theorem skipped_device_faults_witness:
  "QCacheAttachLegacyDevice 0 disk_stack good_pnp (ds_attach good_stack) volume_config FILE_READ_ONLY_DEVICE (\<lambda>_. 0)
     = None"
  by (rule skipped_device_faults) (simp_all add: has_flag_def)

subsection \<open>Loading the driver\<close>

text \<open>
  The path of the parameters key is the registry path with the suffix as long as the
  16-bit length of the buffer does not wrap round; for every longer path the terminating zero
  is written outside the buffer.
\<close>

theorem parameters_key_path_bound:
  assumes "length p < 32768"
  shows "parameters_key_path p = (if length p < 32756 then Some (p @ parameters_suffix) else None)"
  using key_path_fits key_path_overflows assms by simp

theorem parameters_key_path_bound_witness:
  "parameters_key_path (replicate 32756 0x41) =
     (if length (replicate 32756 (0x41 :: WCHAR)) < 32756
      then Some (replicate 32756 0x41 @ parameters_suffix) else None)"
  by (rule parameters_key_path_bound) simp

text \<open>
  A queue limit stored in the registry as eight or four little-endian bytes is read back
  as the stored number (zero-extended from 32 bits).
\<close>

theorem queue_limit_decoding:
  assumes "NT_SUCCESS st"
  shows "read_limit (st, le_bytes 8 v) old = v \<and> read_limit (st, le_bytes 4 v) old = take_bit 32 v"
  using limit_read assms by blast

theorem queue_limit_decoding_witness:
  "read_limit (0, le_bytes 8 1234) 10000 = 1234 \<and> read_limit (0, le_bytes 4 1234) 10000 = take_bit 32 1234"
  by (rule queue_limit_decoding) simp

end
